(* ===== verification/Prelude.thy ===== *)
theory Prelude
  imports Main "HOL-Library.Word"
begin

text \<open>
  What every component of the development shares: the Rust integer types at their widths,
  Rust's \<open>Result\<close> with panics as a third outcome, the state-and-result computations the
  stateful code is written in (\<open>andthen\<close> is Rust's \<open>?\<close> operator), a total-correctness
  triple for them with one rule per combinator (collection \<open>wp\<close>), and little-endian byte
  codecs.  \<open>usize\<close> is 32 bits on both targets (riscv32imc, xtensa-esp32s3); a \<open>usize\<close> is
  a \<open>nat\<close> whose bound \<open>usize_limit\<close> is written out wherever the code checks it.
\<close>

unbundle bit_operations_syntax

section \<open>Rust integers\<close>

type_synonym u8 = "8 word"
type_synonym u16 = "16 word"
type_synonym u32 = "32 word"
type_synonym u64 = "64 word"
type_synonym i32 = "32 word"

definition usize_limit :: nat where
  "usize_limit = 2 ^ 32"

text \<open>\<open>usize::try_from(x: u64)\<close>, \<open>u32::try_from(x: usize)\<close> and \<open>usize::checked_add\<close>.\<close>

definition usize_from_u64 :: "u64 \<Rightarrow> nat option" where
  "usize_from_u64 x = (if unat x < usize_limit then Some (unat x) else None)"

definition u32_from_usize :: "nat \<Rightarrow> u32 option" where
  "u32_from_usize n = (if n < usize_limit then Some (of_nat n) else None)"

definition usize_checked_add :: "nat \<Rightarrow> nat \<Rightarrow> nat option" where
  "usize_checked_add a b = (if a + b < usize_limit then Some (a + b) else None)"

definition usize_checked_mul :: "nat \<Rightarrow> nat \<Rightarrow> nat option" where
  "usize_checked_mul a b = (if a * b < usize_limit then Some (a * b) else None)"

definition usize_saturating_add :: "nat \<Rightarrow> nat \<Rightarrow> nat" where
  "usize_saturating_add a b = min (a + b) (usize_limit - 1)"

definition u64_checked_add :: "u64 \<Rightarrow> u64 \<Rightarrow> u64 option" where
  "u64_checked_add a b = (if unat a + unat b < 2 ^ 64 then Some (a + b) else None)"

definition u64_saturating_mul :: "u64 \<Rightarrow> u64 \<Rightarrow> u64" where
  "u64_saturating_mul a b = (if unat a * unat b < 2 ^ 64 then a * b else - 1)"

text \<open>\<open>div_ceil\<close> of Rust: \<open>a / b\<close> and one more when \<open>b\<close> does not divide \<open>a\<close>.\<close>

definition div_ceil :: "nat \<Rightarrow> nat \<Rightarrow> nat" where
  "div_ceil a b = (if a mod b = 0 then a div b else a div b + 1)"

definition word_div_ceil :: "'l::len word \<Rightarrow> 'l word \<Rightarrow> 'l word" where
  "word_div_ceil a b = (if a mod b = 0 then a div b else a div b + 1)"

lemma usize_from_u64_Some [simp]:
  "usize_from_u64 x = Some n \<longleftrightarrow> n = unat x \<and> unat x < usize_limit"
  by (auto simp: usize_from_u64_def)

lemma usize_from_u64_None [simp]: "usize_from_u64 x = None \<longleftrightarrow> usize_limit \<le> unat x"
  by (auto simp: usize_from_u64_def)

lemma u32_from_usize_Some [simp]:
  "u32_from_usize n = Some a \<longleftrightarrow> a = of_nat n \<and> n < usize_limit"
  by (auto simp: u32_from_usize_def)

lemma u32_from_usize_None [simp]: "u32_from_usize n = None \<longleftrightarrow> usize_limit \<le> n"
  by (auto simp: u32_from_usize_def)

lemma usize_checked_add_Some [simp]:
  "usize_checked_add a b = Some c \<longleftrightarrow> c = a + b \<and> a + b < usize_limit"
  by (auto simp: usize_checked_add_def)

lemma usize_checked_add_None [simp]: "usize_checked_add a b = None \<longleftrightarrow> usize_limit \<le> a + b"
  by (auto simp: usize_checked_add_def)

lemma usize_checked_mul_Some [simp]:
  "usize_checked_mul a b = Some c \<longleftrightarrow> c = a * b \<and> a * b < usize_limit"
  by (auto simp: usize_checked_mul_def)

lemma unat_lt_usize_limit [simp]: "unat (a :: u32) < usize_limit"
  using unsigned_less [of a] by (simp add: usize_limit_def)

lemma unat_of_nat_usize: "n < usize_limit \<Longrightarrow> unat (of_nat n :: u32) = n"
  by (simp add: usize_limit_def unat_of_nat)

lemma unat_ucast_16_32 [simp]: "unat (ucast (x :: u16) :: u32) = unat x"
proof -
  have "unat x < 2 ^ 16" using unsigned_less [of x] by simp
  then show ?thesis by (simp add: unsigned_ucast_eq take_bit_nat_eq_self)
qed

lemma unat_ucast_8_32 [simp]: "unat (ucast (x :: u8) :: u32) = unat x"
proof -
  have "unat x < 2 ^ 8" using unsigned_less [of x] by simp
  then show ?thesis by (simp add: unsigned_ucast_eq take_bit_nat_eq_self)
qed

lemma unat_ucast_32_64 [simp]: "unat (ucast (x :: u32) :: u64) = unat x"
proof -
  have "unat x < 2 ^ 32" using unsigned_less [of x] by simp
  then show ?thesis by (simp add: unsigned_ucast_eq take_bit_nat_eq_self)
qed

lemma unat_add_small: "unat (x :: u32) + unat y < 2 ^ 32 \<Longrightarrow> unat (x + y) = unat x + unat y"
  by (simp add: unat_word_ariths)

lemma unat_add_small_64: "unat (x :: u64) + unat y < 2 ^ 64 \<Longrightarrow> unat (x + y) = unat x + unat y"
  by (simp add: unat_word_ariths)

lemma div_ceil_bounds:
  assumes "0 < b"
  shows "a \<le> div_ceil a b * b" and "div_ceil a b * b < a + b"
proof -
  have "a = a div b * b + a mod b" and "a mod b < b"
    using assms by simp_all
  then show "a \<le> div_ceil a b * b" and "div_ceil a b * b < a + b"
    by (cases "a mod b = 0"; simp add: div_ceil_def add_mult_distrib; linarith)+
qed

lemma div_ceil_le_iff:
  assumes "0 < b" shows "div_ceil a b * b \<le> k * b \<longleftrightarrow> a \<le> k * b"
proof
  assume "a \<le> k * b"
  show "div_ceil a b * b \<le> k * b"
  proof (rule ccontr)
    assume "\<not> div_ceil a b * b \<le> k * b"
    then have "k + 1 \<le> div_ceil a b" by (simp add: assms)
    then have "(k + 1) * b \<le> div_ceil a b * b" by (rule mult_le_mono1)
    with div_ceil_bounds(2) [OF assms, of a] \<open>a \<le> k * b\<close> show False by simp
  qed
qed (use div_ceil_bounds(1) [OF assms, of a] in linarith)

lemma unat_word_div_ceil:
  assumes "0 < unat b"
  shows "unat (word_div_ceil a b) = div_ceil (unat a) (unat b)"
proof (cases "a mod b = 0")
  case True
  then have "unat a mod unat b = 0" by (simp add: unat_mod [symmetric])
  with True show ?thesis by (simp add: word_div_ceil_def div_ceil_def unat_div)
next
  case False
  then have m: "unat a mod unat b \<noteq> 0" by (metis unat_mod unat_eq_zero)
  then have "0 < unat a" by (rule_tac ccontr) simp
  have "unat b \<noteq> 1" using m by auto
  then have "unat a div unat b < unat a" using \<open>0 < unat a\<close> assms by simp
  then have "unat (a div b) < unat a" by (simp add: unat_div)
  moreover have "unat a < 2 ^ LENGTH('a)" by (rule unsigned_less)
  ultimately have "unat (a div b) + 1 < 2 ^ LENGTH('a)" by linarith
  then have "unat (a div b + 1) = unat (a div b) + 1"
    by (simp add: unat_word_ariths)
  with False m show ?thesis by (simp add: word_div_ceil_def div_ceil_def unat_div)
qed

text \<open>The bytes of an ASCII literal.\<close>

definition ascii :: "string \<Rightarrow> u8 list" where
  "ascii s = map (\<lambda>c. of_nat (of_char c)) s"

section \<open>Results, panics and computations\<close>

datatype ('a, 'e) res = Ok 'a | Err 'e | Panic

type_synonym ('s, 'a, 'e) comp = "'s \<Rightarrow> ('a, 'e) res \<times> 's"

definition return :: "'a \<Rightarrow> ('s, 'a, 'e) comp" where
  "return x = (\<lambda>s. (Ok x, s))"

definition throw :: "'e \<Rightarrow> ('s, 'a, 'e) comp" where
  "throw e = (\<lambda>s. (Err e, s))"

definition panic :: "('s, 'a, 'e) comp" where
  "panic = (\<lambda>s. (Panic, s))"

definition andthen :: "('s, 'a, 'e) comp \<Rightarrow> ('a \<Rightarrow> ('s, 'b, 'e) comp) \<Rightarrow> ('s, 'b, 'e) comp" where
  "andthen m k = (\<lambda>s. case m s of
     (Ok a, s') \<Rightarrow> k a s' | (Err e, s') \<Rightarrow> (Err e, s') | (Panic, s') \<Rightarrow> (Panic, s'))"

definition map_err :: "('e \<Rightarrow> 'f) \<Rightarrow> ('s, 'a, 'e) comp \<Rightarrow> ('s, 'a, 'f) comp" where
  "map_err f m = (\<lambda>s. case m s of
     (Ok a, s') \<Rightarrow> (Ok a, s') | (Err e, s') \<Rightarrow> (Err (f e), s') | (Panic, s') \<Rightarrow> (Panic, s'))"

text \<open>\<open>match m { Ok(a) => .., Err(e) => .. }\<close>: the result becomes a value, a panic does not.\<close>

definition attempt :: "('s, 'a, 'e) comp \<Rightarrow> ('s, 'e + 'a, 'f) comp" where
  "attempt m = (\<lambda>s. case m s of
     (Ok a, s') \<Rightarrow> (Ok (Inr a), s') | (Err e, s') \<Rightarrow> (Ok (Inl e), s') | (Panic, s') \<Rightarrow> (Panic, s'))"

definition ok_or :: "'e \<Rightarrow> 'a option \<Rightarrow> ('s, 'a, 'e) comp" where
  "ok_or e x = (case x of None \<Rightarrow> throw e | Some a \<Rightarrow> return a)"

definition reject_if :: "bool \<Rightarrow> 'e \<Rightarrow> ('s, unit, 'e) comp" where
  "reject_if b e = (if b then throw e else return ())"

definition panic_if :: "bool \<Rightarrow> ('s, unit, 'e) comp" where
  "panic_if b = (if b then panic else return ())"

definition gets :: "('s \<Rightarrow> 'a) \<Rightarrow> ('s, 'a, 'e) comp" where
  "gets f = (\<lambda>s. (Ok (f s), s))"

definition modify :: "('s \<Rightarrow> 's) \<Rightarrow> ('s, unit, 'e) comp" where
  "modify f = (\<lambda>s. (Ok (), f s))"

text \<open>A computation on one field of the state, given by the field's reader and writer.\<close>

definition on_field :: "('s \<Rightarrow> 'f) \<Rightarrow> ('f \<Rightarrow> 's \<Rightarrow> 's) \<Rightarrow> ('f, 'a, 'e) comp \<Rightarrow> ('s, 'a, 'e) comp" where
  "on_field rd wr m = (\<lambda>s. case m (rd s) of (r, x) \<Rightarrow> (r, wr x s))"

fun for_each :: "'x list \<Rightarrow> ('x \<Rightarrow> ('s, unit, 'e) comp) \<Rightarrow> ('s, unit, 'e) comp" where
  "for_each [] f = return ()"
| "for_each (x # xs) f = andthen (f x) (\<lambda>_. for_each xs f)"

fun collect :: "'x list \<Rightarrow> ('x \<Rightarrow> ('s, 'a, 'e) comp) \<Rightarrow> ('s, 'a list, 'e) comp" where
  "collect [] f = return []"
| "collect (x # xs) f = andthen (f x) (\<lambda>a. andthen (collect xs f) (\<lambda>as. return (a # as)))"

named_theorems run \<open>unfolding of the combinators on a concrete state\<close>

lemmas combinator_defs =
  return_def throw_def panic_def andthen_def map_err_def attempt_def ok_or_def reject_if_def
  panic_if_def gets_def modify_def on_field_def

lemma return_run [run]: "return x s = (Ok x, s)"
  by (simp add: return_def)

lemma throw_run [run]: "throw e s = (Err e, s)"
  by (simp add: throw_def)

lemma panic_run [run]: "panic s = (Panic, s)"
  by (simp add: panic_def)

lemma gets_run [run]: "gets f s = (Ok (f s), s)"
  by (simp add: gets_def)

lemma modify_run [run]: "modify f s = (Ok (), f s)"
  by (simp add: modify_def)

lemma andthen_run_Ok [run]: "m s = (Ok a, s') \<Longrightarrow> andthen m k s = k a s'"
  by (simp add: andthen_def)

lemma andthen_run_Err [run]: "m s = (Err e, s') \<Longrightarrow> andthen m k s = (Err e, s')"
  by (simp add: andthen_def)

lemma andthen_run_Panic [run]: "m s = (Panic, s') \<Longrightarrow> andthen m k s = (Panic, s')"
  by (simp add: andthen_def)

lemma andthen_Ok_iff:
  "andthen m k s = (Ok b, t) \<longleftrightarrow> (\<exists>a s'. m s = (Ok a, s') \<and> k a s' = (Ok b, t))"
  by (auto simp: andthen_def split: prod.splits res.splits)

lemma map_err_Ok_iff: "map_err f m s = (Ok a, t) \<longleftrightarrow> m s = (Ok a, t)"
  by (auto simp: map_err_def split: prod.splits res.splits)

text \<open>\<open>m.is_err()\<close>.\<close>

definition is_err :: "('s, 'a, 'e) comp \<Rightarrow> ('s, bool, 'f) comp" where
  "is_err m = andthen (attempt m) (\<lambda>r. return (case r of Inl _ \<Rightarrow> True | Inr _ \<Rightarrow> False))"

section \<open>Laws of the combinators\<close>

named_theorems monad \<open>equations between computations\<close>

lemma andthen_assoc [monad]: "andthen (andthen m k) l = andthen m (\<lambda>a. andthen (k a) l)"
  by (rule ext) (simp add: andthen_def split: prod.splits res.splits)

lemma andthen_return [monad]: "andthen (return a) k = k a"
  by (rule ext) (simp add: combinator_defs)

lemma andthen_throw [monad]: "andthen (throw e) k = throw e"
  by (rule ext) (simp add: combinator_defs)

lemma andthen_panic [monad]: "andthen panic k = panic"
  by (rule ext) (simp add: combinator_defs)

lemma return_right [monad]: "andthen m return = m"
  by (rule ext) (simp add: combinator_defs split: prod.splits res.splits)

lemma return_right_unit [monad]: "andthen m (\<lambda>_. return ()) = m"
  by (rule ext) (simp add: combinator_defs split: prod.splits res.splits)

lemma map_err_andthen [monad]:
  "map_err f (andthen m k) = andthen (map_err f m) (\<lambda>a. map_err f (k a))"
  by (rule ext) (simp add: combinator_defs split: prod.splits res.splits)

lemma map_err_map_err [monad]: "map_err f (map_err g m) = map_err (\<lambda>e. f (g e)) m"
  by (rule ext) (simp add: combinator_defs split: prod.splits res.splits)

lemma map_err_id [monad]: "map_err (\<lambda>e. e) m = m"
  by (rule ext) (simp add: combinator_defs split: prod.splits res.splits)

lemma map_err_atoms [monad]:
  "map_err f (return a) = return a" "map_err f (throw e) = throw (f e)" "map_err f panic = panic"
  "map_err f (reject_if b e) = reject_if b (f e)" "map_err f (panic_if b) = panic_if b"
  by (auto simp: combinator_defs fun_eq_iff)

lemma is_err_reject [monad]:
  "andthen (is_err m) (\<lambda>bad. andthen (reject_if bad e) k) = andthen (map_err (\<lambda>_. e) m) (\<lambda>_. k ())"
  by (rule ext) (simp add: is_err_def combinator_defs split: prod.splits res.splits)

lemma andthen_cong:
  "(\<And>s a s'. m s = (Ok a, s') \<Longrightarrow> k a s' = k' a s') \<Longrightarrow> andthen m k = andthen m k'"
  by (rule ext) (simp add: andthen_def split: prod.splits res.splits)

text \<open>What a computation never changes.\<close>

definition keeps :: "('s \<Rightarrow> 'x) \<Rightarrow> ('s, 'a, 'e) comp \<Rightarrow> bool" where
  "keeps f m \<longleftrightarrow> (\<forall>s. f (snd (m s)) = f s)"

named_theorems keep \<open>closure of \<open>keeps\<close>\<close>

lemma keepsD: "keeps f m \<Longrightarrow> m s = (r, s') \<Longrightarrow> f s' = f s"
  by (metis keeps_def snd_conv)

lemma keeps_atoms [keep]:
  "keeps f (return a)" "keeps f (throw e)" "keeps f panic" "keeps f (gets g)"
  "keeps f (reject_if b e)" "keeps f (panic_if b)" "keeps f (ok_or e x)"
  by (auto simp: keeps_def combinator_defs split: option.splits)

lemma keeps_andthen [keep]: "keeps f m \<Longrightarrow> (\<And>a. keeps f (k a)) \<Longrightarrow> keeps f (andthen m k)"
  by (auto simp: keeps_def andthen_def split: prod.splits res.splits) (metis snd_conv)+

lemma keeps_map_err [keep]: "keeps f m \<Longrightarrow> keeps f (map_err g m)"
  by (auto simp: keeps_def map_err_def split: prod.splits res.splits) (metis snd_conv)+

lemma keeps_attempt [keep]: "keeps f m \<Longrightarrow> keeps f (attempt m)"
  by (auto simp: keeps_def attempt_def split: prod.splits res.splits) (metis snd_conv)+

lemma keeps_is_err [keep]: "keeps f m \<Longrightarrow> keeps f (is_err m)"
  by (simp add: is_err_def keep)

lemma keeps_on_field [keep]: "(\<And>x s. f (wr x s) = f s) \<Longrightarrow> keeps f (on_field rd wr m)"
  by (auto simp: keeps_def on_field_def split: prod.splits)

lemma keeps_modify [keep]: "(\<And>s. f (g s) = f s) \<Longrightarrow> keeps f (modify g)"
  by (auto simp: keeps_def modify_def)

lemma keeps_for_each [keep]: "(\<And>x. x \<in> set xs \<Longrightarrow> keeps f (g x)) \<Longrightarrow> keeps f (for_each xs g)"
  by (induction xs) (auto intro: keep)

section \<open>Total-correctness triples\<close>

text \<open>
  \<open>triple P m Q E\<close>: from every state with \<open>P\<close>, \<open>m\<close> does not panic, ends in \<open>Q a\<close> when it
  returns \<open>a\<close> and in \<open>E e\<close> when it fails with \<open>e\<close>.
\<close>

definition triple ::
  "('s \<Rightarrow> bool) \<Rightarrow> ('s, 'a, 'e) comp \<Rightarrow> ('a \<Rightarrow> 's \<Rightarrow> bool) \<Rightarrow> ('e \<Rightarrow> 's \<Rightarrow> bool) \<Rightarrow> bool" where
  "triple P m Q E \<longleftrightarrow>
     (\<forall>s. P s \<longrightarrow> (case m s of (Ok a, s') \<Rightarrow> Q a s' | (Err e, s') \<Rightarrow> E e s' | (Panic, s') \<Rightarrow> False))"

named_theorems wp \<open>one triple rule per combinator\<close>

lemma tripleI:
  "(\<And>s. P s \<Longrightarrow> case m s of (Ok a, s') \<Rightarrow> Q a s' | (Err e, s') \<Rightarrow> E e s' | (Panic, s') \<Rightarrow> False)
   \<Longrightarrow> triple P m Q E"
  by (simp add: triple_def)

lemma tripleD:
  "triple P m Q E \<Longrightarrow> P s \<Longrightarrow>
   case m s of (Ok a, s') \<Rightarrow> Q a s' | (Err e, s') \<Rightarrow> E e s' | (Panic, s') \<Rightarrow> False"
  by (simp add: triple_def)

lemma triple_OkD: "triple P m Q E \<Longrightarrow> P s \<Longrightarrow> m s = (Ok a, t) \<Longrightarrow> Q a t"
  by (auto simp: triple_def)

lemma triple_ErrD: "triple P m Q E \<Longrightarrow> P s \<Longrightarrow> m s = (Err e, t) \<Longrightarrow> E e t"
  by (auto simp: triple_def)

lemma triple_no_panic: "triple P m Q E \<Longrightarrow> P s \<Longrightarrow> fst (m s) \<noteq> Panic"
  by (cases "m s") (auto simp: triple_def)

lemma triple_return [wp]: "(\<And>s. P s \<Longrightarrow> Q x s) \<Longrightarrow> triple P (return x) Q E"
  by (simp add: triple_def return_def)

lemma triple_throw [wp]: "(\<And>s. P s \<Longrightarrow> E e s) \<Longrightarrow> triple P (throw e) Q E"
  by (simp add: triple_def throw_def)

lemma triple_gets [wp]: "(\<And>s. P s \<Longrightarrow> Q (f s) s) \<Longrightarrow> triple P (gets f) Q E"
  by (simp add: triple_def gets_def)

lemma triple_modify [wp]: "(\<And>s. P s \<Longrightarrow> Q () (f s)) \<Longrightarrow> triple P (modify f) Q E"
  by (simp add: triple_def modify_def)

lemma triple_andthen:
  "triple P m R E \<Longrightarrow> (\<And>a. triple (R a) (k a) Q E) \<Longrightarrow> triple P (andthen m k) Q E"
  by (fastforce simp: triple_def andthen_def split: prod.splits res.splits)

lemma triple_map_err [wp]:
  "triple P m Q (\<lambda>e. E (f e)) \<Longrightarrow> triple P (map_err f m) Q E"
  by (fastforce simp: triple_def map_err_def split: prod.splits res.splits)

lemma triple_attempt:
  "triple P m (\<lambda>a. Q (Inr a)) (\<lambda>e. Q (Inl e)) \<Longrightarrow> triple P (attempt m) Q E"
  by (fastforce simp: triple_def attempt_def split: prod.splits res.splits)

lemma triple_ok_or [wp]:
  "(\<And>s. P s \<Longrightarrow> x = None \<Longrightarrow> E e s) \<Longrightarrow> (\<And>s a. P s \<Longrightarrow> x = Some a \<Longrightarrow> Q a s) \<Longrightarrow>
   triple P (ok_or e x) Q E"
  by (auto simp: triple_def ok_or_def return_def throw_def split: option.splits)

lemma triple_reject_if [wp]:
  "(\<And>s. P s \<Longrightarrow> b \<Longrightarrow> E e s) \<Longrightarrow> (\<And>s. P s \<Longrightarrow> \<not> b \<Longrightarrow> Q () s) \<Longrightarrow>
   triple P (reject_if b e) Q E"
  by (auto simp: triple_def reject_if_def return_def throw_def)

lemma triple_panic_if [wp]:
  "(\<And>s. P s \<Longrightarrow> \<not> b) \<Longrightarrow> (\<And>s. P s \<Longrightarrow> Q () s) \<Longrightarrow> triple P (panic_if b) Q E"
  by (auto simp: triple_def panic_if_def return_def)

lemma triple_if:
  "(b \<Longrightarrow> triple P m Q E) \<Longrightarrow> (\<not> b \<Longrightarrow> triple P n Q E) \<Longrightarrow>
   triple P (if b then m else n) Q E"
  by simp

lemma triple_pre: "triple P' m Q E \<Longrightarrow> (\<And>s. P s \<Longrightarrow> P' s) \<Longrightarrow> triple P m Q E"
  by (auto simp: triple_def)

lemma triple_conseq:
  assumes "triple P' m Q' E'" and "\<And>s. P s \<Longrightarrow> P' s"
    and "\<And>a s. Q' a s \<Longrightarrow> Q a s" and "\<And>e s. E' e s \<Longrightarrow> E e s"
  shows "triple P m Q E"
  using assms by (fastforce simp: triple_def split: prod.splits res.splits)

text \<open>What the precondition says of values alone may be assumed while the rest is proved.\<close>

lemma triple_pure: "(C \<Longrightarrow> triple P m Q E) \<Longrightarrow> triple (\<lambda>s. C \<and> P s) m Q E"
  by (auto simp: triple_def)

lemma triple_on_field:
  assumes "\<And>s. P s \<Longrightarrow> case m (rd s) of (Ok a, x) \<Rightarrow> Q a (wr x s) | (Err e, x) \<Rightarrow> E e (wr x s) | (Panic, x) \<Rightarrow> False"
  shows "triple P (on_field rd wr m) Q E"
proof (rule tripleI)
  fix s assume "P s"
  with assms [of s] show "case on_field rd wr m s of (Ok a, s') \<Rightarrow> Q a s' | (Err e, s') \<Rightarrow> E e s' | (Panic, s') \<Rightarrow> False"
    by (cases "m (rd s)") (simp add: on_field_def split: res.splits)
qed

lemma triple_is_err:
  "triple P m (\<lambda>_. Q False) (\<lambda>_. Q True) \<Longrightarrow> triple P (is_err m) Q E"
  unfolding is_err_def
  by (rule triple_andthen [where R = "\<lambda>r. Q (case r of Inl _ \<Rightarrow> True | Inr _ \<Rightarrow> False)"])
     (auto intro: triple_attempt triple_return)

text \<open>Two triples of one computation, for a conjunction of postconditions.\<close>

lemma triple_conj:
  "triple P m Q E \<Longrightarrow> triple P' m Q' E' \<Longrightarrow>
   triple (\<lambda>s. P s \<and> P' s) m (\<lambda>a s. Q a s \<and> Q' a s) (\<lambda>e s. E e s \<and> E' e s)"
  by (auto simp: triple_def split: prod.splits res.splits)

lemma triple_keeps:
  "triple P m Q E \<Longrightarrow> keeps f m \<Longrightarrow>
   triple (\<lambda>s. P s \<and> f s = x) m (\<lambda>a s. Q a s \<and> f s = x) (\<lambda>e s. E e s \<and> f s = x)"
  by (auto simp: triple_def dest: keepsD split: prod.splits res.splits)

lemma triple_for_each:
  assumes "\<And>x. x \<in> set xs \<Longrightarrow> triple I (f x) (\<lambda>_. I) E"
  shows "triple I (for_each xs f) (\<lambda>_. I) E"
  using assms
proof (induction xs)
  case Nil
  then show ?case by (simp add: triple_return)
next
  case (Cons x xs)
  then show ?case by (auto intro!: triple_andthen [where R = "\<lambda>_. I"])
qed

section \<open>The errors of a computation\<close>

text \<open>\<open>errs P m\<close>: every error \<open>m\<close> returns satisfies \<open>P\<close>.  Nothing is said of success or of panics.\<close>

definition errs :: "('e \<Rightarrow> bool) \<Rightarrow> ('s, 'a, 'e) comp \<Rightarrow> bool" where
  "errs P m \<longleftrightarrow> (\<forall>s e s'. m s = (Err e, s') \<longrightarrow> P e)"

named_theorems errs_intro \<open>one rule per combinator\<close>

lemma errsD: "errs P m \<Longrightarrow> m s = (Err e, s') \<Longrightarrow> P e"
  unfolding errs_def by blast

lemma errs_mono: "errs P m \<Longrightarrow> (\<And>e. P e \<Longrightarrow> Q e) \<Longrightarrow> errs Q m"
  by (auto simp: errs_def)

lemma errs_andthen [errs_intro]: "errs P m \<Longrightarrow> (\<And>a. errs P (k a)) \<Longrightarrow> errs P (andthen m k)"
  by (auto simp: errs_def andthen_def split: prod.splits res.splits)

lemma errs_atoms [errs_intro]:
  "errs P (return a)" "errs P (panic_if b)" "errs P (modify f)" "errs P (gets g)" "errs P (attempt m)" "errs P (is_err m)"
  by (auto simp: errs_def combinator_defs is_err_def split: prod.splits res.splits if_splits)

lemma errs_throw [errs_intro]: "P e \<Longrightarrow> errs P (throw e)" "(b \<Longrightarrow> P e) \<Longrightarrow> errs P (reject_if b e)"
  by (auto simp: errs_def combinator_defs split: if_splits)

lemma errs_map_err: "errs (\<lambda>e. P (f e)) m \<Longrightarrow> errs P (map_err f m)"
  by (auto simp: errs_def map_err_def split: prod.splits res.splits)

lemma errs_on_field [errs_intro]: "errs P m \<Longrightarrow> errs P (on_field rd wr m)"
  by (auto simp: errs_def on_field_def split: prod.splits)

section \<open>Little-endian bytes\<close>

text \<open>\<open>to_le_bytes\<close> and \<open>from_le_bytes\<close>: byte \<open>i\<close> holds bits \<open>8 i\<close> to \<open>8 i + 7\<close>.\<close>

definition to_le :: "nat \<Rightarrow> 'l::len word \<Rightarrow> u8 list" where
  "to_le n x = map (\<lambda>i. ucast (drop_bit (8 * i) x)) [0..<n]"

fun from_le :: "u8 list \<Rightarrow> 'l::len word" where
  "from_le [] = 0"
| "from_le (b # bs) = ucast b OR push_bit 8 (from_le bs)"

lemma length_to_le [simp]: "length (to_le n x) = n"
  by (simp add: to_le_def)

lemma bit_from_le:
  "bit (from_le bs :: 'l::len word) i \<longleftrightarrow>
   i < LENGTH('l) \<and> i div 8 < length bs \<and> bit (bs ! (i div 8)) (i mod 8)"
proof (induction bs arbitrary: i)
  case Nil
  then show ?case by simp
next
  case (Cons b bs)
  show ?case
  proof (cases "i < 8")
    case True
    then show ?thesis
      by (auto simp: bit_or_iff bit_push_bit_iff bit_ucast_iff)
  next
    case False
    then obtain j where j: "i = 8 + j" using le_Suc_ex [of 8 i] by auto
    have "\<not> bit b i" using False bit_imp_le_length [of b i] by auto
    moreover have "(8 + j) div 8 = Suc (j div 8)" by simp
    ultimately show ?thesis
      by (auto simp: bit_or_iff bit_push_bit_iff bit_ucast_iff Cons.IH j)
  qed
qed

lemma from_le_to_le:
  assumes "8 * n = LENGTH('l::len)"
  shows "from_le (to_le n (x :: 'l word)) = x"
proof (rule bit_word_eqI)
  fix i assume "i < LENGTH('l)"
  then have "i div 8 < n" using assms by linarith
  moreover have "8 * (i div 8) + i mod 8 = i" by simp
  ultimately show "bit (from_le (to_le n x) :: 'l word) i = bit x i"
    using \<open>i < LENGTH('l)\<close>
    by (simp add: bit_from_le to_le_def bit_ucast_iff bit_drop_bit_eq)
qed

lemma to_le_from_le:
  assumes "length bs = n" and "8 * n \<le> LENGTH('l::len)"
  shows "to_le n (from_le bs :: 'l word) = bs"
proof (rule nth_equalityI)
  show "length (to_le n (from_le bs :: 'l word)) = length bs" using assms by simp
next
  fix i assume "i < length (to_le n (from_le bs :: 'l word))"
  then have i: "i < n" by simp
  show "to_le n (from_le bs :: 'l word) ! i = bs ! i"
  proof (rule bit_word_eqI)
    fix j assume "j < LENGTH(8)"
    then have j: "j < 8" by simp
    have "(8 * i + j) div 8 = i" and "(8 * i + j) mod 8 = j" using j by simp_all
    moreover have "8 * i + j < LENGTH('l)" using i j assms(2) by simp
    ultimately show "bit (to_le n (from_le bs :: 'l word) ! i) j = bit (bs ! i) j"
      using i j assms(1)
      by (simp add: to_le_def bit_ucast_iff bit_drop_bit_eq bit_from_le)
  qed
qed

section \<open>Slices and chunks\<close>

text \<open>\<open>dst[at..at + src.len()].copy_from_slice(src)\<close>, for a range inside \<open>dst\<close>.\<close>

definition splice :: "'a list \<Rightarrow> nat \<Rightarrow> 'a list \<Rightarrow> 'a list" where
  "splice dst at src = take at dst @ src @ drop (at + length src) dst"

lemma length_splice [simp]: "at + length src \<le> length dst \<Longrightarrow> length (splice dst at src) = length dst"
  by (simp add: splice_def)

lemma take_splice:
  "at + length src \<le> length dst \<Longrightarrow> take (at + length src) (splice dst at src) = take at dst @ src"
  by (simp add: splice_def)

text \<open>\<open>xs.chunks_exact(n)\<close>: the full chunks; a shorter rest is left out.\<close>

function chunks_exact :: "nat \<Rightarrow> 'a list \<Rightarrow> 'a list list" where
  "chunks_exact n xs =
     (if n = 0 \<or> length xs < n then [] else take n xs # chunks_exact n (drop n xs))"
  by pat_completeness auto
termination
  by (relation "measure (\<lambda>(n, xs). length xs)") auto

declare chunks_exact.simps [simp del]

lemma concat_chunks_exact:
  "0 < n \<Longrightarrow> length xs mod n = 0 \<Longrightarrow> concat (chunks_exact n xs) = xs"
proof (induction n xs rule: chunks_exact.induct)
  case (1 n xs)
  show ?case
  proof (cases "length xs < n")
    case True
    with "1.prems" have "xs = []" by auto
    with True show ?thesis by (simp add: chunks_exact.simps [of n "[]"])
  next
    case False
    then have "length (drop n xs) mod n = 0"
      using "1.prems" by (simp add: le_mod_geq)
    with "1.IH" "1.prems" False have "concat (chunks_exact n (drop n xs)) = drop n xs" by simp
    with False "1.prems" show ?thesis by (simp add: chunks_exact.simps [of n xs])
  qed
qed

lemma chunks_exact_length: "c \<in> set (chunks_exact n xs) \<Longrightarrow> length c = n"
proof (induction n xs rule: chunks_exact.induct)
  case (1 n xs)
  then show ?case
    by (cases "n = 0 \<or> length xs < n") (auto simp: chunks_exact.simps [of n xs])
qed

lemma length_chunks_exact: "length (chunks_exact n xs) = (if n = 0 then 0 else length xs div n)"
proof (induction n xs rule: chunks_exact.induct)
  case (1 n xs)
  show ?case
  proof (cases "n = 0 \<or> length xs < n")
    case True
    then show ?thesis by (auto simp: chunks_exact.simps [of n xs])
  next
    case False
    with "1.IH" show ?thesis by (simp add: chunks_exact.simps [of n xs] le_div_geq)
  qed
qed

lemma chunks_exact_append: "length xs = n \<Longrightarrow> 0 < n \<Longrightarrow> chunks_exact n (xs @ ys) = xs # chunks_exact n ys"
  by (subst chunks_exact.simps) simp

lemma chunks_exact_concat:
  "0 < n \<Longrightarrow> (\<And>x. x \<in> set xss \<Longrightarrow> length x = n) \<Longrightarrow> chunks_exact n (concat xss @ ys) = xss @ chunks_exact n ys"
  by (induction xss) (simp_all add: chunks_exact_append)

lemma nat_and_3 [simp]: "(n :: nat) AND 3 = n mod 4"
proof -
  have "n AND mask 2 = take_bit 2 n" by (simp add: take_bit_eq_mask)
  moreover have "mask 2 = (3 :: nat)" by (simp add: mask_eq_exp_minus_1)
  ultimately show ?thesis by (simp add: take_bit_eq_mod)
qed

section \<open>Aligned addresses\<close>

lemma word_and_3: "x AND 3 = (x :: u32) mod 4"
proof -
  have "x AND mask 2 = take_bit 2 x" by (simp add: take_bit_eq_mask)
  moreover have "mask 2 = (3 :: u32)" by (simp add: mask_eq_exp_minus_1)
  ultimately show ?thesis by (simp add: take_bit_eq_mod)
qed

lemma word_and_split: "(x AND NOT m) + (x AND m) = (x :: 'l::len word)"
proof -
  have "(x AND NOT m) AND (x AND m) = 0"
    by (rule bit_word_eqI) (auto simp: bit_and_iff bit_not_iff)
  then have "(x AND NOT m) + (x AND m) = (x AND NOT m) OR (x AND m)"
    by (rule disjunctive_add_eq_or)
  also have "\<dots> = x"
    by (rule bit_word_eqI) (auto simp: bit_and_iff bit_or_iff bit_not_iff)
  finally show ?thesis .
qed

lemma word_minus_aligned: "x - (x AND NOT m) = (x AND m :: 'l::len word)"
  using word_and_split [of x m] by (simp add: algebra_simps)

lemma aligned_down_and: "(x AND NOT m) AND m = (0 :: 'l::len word)"
  by (rule bit_word_eqI) (auto simp: bit_and_iff bit_not_iff)

lemma unat_and_3: "unat (x AND 3 :: u32) < 4"
  by (simp add: word_and_3 unat_mod)

lemma word_and_3_eq_0: "(x :: u32) AND 3 = 0 \<longleftrightarrow> unat x mod 4 = 0"
  by (simp add: word_and_3 unat_eq_zero [symmetric] unat_mod del: unat_eq_zero)

lemma aligned_add:
  assumes "(x :: u32) AND 3 = 0" and "d mod 4 = 0"
  shows "(x + of_nat d) AND 3 = 0"
proof -
  have "unat (x + of_nat d) = (unat x + d) mod 2 ^ 32"
    by (simp add: unat_word_ariths unat_of_nat mod_add_right_eq)
  moreover have "(unat x + d) mod 2 ^ 32 mod 4 = (unat x + d) mod 4"
    by (rule mod_mod_cancel) simp
  moreover have "(unat x + d) mod 4 = 0"
    using assms by (simp add: word_and_3_eq_0 mod_add_eq [symmetric])
  ultimately show ?thesis by (simp add: word_and_3_eq_0)
qed

lemma word_and_FFF_eq_0: "(x :: u32) AND 0xFFF = 0 \<longleftrightarrow> unat x mod 0x1000 = 0"
proof -
  have "x AND mask 12 = take_bit 12 x" by (simp add: take_bit_eq_mask)
  moreover have "mask 12 = (0xFFF :: u32)" by (simp add: mask_eq_exp_minus_1)
  ultimately have "x AND 0xFFF = x mod 0x1000" by (simp add: take_bit_eq_mod)
  then show ?thesis by (simp add: unat_eq_zero [symmetric] unat_mod del: unat_eq_zero)
qed

lemma sector_of_aligned:
  assumes "(base :: u32) AND 0xFFF = 0"
  shows "base div 0x1000 * 0x1000 = base"
proof -
  have "unat base mod 0x1000 = 0" using assms by (simp add: word_and_FFF_eq_0)
  then have "unat base div 0x1000 * 0x1000 = unat base"
    using div_mult_mod_eq [of "unat base" "0x1000"] by (simp only: add_0_right)
  moreover have "unat base < 2 ^ 32" using unsigned_less [of base] by simp
  ultimately have "unat (base div 0x1000 * 0x1000) = unat base"
    by (simp add: unat_word_ariths unat_div)
  then show ?thesis by (metis word_unat_eq_iff)
qed

lemma sector_aligned_add:
  assumes "(x :: u32) AND 0xFFF = 0" and "d mod 0x1000 = 0"
  shows "(x + of_nat d) AND 0xFFF = 0"
proof -
  have "unat (x + of_nat d) = (unat x + d) mod 2 ^ 32"
    by (simp add: unat_word_ariths unat_of_nat mod_add_right_eq)
  moreover have "(unat x + d) mod 2 ^ 32 mod 0x1000 = (unat x + d) mod 0x1000"
    by (rule mod_mod_cancel) simp
  moreover have "(unat x + d) mod 0x1000 = 0"
    using assms by (simp add: word_and_FFF_eq_0 mod_add_eq [symmetric])
  ultimately show ?thesis by (simp add: word_and_FFF_eq_0)
qed

end
