(* ===== verification/Flash_View.thy ===== *)
theory Flash_View
  imports Prelude
begin

text \<open>
  The contents of a NOR flash as the specifications see it: a byte per 32-bit address.
  Erasing sets bytes to \<open>0xFF\<close>, programming clears bits (a byte-wise \<open>AND\<close>), reading takes
  a slice.  Regions are given by base and length modulo \<open>2^32\<close>, so no side condition about
  the end of the address space is needed.  Nothing here models code: these are the terms
  the contracts of the ROM routines and of the \<open>NorFlash\<close> trait are written in.
\<close>

type_synonym mem = "u32 \<Rightarrow> u8"

definition region :: "u32 \<Rightarrow> nat \<Rightarrow> u32 set" where
  "region base n = {a. unat (a - base) < n}"

definition slice_at :: "mem \<Rightarrow> u32 \<Rightarrow> nat \<Rightarrow> u8 list" where
  "slice_at V base n = map (\<lambda>i. V (base + of_nat i)) [0..<n]"

definition erased :: "mem \<Rightarrow> u32 \<Rightarrow> nat \<Rightarrow> mem" where
  "erased V base n = (\<lambda>a. if unat (a - base) < n then 0xFF else V a)"

definition programmed :: "mem \<Rightarrow> u32 \<Rightarrow> u8 list \<Rightarrow> mem" where
  "programmed V base bs =
     (\<lambda>a. if unat (a - base) < length bs then V a AND bs ! unat (a - base) else V a)"

definition stored :: "mem \<Rightarrow> u32 \<Rightarrow> u8 list \<Rightarrow> mem" where
  "stored V base bs = (\<lambda>a. if unat (a - base) < length bs then bs ! unat (a - base) else V a)"

definition same_outside :: "u32 set \<Rightarrow> mem \<Rightarrow> mem \<Rightarrow> bool" where
  "same_outside A V V' \<longleftrightarrow> (\<forall>a. a \<notin> A \<longrightarrow> V' a = V a)"

section \<open>Regions and frames\<close>

lemma unat_of_nat_le: "unat (of_nat i :: u32) \<le> i"
  by (simp add: unat_of_nat)

lemma unat_add_le: "unat (x + y :: u32) \<le> unat x + unat y"
  by (simp add: unat_word_ariths)

lemma region_iff [simp]: "a \<in> region base n \<longleftrightarrow> unat (a - base) < n"
  by (simp add: region_def)

lemma region_subset:
  assumes "unat (off :: u32) + m \<le> n"
  shows "region (base + off) m \<subseteq> region base n"
proof
  fix a assume "a \<in> region (base + off) m"
  moreover have "a - base = (a - (base + off)) + off" by simp
  then have "unat (a - base) \<le> unat (a - (base + off)) + unat off"
    by (metis unat_add_le)
  ultimately show "a \<in> region base n" using assms by simp
qed

lemma region_mono: "m \<le> n \<Longrightarrow> region base m \<subseteq> region base n"
  by auto

lemma same_outside_refl [simp]: "same_outside A V V"
  by (simp add: same_outside_def)

lemma same_outside_trans:
  "same_outside A U V \<Longrightarrow> same_outside A V W \<Longrightarrow> same_outside A U W"
  by (simp add: same_outside_def)

lemma same_outside_mono: "same_outside A V W \<Longrightarrow> A \<subseteq> B \<Longrightarrow> same_outside B V W"
  by (auto simp: same_outside_def)

text \<open>A further change inside a part of the region that may have changed already.\<close>

lemma same_outside_step:
  "same_outside B U V \<Longrightarrow> same_outside A V W \<Longrightarrow> A \<subseteq> B \<Longrightarrow> same_outside B U W"
  by (auto simp: same_outside_def)

lemma same_outsideD: "same_outside A V W \<Longrightarrow> a \<notin> A \<Longrightarrow> W a = V a"
  by (simp add: same_outside_def)

lemma same_outside_erased: "region base n \<subseteq> A \<Longrightarrow> same_outside A V (erased V base n)"
  by (auto simp: same_outside_def erased_def)

lemma same_outside_programmed:
  "region base (length bs) \<subseteq> A \<Longrightarrow> same_outside A V (programmed V base bs)"
  by (auto simp: same_outside_def programmed_def)

lemma same_outside_slice:
  assumes "same_outside A V W" and "A \<inter> region base n = {}"
  shows "slice_at W base n = slice_at V base n"
proof -
  have "W (base + of_nat i) = V (base + of_nat i)" if "i < n" for i
  proof -
    have "base + of_nat i \<in> region base n"
      using that unat_of_nat_le [of i] by simp
    then show ?thesis using assms by (auto simp: same_outside_def)
  qed
  then show ?thesis by (simp add: slice_at_def)
qed

section \<open>Slices\<close>

lemma length_slice_at [simp]: "length (slice_at V base n) = n"
  by (simp add: slice_at_def)

lemma nth_slice_at [simp]: "i < n \<Longrightarrow> slice_at V base n ! i = V (base + of_nat i)"
  by (simp add: slice_at_def)

lemma slice_at_0 [simp]: "slice_at V base 0 = []"
  by (simp add: slice_at_def)

lemma slice_at_add: "slice_at V base (m + n) = slice_at V base m @ slice_at V (base + of_nat m) n"
proof (rule nth_equalityI)
  fix i assume "i < length (slice_at V base (m + n))"
  then show "slice_at V base (m + n) ! i = (slice_at V base m @ slice_at V (base + of_nat m) n) ! i"
    by (cases "i < m") (simp_all add: nth_append)
qed simp

lemma take_slice_at: "m \<le> n \<Longrightarrow> take m (slice_at V base n) = slice_at V base m"
  by (rule nth_equalityI) simp_all

lemma drop_slice_at: "m \<le> n \<Longrightarrow> drop m (slice_at V base n) = slice_at V (base + of_nat m) (n - m)"
  using slice_at_add [of V base m "n - m"] by simp

lemma slice_at_erased: "m \<le> n \<Longrightarrow> slice_at (erased V base n) base m = replicate m 0xFF"
proof (rule nth_equalityI)
  fix i assume "m \<le> n" and "i < length (slice_at (erased V base n) base m)"
  then show "slice_at (erased V base n) base m ! i = replicate m 0xFF ! i"
    using unat_of_nat_le [of i] by (simp add: erased_def)
qed simp

lemma slice_at_programmed:
  assumes "length bs \<le> 2 ^ 32"
  shows "slice_at (programmed V base bs) base (length bs) =
         map2 (AND) (slice_at V base (length bs)) bs"
proof (rule nth_equalityI)
  fix i assume "i < length (slice_at (programmed V base bs) base (length bs))"
  then have i: "i < length bs" by simp
  then have "unat (of_nat i :: u32) = i" using assms by (simp add: unat_of_nat)
  with i show "slice_at (programmed V base bs) base (length bs) ! i =
      map2 (AND) (slice_at V base (length bs)) bs ! i"
    by (simp add: programmed_def)
qed simp

lemma slice_at_stored:
  assumes "length bs \<le> 2 ^ 32"
  shows "slice_at (stored V base bs) base (length bs) = bs"
proof (rule nth_equalityI)
  fix i assume "i < length (slice_at (stored V base bs) base (length bs))"
  then have i: "i < length bs" by simp
  then have "unat (of_nat i :: u32) = i" using assms by (simp add: unat_of_nat)
  with i show "slice_at (stored V base bs) base (length bs) ! i = bs ! i"
    by (simp add: stored_def)
qed simp

lemma and_ones [simp]: "0xFF AND (b :: u8) = b" "(b :: u8) AND 0xFF = b"
proof -
  have "(0xFF :: u8) = - 1" by simp
  then show "0xFF AND b = b" and "b AND 0xFF = b" by (metis and.left_neutral and.right_neutral)+
qed

text \<open>Programming an erased range stores exactly the data.\<close>

lemma programmed_erased:
  assumes "length bs \<le> n"
  shows "programmed (erased V base n) base bs =
    (\<lambda>a. if unat (a - base) < length bs then bs ! unat (a - base)
         else if unat (a - base) < n then 0xFF else V a)"
  using assms by (auto simp: programmed_def erased_def)

lemma slice_at_programmed_erased:
  assumes "length bs \<le> n" and "length bs \<le> 2 ^ 32"
  shows "slice_at (programmed (erased V base n) base bs) base (length bs) = bs"
proof (rule nth_equalityI)
  fix i assume "i < length (slice_at (programmed (erased V base n) base bs) base (length bs))"
  then have i: "i < length bs" by simp
  then have "unat (of_nat i :: u32) = i" using assms(2) by (simp add: unat_of_nat)
  with i show "slice_at (programmed (erased V base n) base bs) base (length bs) ! i = bs ! i"
    by (simp add: programmed_erased [OF assms(1)])
qed simp

lemma programmed_Nil [simp]: "programmed V base [] = V"
  by (simp add: programmed_def)

lemma stored_Nil [simp]: "stored V base [] = V"
  by (simp add: stored_def)

lemma erased_0 [simp]: "erased V base 0 = V"
  by (simp add: erased_def)

text \<open>The position of an address in the second of two adjacent ranges.\<close>

lemma unat_diff_split:
  fixes a base :: u32
  assumes "m < 2 ^ 32"
  shows "unat (a - (base + of_nat m)) =
         (if m \<le> unat (a - base) then unat (a - base) - m else unat (a - base) + 2 ^ 32 - m)"
proof -
  have m: "unat (of_nat m :: u32) = m" using assms by (simp add: unat_of_nat)
  have "unat (c - of_nat m) = (if m \<le> unat c then unat c - m else unat c + 2 ^ 32 - m)" for c :: u32
    by (simp add: unat_sub_if' m)
  moreover have "a - (base + of_nat m) = (a - base) - of_nat m" by simp
  ultimately show ?thesis by metis
qed

lemma programmed_append:
  assumes "length xs + length ys \<le> 2 ^ 32"
  shows "programmed (programmed V base xs) (base + of_nat (length xs)) ys = programmed V base (xs @ ys)"
proof
  fix a
  show "programmed (programmed V base xs) (base + of_nat (length xs)) ys a = programmed V base (xs @ ys) a"
  proof (cases "ys = []")
    case False
    then have "0 < length ys" by simp
    with assms have "length xs < 2 ^ 32" by linarith
    moreover have "unat (a - base) < 2 ^ 32" using unsigned_less [of "a - base"] by simp
    ultimately show ?thesis
      using assms by (auto simp: programmed_def unat_diff_split nth_append)
  qed simp
qed

lemma stored_append:
  assumes "length xs + length ys \<le> 2 ^ 32"
  shows "stored (stored V base xs) (base + of_nat (length xs)) ys = stored V base (xs @ ys)"
proof
  fix a
  show "stored (stored V base xs) (base + of_nat (length xs)) ys a = stored V base (xs @ ys) a"
  proof (cases "ys = []")
    case False
    then have "0 < length ys" by simp
    with assms have "length xs < 2 ^ 32" by linarith
    moreover have "unat (a - base) < 2 ^ 32" using unsigned_less [of "a - base"] by simp
    ultimately show ?thesis
      using assms by (auto simp: stored_def unat_diff_split nth_append)
  qed simp
qed

lemma region_split:
  assumes "m + n \<le> 2 ^ 32"
  shows "region base m \<union> region (base + of_nat m) n = region base (m + n)"
proof (cases "n = 0")
  case False
  with assms have m: "m < 2 ^ 32" by linarith
  have "unat (a - base) < 2 ^ 32" for a using unsigned_less [of "a - base"] by simp
  with m assms show ?thesis by (auto simp: unat_diff_split split: if_splits)
qed auto

section \<open>Programming as storing\<close>

lemma programmed_erased_stored:
  assumes "length bs \<le> n"
  shows "programmed (erased V base n) base bs = stored V base (bs @ replicate (n - length bs) 0xFF)"
  using assms by (auto simp: programmed_def erased_def stored_def nth_append fun_eq_iff)

lemma programmed_blank:
  assumes "slice_at V base (length bs) = replicate (length bs) 0xFF"
  shows "programmed V base bs = stored V base bs"
proof
  fix a
  have "V a = 0xFF" if "unat (a - base) < length bs"
  proof -
    have "slice_at V base (length bs) ! unat (a - base) = 0xFF" unfolding assms using that by simp
    then show ?thesis using that by simp
  qed
  then show "programmed V base bs a = stored V base bs a" by (simp add: programmed_def stored_def)
qed

lemma same_outside_stored: "region base (length bs) \<subseteq> A \<Longrightarrow> same_outside A V (stored V base bs)"
  by (auto simp: same_outside_def stored_def)

lemma slice_at_cong: "(\<And>a. a \<in> region t n \<Longrightarrow> R a = R' a) \<Longrightarrow> slice_at R t n = slice_at R' t n"
proof (rule nth_equalityI)
  fix i assume eq: "\<And>a. a \<in> region t n \<Longrightarrow> R a = R' a" and "i < length (slice_at R t n)"
  then show "slice_at R t n ! i = slice_at R' t n ! i"
    using unat_of_nat_le [of i] by simp
qed simp

lemma region_apart:
  assumes "m + n \<le> 2 ^ 32"
  shows "region base m \<inter> region (base + of_nat m) n = {}"
proof (cases "n = 0")
  case False
  with assms have m: "m < 2 ^ 32" by linarith
  have "unat (a - base) < 2 ^ 32" for a using unsigned_less [of "a - base"] by simp
  with m assms show ?thesis by (auto simp: unat_diff_split split: if_splits)
qed auto

lemma slice_at_blank_part:
  assumes "slice_at V base m = replicate m x" and "k + n \<le> m"
  shows "slice_at V (base + of_nat k) n = replicate n x"
proof -
  have "take n (drop k (slice_at V base m)) = replicate n x" using assms by simp
  then show ?thesis using assms(2) by (simp add: drop_slice_at take_slice_at)
qed

lemma slice_at_stored_after:
  assumes "length bs + n \<le> 2 ^ 32"
  shows "slice_at (stored V base bs) (base + of_nat (length bs)) n = slice_at V (base + of_nat (length bs)) n"
  by (rule same_outside_slice [OF same_outside_stored [OF order_refl]]) (rule region_apart [OF assms])

end
