(* ===== verification/Rom_Boot.thy ===== *)
theory Rom_Boot
  imports Flash_View
begin

text \<open>
  The crate \<open>hardware/boot\<close>: what the second-stage bootloader does through the ROM.
  The \<open>extern "C"\<close> routines of the chip's ROM are the fields of the parameter \<open>'w rom\<close>,
  where \<open>'w\<close> is the state of the hardware; \<open>rom_flash_laws\<close> states what the documentation of those
  routines promises about the flash contents.  The modules \<open>esp32c3::hw\<close> and
  \<open>esp32s3::hw\<close> of the source are the same text except for the register addresses of
  \<open>clear_flashboot_watchdogs\<close>, so the operations are modelled once and the chip is an
  argument of that one.
\<close>

section \<open>The ROM interface\<close>

record 'w rom =
  esp_rom_spiflash_read :: "u32 \<Rightarrow> u32 list \<Rightarrow> u32 \<Rightarrow> 'w \<Rightarrow> i32 \<times> u32 list \<times> 'w"
  esp_rom_spiflash_write :: "u32 \<Rightarrow> u32 list \<Rightarrow> u32 \<Rightarrow> 'w \<Rightarrow> i32 \<times> 'w"
  esp_rom_spiflash_erase_sector :: "u32 \<Rightarrow> 'w \<Rightarrow> i32 \<times> 'w"
  esp_rom_spiflash_unlock :: "'w \<Rightarrow> i32 \<times> 'w"
  esp_rom_spiflash_attach :: "u32 \<Rightarrow> bool \<Rightarrow> 'w \<Rightarrow> 'w"
  esp_rom_spiflash_config_param :: "u32 \<Rightarrow> u32 \<Rightarrow> u32 \<Rightarrow> u32 \<Rightarrow> u32 \<Rightarrow> u32 \<Rightarrow> 'w \<Rightarrow> 'w"
  ets_efuse_get_spiconfig :: "'w \<Rightarrow> u32"
  esp_rom_delay_us :: "u32 \<Rightarrow> 'w \<Rightarrow> 'w"
  rom_spiflash_legacy_data_store :: "nat \<Rightarrow> u32 \<Rightarrow> 'w \<Rightarrow> 'w"
  Cache_MMU_Init :: "'w \<Rightarrow> 'w"
  Cache_Enable_ICache :: "u32 \<Rightarrow> 'w \<Rightarrow> 'w"
  Cache_Suspend_ICache :: "'w \<Rightarrow> u32 \<times> 'w"
  Cache_Resume_ICache :: "u32 \<Rightarrow> 'w \<Rightarrow> 'w"
  Cache_Invalidate_ICache_All :: "'w \<Rightarrow> 'w"
  Cache_Ibus_MMU_Set :: "u32 \<Rightarrow> u32 \<Rightarrow> u32 \<Rightarrow> u32 \<Rightarrow> u32 \<Rightarrow> u32 \<Rightarrow> 'w \<Rightarrow> i32 \<times> 'w"
  Cache_Dbus_MMU_Set :: "u32 \<Rightarrow> u32 \<Rightarrow> u32 \<Rightarrow> u32 \<Rightarrow> u32 \<Rightarrow> u32 \<Rightarrow> 'w \<Rightarrow> i32 \<times> 'w"
  read_volatile :: "u32 \<Rightarrow> 'w \<Rightarrow> u32"
  write_volatile :: "u32 \<Rightarrow> u32 \<Rightarrow> 'w \<Rightarrow> 'w"

datatype flash_error = FlashRead u32 | FlashProgram u32 | FlashErase u32 | FlashUnlock

text \<open>The bytes of a \<open>u32\<close> buffer, on these little-endian cores.\<close>

definition window_bytes :: "u32 list \<Rightarrow> u8 list" where
  "window_bytes ws = concat (map (to_le 4) ws)"

section \<open>Reading\<close>

text \<open>
  One turn of the loop of \<open>flash_read\<close> reads at most 252 bytes through a 64-word window;
  \<open>n\<close> is \<open>out.len()\<close>, \<open>done\<close> the loop variable.  The buffer is part of the result also
  after an error.
\<close>

function flash_read_loop ::
  "'w rom \<Rightarrow> u32 \<Rightarrow> nat \<Rightarrow> nat \<Rightarrow> u8 list \<Rightarrow> 'w \<Rightarrow> ((unit, flash_error) res \<times> u8 list) \<times> 'w"
where
  "flash_read_loop rom offset n done out w =
     (if done < n then
        let pos = offset + of_nat done;
            start = pos AND NOT 3;
            skip = unat (pos - start);
            want = min (n - done) 252;
            words = div_ceil (skip + want) 4
        in case esp_rom_spiflash_read rom start (replicate 64 0) (of_nat (words * 4)) w of
             (rc, window, w') \<Rightarrow>
               if rc \<noteq> 0 then ((Err (FlashRead start), out), w')
               else let bytes = take (words * 4) (window_bytes window)
                    in flash_read_loop rom offset n (done + want)
                         (splice out done (take want (drop skip bytes))) w'
      else ((Ok (), out), w))"
  by pat_completeness auto
termination
  by (relation "measure (\<lambda>(rom, offset, n, done, out, w). n - done)") auto

declare flash_read_loop.simps [simp del]

definition flash_read ::
  "'w rom \<Rightarrow> u32 \<Rightarrow> u8 list \<Rightarrow> 'w \<Rightarrow> ((unit, flash_error) res \<times> u8 list) \<times> 'w" where
  "flash_read rom offset out w = flash_read_loop rom offset (length out) 0 out w"

text \<open>
  \<open>flash_read(offset, &mut buf)?\<close>: the callers drop the buffer after an error, so for them
  the read returns the filled buffer or fails.
\<close>

definition flash_read_into :: "'w rom \<Rightarrow> u32 \<Rightarrow> u8 list \<Rightarrow> ('w, u8 list, flash_error) comp" where
  "flash_read_into rom offset buf = (\<lambda>w. case flash_read rom offset buf w of
     ((Ok _, out), w') \<Rightarrow> (Ok out, w')
   | ((Err e, out), w') \<Rightarrow> (Err e, w')
   | ((Panic, out), w') \<Rightarrow> (Panic, w'))"

section \<open>Programming and erasing\<close>

text \<open>The word buffer of one turn of \<open>flash_program\<close>: the chunk packed, zeros after it.\<close>

definition pack_words :: "u8 list \<Rightarrow> u32 list" where
  "pack_words chunk =
     (let ws = map from_le (chunks_exact 4 chunk) in ws @ replicate (64 - length ws) 0)"

function flash_program_loop ::
  "'w rom \<Rightarrow> u32 \<Rightarrow> u8 list \<Rightarrow> nat \<Rightarrow> ('w, unit, flash_error) comp"
where
  "flash_program_loop rom at data done w =
     (if done < length data then
        let n = min (length data - done) 256;
            words = pack_words (take n (drop done data));
            dest = at + of_nat done
        in case esp_rom_spiflash_write rom dest words (of_nat n) w of
             (rc, w') \<Rightarrow> if rc \<noteq> 0 then (Err (FlashProgram dest), w')
                         else flash_program_loop rom at data (done + n) w'
      else (Ok (), w))"
  by pat_completeness auto
termination
  by (relation "measure (\<lambda>(rom, at, data, done, w). length data - done)") auto

declare flash_program_loop.simps [simp del]

definition flash_program :: "'w rom \<Rightarrow> u32 \<Rightarrow> u8 list \<Rightarrow> ('w, unit, flash_error) comp" where
  "flash_program rom at data w =
     (if at AND 3 \<noteq> 0 \<or> length data AND 3 \<noteq> 0 then (Err (FlashProgram at), w)
      else flash_program_loop rom at data 0 w)"

definition flash_unlock :: "'w rom \<Rightarrow> ('w, unit, flash_error) comp" where
  "flash_unlock rom w = (case esp_rom_spiflash_unlock rom w of
     (rc, w') \<Rightarrow> (if rc = 0 then Ok () else Err FlashUnlock, w'))"

definition flash_erase_sector :: "'w rom \<Rightarrow> u32 \<Rightarrow> ('w, unit, flash_error) comp" where
  "flash_erase_sector rom sector_number w =
     (case esp_rom_spiflash_erase_sector rom sector_number w of
        (rc, w') \<Rightarrow> (if rc = 0 then Ok () else Err (FlashErase sector_number), w'))"

section \<open>Flash size\<close>

definition flash_size_of_header :: "u8 list \<Rightarrow> u32" where
  "flash_size_of_header header =
     (let k = drop_bit 4 (header ! 3) in
      if k = 0 then push_bit 20 1
      else if k = 1 then push_bit 20 2
      else if k = 2 then push_bit 20 4
      else if k = 3 then push_bit 20 8
      else if k = 4 then push_bit 20 16
      else push_bit 20 4)"

definition flash_size_from_header :: "'w rom \<Rightarrow> ('w, u32, flash_error) comp" where
  "flash_size_from_header rom =
     andthen (flash_read_into rom 0 (replicate 4 0)) (\<lambda>header. return (flash_size_of_header header))"

definition set_flash_size_from_header :: "'w rom \<Rightarrow> ('w, u32, flash_error) comp" where
  "set_flash_size_from_header rom =
     andthen (flash_size_from_header rom) (\<lambda>sz.
     andthen (modify (rom_spiflash_legacy_data_store rom 1 sz)) (\<lambda>_.
     return sz))"

definition flash_reinit :: "'w rom \<Rightarrow> ('w, u32, 'e) comp" where
  "flash_reinit rom =
     andthen (attempt (flash_size_from_header rom)) (\<lambda>r.
     let chip_size = (case r of Inl _ \<Rightarrow> push_bit 20 4 | Inr sz \<Rightarrow> sz) in
     andthen (gets (ets_efuse_get_spiconfig rom)) (\<lambda>config.
     andthen (modify (esp_rom_spiflash_attach rom config False)) (\<lambda>_.
     andthen (modify (esp_rom_spiflash_config_param rom 0 chip_size 0x10000 0x1000 0x100 0xFFFF)) (\<lambda>_.
     return chip_size))))"

section \<open>Watchdogs\<close>

datatype chip = Esp32c3 | Esp32s3

definition WDT_WKEY :: u32 where
  "WDT_WKEY = 0x50D83AA1"

definition clear_bit :: "'w rom \<Rightarrow> u32 \<Rightarrow> u32 \<Rightarrow> u32 \<Rightarrow> nat \<Rightarrow> ('w, u32, 'e) comp" where
  "clear_bit rom base config protect b =
     (let cfg = base + config; wprotect = base + protect in
      andthen (gets (read_volatile rom cfg)) (\<lambda>before.
      andthen (modify (write_volatile rom wprotect WDT_WKEY)) (\<lambda>_.
      andthen (modify (write_volatile rom cfg (before AND NOT (push_bit b 1)))) (\<lambda>_.
      andthen (modify (write_volatile rom wprotect 0)) (\<lambda>_.
      return before)))))"

definition rtc_wdt_offsets :: "chip \<Rightarrow> u32 \<times> u32" where
  "rtc_wdt_offsets c = (case c of Esp32c3 \<Rightarrow> (0x90, 0xA8) | Esp32s3 \<Rightarrow> (0x98, 0xB0))"

definition clear_flashboot_watchdogs :: "chip \<Rightarrow> 'w rom \<Rightarrow> ('w, u32 \<times> u32, 'e) comp" where
  "clear_flashboot_watchdogs c rom =
     andthen (clear_bit rom 0x6001F000 0x48 0x64 14) (\<lambda>tg0.
     andthen (clear_bit rom 0x60008000 (fst (rtc_wdt_offsets c)) (snd (rtc_wdt_offsets c)) 12) (\<lambda>rtc.
     return (tg0, rtc)))"

section \<open>Cache and MMU\<close>

definition cache_begin_mapping :: "'w rom \<Rightarrow> ('w, u32, 'e) comp" where
  "cache_begin_mapping rom =
     andthen (modify (Cache_MMU_Init rom)) (\<lambda>_.
     andthen (modify (Cache_Enable_ICache rom 0)) (\<lambda>_.
     (\<lambda>w. case Cache_Suspend_ICache rom w of (autoload, w') \<Rightarrow> (Ok autoload, w'))))"

definition map_irom :: "'w rom \<Rightarrow> u32 \<Rightarrow> u32 \<Rightarrow> u32 \<Rightarrow> ('w, i32, 'e) comp" where
  "map_irom rom vaddr paddr pages =
     (\<lambda>w. case Cache_Ibus_MMU_Set rom 0 vaddr paddr 64 pages 0 w of (rc, w') \<Rightarrow> (Ok rc, w'))"

definition map_drom :: "'w rom \<Rightarrow> u32 \<Rightarrow> u32 \<Rightarrow> u32 \<Rightarrow> ('w, i32, 'e) comp" where
  "map_drom rom vaddr paddr pages =
     (\<lambda>w. case Cache_Dbus_MMU_Set rom 0 vaddr paddr 64 pages 0 w of (rc, w') \<Rightarrow> (Ok rc, w'))"

definition cache_finish_mapping :: "'w rom \<Rightarrow> u32 \<Rightarrow> ('w, unit, 'e) comp" where
  "cache_finish_mapping rom autoload =
     andthen (modify (Cache_Invalidate_ICache_All rom)) (\<lambda>_.
     modify (Cache_Resume_ICache rom autoload))"

definition delay_us :: "'w rom \<Rightarrow> u32 \<Rightarrow> ('w, unit, 'e) comp" where
  "delay_us rom us = modify (esp_rom_delay_us rom us)"

section \<open>What the ROM routines promise about the flash\<close>

text \<open>
  \<open>view w\<close> is the flash contents in hardware state \<open>w\<close>.  A read of whole, aligned words
  that reports success delivers the contents and never changes them; a program command
  clears the bits its data has cleared; an erase sets its 4 KiB sector to ones; a command that
  reports an error has touched nothing outside its range; the other routines leave the flash
  alone.  Nothing is promised for an unaligned call or for one that overruns its buffer.
\<close>

definition rom_read_law :: "'w rom \<Rightarrow> ('w \<Rightarrow> mem) \<Rightarrow> bool" where
  "rom_read_law rom view \<longleftrightarrow>
     (\<forall>a buf n w rc buf' w'. esp_rom_spiflash_read rom a buf n w = (rc, buf', w') \<longrightarrow>
        a AND 3 = 0 \<longrightarrow> unat n mod 4 = 0 \<longrightarrow> unat n \<le> 4 * length buf \<longrightarrow>
        view w' = view w \<and>
        (rc = 0 \<longrightarrow> take (unat n) (window_bytes buf') = slice_at (view w) a (unat n)))"

definition rom_write_law :: "'w rom \<Rightarrow> ('w \<Rightarrow> mem) \<Rightarrow> bool" where
  "rom_write_law rom view \<longleftrightarrow>
     (\<forall>a buf n w rc w'. esp_rom_spiflash_write rom a buf n w = (rc, w') \<longrightarrow>
        a AND 3 = 0 \<longrightarrow> unat n mod 4 = 0 \<longrightarrow> unat n \<le> 4 * length buf \<longrightarrow>
        (rc = 0 \<longrightarrow> view w' = programmed (view w) a (take (unat n) (window_bytes buf))) \<and>
        (rc \<noteq> 0 \<longrightarrow> same_outside (region a (unat n)) (view w) (view w')))"

definition rom_erase_law :: "'w rom \<Rightarrow> ('w \<Rightarrow> mem) \<Rightarrow> bool" where
  "rom_erase_law rom view \<longleftrightarrow>
     (\<forall>k w rc w'. esp_rom_spiflash_erase_sector rom k w = (rc, w') \<longrightarrow>
        (rc = 0 \<longrightarrow> view w' = erased (view w) (k * 0x1000) 0x1000) \<and>
        (rc \<noteq> 0 \<longrightarrow> same_outside (region (k * 0x1000) 0x1000) (view w) (view w')))"

definition rom_quiet_law :: "'w rom \<Rightarrow> ('w \<Rightarrow> mem) \<Rightarrow> bool" where
  "rom_quiet_law rom view \<longleftrightarrow>
     (\<forall>w. view (snd (esp_rom_spiflash_unlock rom w)) = view w \<and>
        (\<forall>c l. view (esp_rom_spiflash_attach rom c l w) = view w) \<and>
        (\<forall>a b c d e f. view (esp_rom_spiflash_config_param rom a b c d e f w) = view w) \<and>
        (\<forall>us. view (esp_rom_delay_us rom us w) = view w) \<and>
        (\<forall>i x. view (rom_spiflash_legacy_data_store rom i x w) = view w) \<and>
        view (Cache_MMU_Init rom w) = view w \<and>
        (\<forall>x. view (Cache_Enable_ICache rom x w) = view w) \<and>
        view (snd (Cache_Suspend_ICache rom w)) = view w \<and>
        (\<forall>x. view (Cache_Resume_ICache rom x w) = view w) \<and>
        view (Cache_Invalidate_ICache_All rom w) = view w \<and>
        (\<forall>a b c d e f. view (snd (Cache_Ibus_MMU_Set rom a b c d e f w)) = view w) \<and>
        (\<forall>a b c d e f. view (snd (Cache_Dbus_MMU_Set rom a b c d e f w)) = view w) \<and>
        (\<forall>a x. view (write_volatile rom a x w) = view w))"

definition rom_flash_laws :: "'w rom \<Rightarrow> ('w \<Rightarrow> mem) \<Rightarrow> bool" where
  "rom_flash_laws rom view \<longleftrightarrow> rom_read_law rom view \<and> rom_write_law rom view \<and>
     rom_erase_law rom view \<and> rom_quiet_law rom view"

lemma rom_read_lawD:
  assumes "rom_flash_laws rom view" and "esp_rom_spiflash_read rom a buf n w = (rc, buf', w')"
    and "a AND 3 = 0" and "unat n mod 4 = 0" and "unat n \<le> 4 * length buf"
  shows "view w' = view w \<and>
    (rc = 0 \<longrightarrow> take (unat n) (window_bytes buf') = slice_at (view w) a (unat n))"
  using assms(1) [unfolded rom_flash_laws_def rom_read_law_def, THEN conjunct1, rule_format, OF assms(2-5)] .

lemma rom_write_lawD:
  assumes "rom_flash_laws rom view" and "esp_rom_spiflash_write rom a buf n w = (rc, w')"
    and "a AND 3 = 0" and "unat n mod 4 = 0" and "unat n \<le> 4 * length buf"
  shows "(rc = 0 \<longrightarrow> view w' = programmed (view w) a (take (unat n) (window_bytes buf))) \<and>
    (rc \<noteq> 0 \<longrightarrow> same_outside (region a (unat n)) (view w) (view w'))"
  using assms(1) [unfolded rom_flash_laws_def rom_write_law_def, THEN conjunct2, THEN conjunct1, rule_format, OF assms(2-5)] by simp

lemma rom_erase_lawD:
  assumes "rom_flash_laws rom view" and "esp_rom_spiflash_erase_sector rom k w = (rc, w')"
  shows "(rc = 0 \<longrightarrow> view w' = erased (view w) (k * 0x1000) 0x1000) \<and>
    (rc \<noteq> 0 \<longrightarrow> same_outside (region (k * 0x1000) 0x1000) (view w) (view w'))"
  using assms(1) [unfolded rom_flash_laws_def rom_erase_law_def, THEN conjunct2, THEN conjunct2, THEN conjunct1, rule_format, OF assms(2)] by simp

lemma rom_quiet_laws:
  assumes "rom_flash_laws rom view"
  shows "view (snd (esp_rom_spiflash_unlock rom w)) = view w"
    and "view (esp_rom_spiflash_attach rom c l w) = view w"
    and "view (esp_rom_spiflash_config_param rom a1 a2 a3 a4 a5 a6 w) = view w"
    and "view (esp_rom_delay_us rom us w) = view w"
    and "view (rom_spiflash_legacy_data_store rom i x w) = view w"
    and "view (Cache_MMU_Init rom w) = view w"
    and "view (Cache_Enable_ICache rom x w) = view w"
    and "view (snd (Cache_Suspend_ICache rom w)) = view w"
    and "view (Cache_Resume_ICache rom x w) = view w"
    and "view (Cache_Invalidate_ICache_All rom w) = view w"
    and "view (snd (Cache_Ibus_MMU_Set rom a1 a2 a3 a4 a5 a6 w)) = view w"
    and "view (snd (Cache_Dbus_MMU_Set rom a1 a2 a3 a4 a5 a6 w)) = view w"
    and "view (write_volatile rom a1 x w) = view w"
  using assms unfolding rom_flash_laws_def rom_quiet_law_def by auto

section \<open>The read loop\<close>

lemma length_window_bytes: "length (window_bytes ws) = 4 * length ws"
  by (induction ws) (simp_all add: window_bytes_def)

text \<open>The window never overflows: at most 3 skipped bytes and 252 wanted ones fit 64 words.\<close>

lemma read_window_fits:
  assumes "skip < 4" and "want \<le> 252"
  shows "div_ceil (skip + want) 4 \<le> 64" and "skip + want \<le> div_ceil (skip + want) 4 * 4"
proof -
  show "div_ceil (skip + want) 4 \<le> 64"
    using div_ceil_le_iff [of 4 "skip + want" 64] assms by simp
  show "skip + want \<le> div_ceil (skip + want) 4 * 4"
    using div_ceil_bounds(1) [of 4] by simp
qed

lemma window_slice:
  fixes pos :: u32
  assumes "bs = slice_at V (pos AND NOT 3) m" and "unat (pos - (pos AND NOT 3)) + want \<le> m"
  shows "take want (drop (unat (pos - (pos AND NOT 3))) bs) = slice_at V pos want"
proof -
  have "(pos AND NOT 3) + of_nat (unat (pos - (pos AND NOT 3))) = pos" by simp
  then show ?thesis
    using assms by (simp add: drop_slice_at take_slice_at)
qed

lemma flash_read_loop_stop: "\<not> d < n \<Longrightarrow> flash_read_loop rom offset n d out w = ((Ok (), out), w)"
  by (subst flash_read_loop.simps) simp

lemma flash_read_loop_step:
  assumes "d < n" and "pos = offset + of_nat d" and "want = min (n - d) 252"
    and "words = div_ceil (unat (pos - (pos AND NOT 3)) + want) 4"
    and "esp_rom_spiflash_read rom (pos AND NOT 3) (replicate 64 0) (of_nat (words * 4)) w = (rc, win, w')"
  shows "flash_read_loop rom offset n d out w =
      (if rc \<noteq> 0 then ((Err (FlashRead (pos AND NOT 3)), out), w')
       else flash_read_loop rom offset n (d + want)
              (splice out d (take want (drop (unat (pos - (pos AND NOT 3)))
                 (take (words * 4) (window_bytes win))))) w')"
  using assms by (subst flash_read_loop.simps) (simp add: Let_def)

definition read_post :: "('w \<Rightarrow> mem) \<Rightarrow> mem \<Rightarrow> u32 \<Rightarrow> nat \<Rightarrow> ((unit, flash_error) res \<times> u8 list) \<times> 'w \<Rightarrow> bool" where
  "read_post view V offset n r = (case r of
     ((Ok _, out'), w') \<Rightarrow> view w' = V \<and> out' = slice_at V offset n
   | ((Err e, out'), w') \<Rightarrow> view w' = V \<and> length out' = n \<and>
       (\<exists>d < n. e = FlashRead ((offset + of_nat d) AND NOT 3) \<and> take d out' = slice_at V offset d)
   | ((Panic, out'), w') \<Rightarrow> False)"

lemma flash_read_loop_spec:
  assumes laws: "rom_flash_laws rom view"
  shows "view w = V \<Longrightarrow> length out = n \<Longrightarrow> d \<le> n \<Longrightarrow> take d out = slice_at V offset d \<Longrightarrow>
    read_post view V offset n (flash_read_loop rom offset n d out w)"
proof (induction "n - d" arbitrary: d out w rule: less_induct)
  case less
  show ?case
  proof (cases "d < n")
    case False
    with less.prems show ?thesis by (simp add: flash_read_loop_stop read_post_def)
  next
    case True
    define pos where "pos = offset + of_nat d"
    define want where "want = min (n - d) 252"
    define skip where "skip = unat (pos - (pos AND NOT 3))"
    define words where "words = div_ceil (skip + want) 4"
    obtain rc win w' where rd:
      "esp_rom_spiflash_read rom (pos AND NOT 3) (replicate 64 0) (of_nat (words * 4)) w = (rc, win, w')"
      by (metis prod_cases3)
    note step = flash_read_loop_step [OF True pos_def want_def words_def [unfolded skip_def] rd, of out, folded skip_def]
    have want: "want \<le> 252" "d + want \<le> n" "n - (d + want) < n - d" using True by (auto simp: want_def)
    have skip: "skip < 4" unfolding skip_def word_minus_aligned by (rule unat_and_3)
    have words: "words \<le> 64" "skip + want \<le> words * 4"
      using read_window_fits [OF skip want(1)] by (simp_all only: words_def)
    then have un: "unat (of_nat (words * 4) :: u32) = words * 4"
      by (intro unat_of_nat_usize) (simp add: usize_limit_def)
    have law: "view w' = V \<and> (rc = 0 \<longrightarrow> take (words * 4) (window_bytes win) = slice_at V (pos AND NOT 3) (words * 4))"
      using rom_read_lawD [OF laws rd aligned_down_and, unfolded un] words(1) less.prems(1) by simp
    show ?thesis
    proof (cases "rc = 0")
      case False
      then show ?thesis using step law True less.prems by (auto simp: pos_def read_post_def)
    next
      case ok: True
      have got: "take want (drop skip (take (words * 4) (window_bytes win))) = slice_at V pos want"
        unfolding skip_def by (rule window_slice) (use law ok words(2) in \<open>auto simp: skip_def\<close>)
      have "take (d + want) (splice out d (slice_at V pos want)) = slice_at V offset (d + want)"
        using take_splice [of d "slice_at V pos want" out] less.prems(2,4) want(2)
        by (simp add: slice_at_add pos_def)
      then have "read_post view V offset n
          (flash_read_loop rom offset n (d + want) (splice out d (slice_at V pos want)) w')"
        using less.hyps [OF want(3)] law want(2) less.prems(2) by simp
      then show ?thesis using step ok by (simp only: got if_False simp_thms)
    qed
  qed
qed

lemma flash_read_spec:
  assumes "rom_flash_laws rom view"
  shows "read_post view (view w) offset (length out) (flash_read rom offset out w)"
  unfolding flash_read_def using assms by (intro flash_read_loop_spec) simp_all

lemma flash_read_into_triple:
  assumes "rom_flash_laws rom view"
  shows "triple (\<lambda>w. view w = V) (flash_read_into rom offset buf)
     (\<lambda>out w. view w = V \<and> out = slice_at V offset (length buf))
     (\<lambda>e w. view w = V \<and> (\<exists>d < length buf. e = FlashRead ((offset + of_nat d) AND NOT 3)))"
proof (rule tripleI)
  fix w assume "view w = V"
  with flash_read_spec [OF assms, of w offset buf]
  show "case flash_read_into rom offset buf w of
      (Ok out, w) \<Rightarrow> view w = V \<and> out = slice_at V offset (length buf)
    | (Err e, w) \<Rightarrow> view w = V \<and> (\<exists>d < length buf. e = FlashRead ((offset + of_nat d) AND NOT 3))
    | (Panic, w) \<Rightarrow> False"
    by (cases "flash_read rom offset buf w")
       (auto simp: flash_read_into_def read_post_def split: res.splits)
qed

text \<open>When the ROM's reads never report an error, no read fails.\<close>

definition rom_reads_ok :: "'w rom \<Rightarrow> bool" where
  "rom_reads_ok rom \<longleftrightarrow> (\<forall>a buf n w. fst (esp_rom_spiflash_read rom a buf n w) = 0)"

lemma flash_read_loop_total:
  "rom_reads_ok rom \<Longrightarrow> fst (fst (flash_read_loop rom offset n d out w)) = Ok ()"
proof (induction "n - d" arbitrary: d out w rule: less_induct)
  case less
  show ?case
  proof (cases "d < n")
    case True
    obtain rc win w' where rd: "esp_rom_spiflash_read rom (offset + of_nat d AND NOT 3) (replicate 64 0)
        (of_nat (div_ceil (unat (offset + of_nat d - (offset + of_nat d AND NOT 3)) + min (n - d) 252) 4 * 4)) w = (rc, win, w')"
      by (metis prod_cases3)
    have "rc = 0" using less.prems rd unfolding rom_reads_ok_def by (metis fst_conv)
    with True less flash_read_loop_step [OF True refl refl refl rd, of out] show ?thesis by simp
  qed (simp add: flash_read_loop_stop)
qed

lemma errs_flash_read_into: "rom_reads_ok rom \<Longrightarrow> errs P (flash_read_into rom offset buf)"
  using flash_read_loop_total [of rom offset "length buf" 0 buf]
  by (auto simp: errs_def flash_read_into_def flash_read_def split: prod.splits res.splits) (metis fst_conv res.distinct(1))+

section \<open>The program loop\<close>

lemma window_bytes_pack:
  assumes "length chunk mod 4 = 0"
  shows "take (length chunk) (window_bytes (pack_words chunk)) = chunk"
proof -
  let ?ws = "map from_le (chunks_exact 4 chunk) :: u32 list"
  have "map (to_le 4) ?ws = chunks_exact 4 chunk"
    by (simp add: map_idI to_le_from_le chunks_exact_length)
  then have "window_bytes ?ws = chunk"
    by (simp add: window_bytes_def concat_chunks_exact assms)
  then have "window_bytes (pack_words chunk) = chunk @ window_bytes (replicate (64 - length ?ws) 0)"
    by (simp add: pack_words_def Let_def window_bytes_def)
  then show ?thesis by simp
qed

lemma length_pack_words: "length chunk \<le> 256 \<Longrightarrow> length (pack_words chunk) = 64"
  by (simp add: pack_words_def Let_def length_chunks_exact)

lemma flash_program_loop_stop: "\<not> d < length data \<Longrightarrow> flash_program_loop rom at data d w = (Ok (), w)"
  by (subst flash_program_loop.simps) simp

lemma flash_program_loop_step:
  assumes "d < length data" and "n = min (length data - d) 256"
    and "esp_rom_spiflash_write rom (at + of_nat d) (pack_words (take n (drop d data))) (of_nat n) w = (rc, w')"
  shows "flash_program_loop rom at data d w =
    (if rc \<noteq> 0 then (Err (FlashProgram (at + of_nat d)), w')
     else flash_program_loop rom at data (d + n) w')"
  using assms by (subst flash_program_loop.simps) (simp add: Let_def)

definition program_post :: "('w \<Rightarrow> mem) \<Rightarrow> mem \<Rightarrow> u32 \<Rightarrow> u8 list \<Rightarrow> (unit, flash_error) res \<times> 'w \<Rightarrow> bool" where
  "program_post view V at data r = (case r of
     (Ok _, w') \<Rightarrow> view w' = programmed V at data
   | (Err e, w') \<Rightarrow> (\<exists>d < length data. e = FlashProgram (at + of_nat d) \<and>
       same_outside (region (at + of_nat d) (length data - d)) (programmed V at (take d data)) (view w'))
   | (Panic, w') \<Rightarrow> False)"

lemma flash_program_loop_spec:
  assumes laws: "rom_flash_laws rom view" and al: "at AND 3 = 0" "length data mod 4 = 0"
    and len: "length data \<le> 2 ^ 32"
  shows "view w = programmed V at (take d data) \<Longrightarrow> d mod 4 = 0 \<Longrightarrow> d \<le> length data \<Longrightarrow>
    program_post view V at data (flash_program_loop rom at data d w)"
proof (induction "length data - d" arbitrary: d w rule: less_induct)
  case less
  show ?case
  proof (cases "d < length data")
    case False
    with less.prems show ?thesis by (simp add: flash_program_loop_stop program_post_def)
  next
    case True
    define n where "n = min (length data - d) 256"
    define chunk where "chunk = take n (drop d data)"
    obtain rc w' where wr:
      "esp_rom_spiflash_write rom (at + of_nat d) (pack_words chunk) (of_nat n) w = (rc, w')"
      by (metis surj_pair)
    note step = flash_program_loop_step [OF True n_def wr [unfolded chunk_def]]
    have "(length data - d) mod 4 = 0"
      using al(2) less.prems(2,3) by (metis dvd_diff_nat mod_0_imp_dvd dvd_imp_mod_0)
    then have n: "n mod 4 = 0" "n \<le> 256" "d + n \<le> length data" "length data - (d + n) < length data - d"
      using True by (auto simp: n_def min_def)
    then have chunk: "length chunk = n" by (simp add: chunk_def)
    have un: "unat (of_nat n :: u32) = n"
      using n(2) by (intro unat_of_nat_usize) (simp add: usize_limit_def)
    have law: "(rc = 0 \<longrightarrow> view w' = programmed (view w) (at + of_nat d) chunk) \<and>
        (rc \<noteq> 0 \<longrightarrow> same_outside (region (at + of_nat d) n) (view w) (view w'))"
      using rom_write_lawD [OF laws wr aligned_add [OF al(1) less.prems(2)], unfolded un]
        window_bytes_pack [of chunk] n(1,2) chunk by (simp add: length_pack_words)
    show ?thesis
    proof (cases "rc = 0")
      case False
      then have "same_outside (region (at + of_nat d) (length data - d)) (view w) (view w')"
        using law by (auto intro: same_outside_mono simp: n_def)
      with False show ?thesis using step True less.prems(1) by (auto simp: program_post_def)
    next
      case ok: True
      have "view w' = programmed V at (take (d + n) data)"
        using law ok less.prems(1,3) len n(3) programmed_append [of "take d data" chunk V at]
        by (simp add: chunk_def take_add)
      then have "program_post view V at data (flash_program_loop rom at data (d + n) w')"
        using less.hyps [OF n(4)] n(1,3) less.prems(2) by (simp add: mod_add_eq [symmetric])
      then show ?thesis using step ok by simp
    qed
  qed
qed

lemma flash_program_triple:
  assumes "rom_flash_laws rom view" and "length data \<le> 2 ^ 32"
  shows "triple (\<lambda>w. view w = V) (flash_program rom at data)
     (\<lambda>_ w. view w = programmed V at data)
     (\<lambda>e w. same_outside (region at (length data)) V (view w))"
proof (rule tripleI)
  fix w assume V: "view w = V"
  show "case flash_program rom at data w of (Ok _, w) \<Rightarrow> view w = programmed V at data
    | (Err e, w) \<Rightarrow> same_outside (region at (length data)) V (view w) | (Panic, w) \<Rightarrow> False"
  proof (cases "at AND 3 \<noteq> 0 \<or> length data AND 3 \<noteq> 0")
    case True
    with V show ?thesis by (auto simp: flash_program_def)
  next
    case False
    then have "program_post view V at data (flash_program rom at data w)"
      using flash_program_loop_spec [OF assms(1) _ _ assms(2), of at w V 0] V
      by (simp add: flash_program_def)
    moreover have "same_outside (region at (length data)) V V'"
      if "d < length data" and "same_outside (region (at + of_nat d) (length data - d)) (programmed V at (take d data)) V'"
      for d V'
    proof (rule same_outside_trans)
      show "same_outside (region at (length data)) V (programmed V at (take d data))"
        by (rule same_outside_programmed) (use that in auto)
      have "region (at + of_nat d) (length data - d) \<subseteq> region at (length data)"
        by (rule region_subset) (use that unat_of_nat_le [of d] in linarith)
      with that(2) show "same_outside (region at (length data)) (programmed V at (take d data)) V'"
        by (rule same_outside_mono)
    qed
    ultimately show ?thesis
      by (cases "flash_program rom at data w") (auto simp: program_post_def split: res.splits)
  qed
qed

section \<open>The other operations\<close>

lemma flash_unlock_triple:
  assumes "rom_flash_laws rom view"
  shows "triple (\<lambda>w. view w = V) (flash_unlock rom) (\<lambda>_ w. view w = V) (\<lambda>_ w. view w = V)"
  using rom_quiet_laws(1) [OF assms]
  by (auto simp: triple_def flash_unlock_def split: prod.splits res.splits) (metis snd_conv)+

lemma flash_erase_sector_triple:
  assumes "rom_flash_laws rom view"
  shows "triple (\<lambda>w. view w = V) (flash_erase_sector rom k)
     (\<lambda>_ w. view w = erased V (k * 0x1000) 0x1000)
     (\<lambda>e w. same_outside (region (k * 0x1000) 0x1000) V (view w))"
proof (rule tripleI)
  fix w assume "view w = V"
  obtain rc w' where er: "esp_rom_spiflash_erase_sector rom k w = (rc, w')" by (metis surj_pair)
  from rom_erase_lawD [OF assms er] \<open>view w = V\<close>
  show "case flash_erase_sector rom k w of (Ok _, w) \<Rightarrow> view w = erased V (k * 0x1000) 0x1000
    | (Err e, w) \<Rightarrow> same_outside (region (k * 0x1000) 0x1000) V (view w) | (Panic, w) \<Rightarrow> False"
    by (auto simp: flash_erase_sector_def er)
qed

end
