(* ===== verification/Entry_Commit.thy ===== *)
theory Entry_Commit
  imports Flash_View
begin

text \<open>
  The boot-entry protocol both writers of the \<open>otadata\<close> partition follow
  (\<open>execute\<close> in \<open>bootloader/esp/src/main.rs\<close> and in \<open>adapters/ota/src/otadata.rs\<close>): erase
  the sector and see it erased, program the body and see exactly the body, program the
  commit word and see exactly the committed entry.

  \<open>fibewi::boot\<close> is another crate: its constants, its codec and its decisions are the fields
  of the parameter \<open>'e boot_core\<close>, where \<open>'e\<close> is its \<open>Entry\<close>.  \<open>commit_entry\<close> is the specification of the protocol
  over any erase, program and read operation, not a translation of either function, which are \<open>execute\<close> in
  \<open>Bootloader\<close> and \<open>ota_execute\<close> in \<open>Otadata\<close>; the locale \<open>entry_device\<close> states what those
  operations have to promise, and what the protocol then guarantees is proved once in it.
\<close>

section \<open>The interface of fibewi's boot module\<close>

datatype 'e decoded = Decoded_Ok 'e | Decoded_Other

datatype boot_op = Op_Erase | Op_Program u16 u16 "u8 list"

record 'e boot_write =
  write_sector :: u8
  write_entry :: 'e

record 'e boot_core =
  ENTRY_SIZE :: nat
  BLANK :: "u8 list"
  entry_seq :: "'e \<Rightarrow> u32"
  entry_state :: "'e \<Rightarrow> u32"
  entry_body :: "'e \<Rightarrow> u8 list"
  entry_encode :: "'e \<Rightarrow> u8 list"
  entry_decode :: "u8 list \<Rightarrow> 'e decoded"
  write_ops :: "'e boot_write \<Rightarrow> boot_op \<times> boot_op \<times> boot_op"
  state_NEW :: u32
  state_PENDING_VERIFY :: u32
  state_VALID :: u32
  state_INVALID :: u32
  state_ABORTED :: u32
  slot_of :: "u32 \<Rightarrow> u8 \<Rightarrow> u8"
  core_confirm :: "u8 list list \<Rightarrow> 'e boot_write option"
  core_reject :: "u8 list list \<Rightarrow> 'e boot_write option"
  core_activate :: "u8 list list \<Rightarrow> u8 \<Rightarrow> u8 \<Rightarrow> 'e boot_write option"

section \<open>The protocol\<close>

datatype 'r commit_error = StepFailed nat | ReadFailed nat 'r

definition program_op ::
  "(u32 \<Rightarrow> u8 list \<Rightarrow> ('s, unit, 'x) comp) \<Rightarrow> u32 \<Rightarrow> boot_op \<Rightarrow> nat \<Rightarrow> ('s, unit, 'r commit_error) comp" where
  "program_op pr base op k = (case op of
     Op_Erase \<Rightarrow> throw (StepFailed k)
   | Op_Program off len data \<Rightarrow>
       andthen (panic_if (length data < unat len)) (\<lambda>_.
       map_err (\<lambda>_. StepFailed k) (pr (base + ucast off) (take (unat len) data))))"

definition check_read ::
  "(u32 \<Rightarrow> nat \<Rightarrow> ('s, u8 list, 'r) comp) \<Rightarrow> u32 \<Rightarrow> nat \<Rightarrow> nat \<Rightarrow> (u8 list \<Rightarrow> bool) \<Rightarrow>
   ('s, unit, 'r commit_error) comp" where
  "check_read rd base n k ok =
     andthen (map_err (ReadFailed k) (rd base n)) (\<lambda>back. reject_if (\<not> ok back) (StepFailed k))"

definition commit_entry ::
  "'e boot_core \<Rightarrow> (u32 \<Rightarrow> ('s, unit, 'x) comp) \<Rightarrow> (u32 \<Rightarrow> u8 list \<Rightarrow> ('s, unit, 'y) comp) \<Rightarrow>
   (u32 \<Rightarrow> nat \<Rightarrow> ('s, u8 list, 'r) comp) \<Rightarrow> 'e boot_write \<Rightarrow> u32 \<Rightarrow> ('s, unit, 'r commit_error) comp" where
  "commit_entry core er pr rd wr base = (case write_ops core wr of (e, b, c) \<Rightarrow>
     andthen (reject_if (e \<noteq> Op_Erase) (StepFailed 0)) (\<lambda>_.
     andthen (map_err (\<lambda>_. StepFailed 0) (er base)) (\<lambda>_.
     andthen (check_read rd base (ENTRY_SIZE core) 0 (\<lambda>back. back = BLANK core)) (\<lambda>_.
     andthen (program_op pr base b 1) (\<lambda>_.
     andthen (check_read rd base (ENTRY_SIZE core) 1 (\<lambda>back. back = entry_body core (write_entry wr))) (\<lambda>_.
     andthen (program_op pr base c 2) (\<lambda>_.
     check_read rd base (ENTRY_SIZE core) 2
       (\<lambda>back. back = entry_encode core (write_entry wr) \<and>
               entry_decode core back = Decoded_Ok (write_entry wr)))))))))"

text \<open>What each operation does to the contents of its sector.\<close>

fun op_effect :: "u32 \<Rightarrow> boot_op \<Rightarrow> mem \<Rightarrow> mem" where
  "op_effect base Op_Erase V = erased V base 0x1000"
| "op_effect base (Op_Program off len data) V = programmed V (base + ucast off) (take (unat len) data)"

fun op_range :: "u32 \<Rightarrow> boot_op \<Rightarrow> u32 set" where
  "op_range base Op_Erase = region base 0x1000"
| "op_range base (Op_Program off len data) = region (base + ucast off) (unat len)"

fun op_fits :: "boot_op \<Rightarrow> bool" where
  "op_fits Op_Erase = True"
| "op_fits (Op_Program off len data) = (unat len \<le> length data \<and> unat off + unat len \<le> 0x1000)"

text \<open>
  The requirement on fibewi's operations: their data are as long as they say, and they stay
  in the 4 KiB sector of the entry.
\<close>

definition write_fits :: "'e boot_core \<Rightarrow> 'e boot_write \<Rightarrow> bool" where
  "write_fits core wr = (case write_ops core wr of (e, b, c) \<Rightarrow> op_fits b \<and> op_fits c)"

text \<open>How far a failed commit got, by the step that failed.\<close>

definition after_erase :: "u32 \<Rightarrow> mem \<Rightarrow> mem" where
  "after_erase base V = erased V base 0x1000"

definition after_body :: "'e boot_core \<Rightarrow> 'e boot_write \<Rightarrow> u32 \<Rightarrow> mem \<Rightarrow> mem" where
  "after_body core wr base V = (case write_ops core wr of (e, b, c) \<Rightarrow>
     op_effect base b (after_erase base V))"

definition after_commit :: "'e boot_core \<Rightarrow> 'e boot_write \<Rightarrow> u32 \<Rightarrow> mem \<Rightarrow> mem" where
  "after_commit core wr base V = (case write_ops core wr of (e, b, c) \<Rightarrow>
     op_effect base c (after_body core wr base V))"

definition body_verified :: "'e boot_core \<Rightarrow> 'e boot_write \<Rightarrow> u32 \<Rightarrow> mem \<Rightarrow> bool" where
  "body_verified core wr base V \<longleftrightarrow>
     slice_at (after_body core wr base V) base (ENTRY_SIZE core) = entry_body core (write_entry wr)"

definition failed_at :: "'e boot_core \<Rightarrow> 'e boot_write \<Rightarrow> u32 \<Rightarrow> mem \<Rightarrow> nat \<Rightarrow> mem \<Rightarrow> bool" where
  "failed_at core wr base V k V' = (case write_ops core wr of (e, b, c) \<Rightarrow>
     if k = 0 then same_outside (region base 0x1000) V V'
     else if k = 1 then same_outside (op_range base b) (after_erase base V) V'
     else body_verified core wr base V \<and> same_outside (op_range base c) (after_body core wr base V) V')"

definition committed :: "'e boot_core \<Rightarrow> 'e boot_write \<Rightarrow> u32 \<Rightarrow> mem \<Rightarrow> mem \<Rightarrow> bool" where
  "committed core wr base V V' \<longleftrightarrow>
     V' = after_commit core wr base V \<and> body_verified core wr base V \<and>
     slice_at V' base (ENTRY_SIZE core) = entry_encode core (write_entry wr) \<and>
     entry_decode core (slice_at V' base (ENTRY_SIZE core)) = Decoded_Ok (write_entry wr)"

fun error_step :: "'r commit_error \<Rightarrow> nat" where
  "error_step (StepFailed k) = k"
| "error_step (ReadFailed k r) = k"

fun read_failure :: "('r \<Rightarrow> bool) \<Rightarrow> 'r commit_error \<Rightarrow> bool" where
  "read_failure P (StepFailed k) = True"
| "read_failure P (ReadFailed k r) = P r"

section \<open>Everything stays in the sector\<close>

lemma op_range_sector: "op_fits op \<Longrightarrow> op_range base op \<subseteq> region base 0x1000"
  by (cases op) (simp_all add: region_subset)

lemma op_effect_outside: "op_fits op \<Longrightarrow> same_outside (op_range base op) V (op_effect base op V)"
  by (cases op) (auto intro: same_outside_erased same_outside_programmed)

lemma after_erase_outside: "same_outside (region base 0x1000) V (after_erase base V)"
  by (simp add: after_erase_def same_outside_erased)

lemma after_body_outside:
  assumes "write_fits core wr"
  shows "same_outside (region base 0x1000) V (after_body core wr base V)"
proof -
  obtain e b c where ops: "write_ops core wr = (e, b, c)" by (metis prod_cases3)
  with assms have "op_fits b" by (simp add: write_fits_def)
  then show ?thesis
    using same_outside_step [OF after_erase_outside op_effect_outside op_range_sector]
    by (simp add: after_body_def ops)
qed

lemma failed_at_outside:
  assumes "write_fits core wr" and "failed_at core wr base V k V'"
  shows "same_outside (region base 0x1000) V V'"
proof -
  obtain e b c where ops: "write_ops core wr = (e, b, c)" by (metis prod_cases3)
  with assms(1) have fits: "op_fits b" "op_fits c" by (simp_all add: write_fits_def)
  consider "k = 0" | "k = 1" | "k \<noteq> 0" "k \<noteq> 1" by blast
  then show ?thesis
  proof cases
    case 2
    then show ?thesis
      using assms(2) same_outside_step [OF after_erase_outside _ op_range_sector [OF fits(1)]]
      by (simp add: failed_at_def ops)
  next
    case 3
    then show ?thesis
      using assms(2) same_outside_step [OF after_body_outside [OF assms(1)] _ op_range_sector [OF fits(2)]]
      by (simp add: failed_at_def ops)
  qed (use assms(2) in \<open>simp add: failed_at_def ops\<close>)
qed

lemma committed_outside:
  assumes "write_fits core wr" and "committed core wr base V V'"
  shows "same_outside (region base 0x1000) V V'"
proof -
  obtain e b c where ops: "write_ops core wr = (e, b, c)" by (metis prod_cases3)
  with assms(1) have "op_fits c" by (simp add: write_fits_def)
  with assms(2) show ?thesis
    using same_outside_step [OF after_body_outside [OF assms(1)] op_effect_outside op_range_sector]
    by (simp add: committed_def after_commit_def ops)
qed

section \<open>The contract of the device, and what the protocol guarantees on it\<close>

locale entry_device =
  fixes er :: "'d \<Rightarrow> u32 \<Rightarrow> ('s, unit, 'x) comp"
    and pr :: "'d \<Rightarrow> u32 \<Rightarrow> u8 list \<Rightarrow> ('s, unit, 'y) comp"
    and rd :: "'d \<Rightarrow> u32 \<Rightarrow> nat \<Rightarrow> ('s, u8 list, 'r) comp"
    and good :: "'d \<Rightarrow> ('s \<Rightarrow> mem) \<Rightarrow> bool"
    and rd_err :: "'r \<Rightarrow> bool"
  assumes erase_law: "good d view \<Longrightarrow> base AND 0xFFF = 0 \<Longrightarrow>
      triple (\<lambda>s. view s = V) (er d base)
        (\<lambda>_ s. view s = erased V base 0x1000) (\<lambda>_ s. same_outside (region base 0x1000) V (view s))"
    and program_law: "good d view \<Longrightarrow> length bs \<le> 0x1000 \<Longrightarrow>
      triple (\<lambda>s. view s = V) (pr d a bs)
        (\<lambda>_ s. view s = programmed V a bs) (\<lambda>_ s. same_outside (region a (length bs)) V (view s))"
    and read_law: "good d view \<Longrightarrow>
      triple (\<lambda>s. view s = V) (rd d a n)
        (\<lambda>out s. view s = V \<and> out = slice_at V a n) (\<lambda>e s. view s = V \<and> rd_err e)"
begin

lemma check_read_law:
  assumes "good d view"
  shows "triple (\<lambda>s. view s = V) (check_read (rd d) base n k ok)
     (\<lambda>_ s. view s = V \<and> ok (slice_at V base n))
     (\<lambda>e s. error_step e = k \<and> view s = V \<and> read_failure rd_err e)"
  unfolding check_read_def
proof (rule triple_andthen)
  show "triple (\<lambda>s. view s = V) (map_err (ReadFailed k) (rd d base n))
      (\<lambda>back s. view s = V \<and> back = slice_at V base n)
      (\<lambda>e s. error_step e = k \<and> view s = V \<and> read_failure rd_err e)"
    by (rule triple_map_err, rule triple_conseq [OF read_law [OF assms(1), of V]]) auto
qed (rule triple_reject_if, auto)

lemma program_op_law:
  assumes "good d view" and "op_fits op"
  shows "triple (\<lambda>s. view s = V) (program_op (pr d) base op k)
     (\<lambda>_ s. view s = op_effect base op V)
     (\<lambda>e s. error_step e = k \<and> same_outside (op_range base op) V (view s) \<and> read_failure rd_err e)"
proof (cases op)
  case Op_Erase
  then show ?thesis by (auto simp: program_op_def intro!: triple_throw)
next
  case (Op_Program off len data)
  with assms(2) have len: "length (take (unat len) data) = unat len" "length (take (unat len) data) \<le> 0x1000"
    by simp_all
  show ?thesis
    unfolding Op_Program program_op_def boot_op.case
    by (rule triple_andthen [where R = "\<lambda>_ s. view s = V"], rule triple_panic_if)
       (use assms(2) len in \<open>auto simp: Op_Program
          intro!: triple_map_err triple_conseq [OF program_law [OF assms(1) len(2), of V]]\<close>)
qed

theorem commit_law:
  assumes good: "good d view" and al: "base AND 0xFFF = 0" and fits: "write_fits core wr"
  shows "triple (\<lambda>s. view s = V) (commit_entry core (er d) (pr d) (rd d) wr base)
     (\<lambda>_ s. committed core wr base V (view s))
     (\<lambda>e s. failed_at core wr base V (error_step e) (view s) \<and> read_failure rd_err e)"
proof -
  obtain e b c where ops: "write_ops core wr = (e, b, c)" by (metis prod_cases3)
  with fits have fit: "op_fits b" "op_fits c" by (simp_all add: write_fits_def)
  let ?B = "after_erase base V" and ?C = "after_body core wr base V" and ?D = "after_commit core wr base V"
  let ?E = "\<lambda>e s. failed_at core wr base V (error_step e) (view s) \<and> read_failure rd_err e"
  have eqs: "?C = op_effect base b ?B" "?D = op_effect base c ?C"
    by (simp_all add: after_body_def after_commit_def ops)
  have "triple (\<lambda>s. view s = V) (reject_if (e \<noteq> Op_Erase) (StepFailed 0)) (\<lambda>_ s. view s = V) ?E"
    by (rule triple_reject_if) (simp_all add: failed_at_def ops)
  moreover have "triple (\<lambda>s. view s = V) (map_err (\<lambda>_. StepFailed 0) (er d base)) (\<lambda>_ s. view s = ?B) ?E"
    by (rule triple_map_err, rule triple_conseq [OF erase_law [OF good al, of V]])
       (simp_all add: failed_at_def ops after_erase_def)
  moreover have "triple (\<lambda>s. view s = ?B)
      (check_read (rd d) base (ENTRY_SIZE core) 0 (\<lambda>back. back = BLANK core)) (\<lambda>_ s. view s = ?B) ?E"
    by (rule triple_conseq [OF check_read_law [OF good, of ?B]])
       (simp_all add: failed_at_def ops after_erase_outside)
  moreover have "triple (\<lambda>s. view s = ?B) (program_op (pr d) base b 1) (\<lambda>_ s. view s = ?C) ?E"
    by (rule triple_conseq [OF program_op_law [OF good fit(1), of ?B]])
       (simp_all add: failed_at_def ops eqs)
  moreover have "triple (\<lambda>s. view s = ?C)
      (check_read (rd d) base (ENTRY_SIZE core) 1 (\<lambda>back. back = entry_body core (write_entry wr)))
      (\<lambda>_ s. view s = ?C \<and> body_verified core wr base V) ?E"
    by (rule triple_conseq [OF check_read_law [OF good, of ?C]])
       (simp_all add: failed_at_def ops body_verified_def eqs op_effect_outside fit)
  moreover have "triple (\<lambda>s. view s = ?C \<and> body_verified core wr base V) (program_op (pr d) base c 2)
      (\<lambda>_ s. view s = ?D \<and> body_verified core wr base V) ?E"
    by (subst conj_commute, rule triple_pure, rule triple_conseq [OF program_op_law [OF good fit(2), of ?C]])
       (simp_all add: failed_at_def ops eqs)
  moreover have "triple (\<lambda>s. view s = ?D \<and> body_verified core wr base V)
      (check_read (rd d) base (ENTRY_SIZE core) 2
        (\<lambda>back. back = entry_encode core (write_entry wr) \<and> entry_decode core back = Decoded_Ok (write_entry wr)))
      (\<lambda>_ s. committed core wr base V (view s)) ?E"
    by (subst conj_commute, rule triple_pure, rule triple_conseq [OF check_read_law [OF good, of ?D]])
       (auto simp: failed_at_def ops committed_def eqs op_effect_outside fit)
  ultimately show ?thesis
    unfolding commit_entry_def ops prod.case by (blast intro: triple_andthen)
qed

end

end
