(* ===== verification/Platform.thy ===== *)
theory Platform
  imports Prelude
begin

text \<open>
  The crate \<open>hardware/platform\<close>: the memory geometry of the two chips, which the bootloader
  hands to the image validator.
\<close>

section \<open>Ranges and memory maps\<close>

record range =
  range_start :: u32
  range_end :: u32

definition contains :: "range \<Rightarrow> u32 \<Rightarrow> bool" where
  "contains r a \<longleftrightarrow> range_start r \<le> a \<and> a < range_end r"

definition mk_range :: "u32 \<Rightarrow> u32 \<Rightarrow> range" where
  "mk_range lo hi = \<lparr>range_start = lo, range_end = hi\<rparr>"

record memory_map =
  chip_id :: u16
  drom :: range
  irom :: range
  iram :: range
  dram :: range
  rtc :: range
  sram_alias_offset :: u32
  boot_window :: range
  mmu_page :: u32

definition is_flash_mapped :: "memory_map \<Rightarrow> u32 \<Rightarrow> bool" where
  "is_flash_mapped m addr \<longleftrightarrow> contains (drom m) addr \<or> contains (irom m) addr"

definition esp32c3_BOOT_MEMORY_MAP :: memory_map where
  "esp32c3_BOOT_MEMORY_MAP = \<lparr>
     chip_id = 0x0005,
     drom = mk_range 0x3C000000 0x3C800000,
     irom = mk_range 0x42000000 0x42800000,
     iram = mk_range 0x4037C000 0x403E0000,
     dram = mk_range 0x3FC80000 0x3FCE0000,
     rtc = mk_range 0x50000000 0x50002000,
     sram_alias_offset = 0x00700000,
     boot_window = mk_range 0x3FCCB000 0x3FCE0000,
     mmu_page = 0x10000\<rparr>"

definition esp32s3_BOOT_MEMORY_MAP :: memory_map where
  "esp32s3_BOOT_MEMORY_MAP = \<lparr>
     chip_id = 0x0009,
     drom = mk_range 0x3C000000 0x3D000000,
     irom = mk_range 0x42000000 0x42800000,
     iram = mk_range 0x40370000 0x403E0000,
     dram = mk_range 0x3FC88000 0x3FD00000,
     rtc = mk_range 0x600FE000 0x60100000,
     sram_alias_offset = 0x006F0000,
     boot_window = mk_range 0x3FCC8000 0x3FD00000,
     mmu_page = 0x10000\<rparr>"

section \<open>What the maps promise\<close>

definition disjoint_ranges :: "range \<Rightarrow> range \<Rightarrow> bool" where
  "disjoint_ranges r s \<longleftrightarrow> range_end r \<le> range_start s \<or> range_end s \<le> range_start r"

definition sub_range :: "range \<Rightarrow> range \<Rightarrow> bool" where
  "sub_range r s \<longleftrightarrow> range_start s \<le> range_start r \<and> range_end r \<le> range_end s"

lemma disjoint_ranges_contains:
  "disjoint_ranges r s \<Longrightarrow> contains r a \<Longrightarrow> \<not> contains s a"
  by (auto simp: disjoint_ranges_def contains_def)

lemma sub_range_contains: "sub_range r s \<Longrightarrow> contains r a \<Longrightarrow> contains s a"
  by (auto simp: sub_range_def contains_def)

text \<open>
  A consistent map: the flash windows, the two SRAM windows and the RTC memory do not
  overlap, the bootloader's window is data memory, and the flash windows consist of whole
  MMU pages.
\<close>

definition map_consistent :: "memory_map \<Rightarrow> bool" where
  "map_consistent m \<longleftrightarrow>
     disjoint_ranges (drom m) (irom m) \<and> disjoint_ranges (drom m) (dram m) \<and>
     disjoint_ranges (drom m) (iram m) \<and> disjoint_ranges (irom m) (iram m) \<and>
     disjoint_ranges (irom m) (dram m) \<and> disjoint_ranges (iram m) (dram m) \<and>
     disjoint_ranges (rtc m) (drom m) \<and> disjoint_ranges (rtc m) (irom m) \<and>
     disjoint_ranges (rtc m) (iram m) \<and> disjoint_ranges (rtc m) (dram m) \<and>
     sub_range (boot_window m) (dram m) \<and>
     range_start (drom m) mod mmu_page m = 0 \<and> range_end (drom m) mod mmu_page m = 0 \<and>
     range_start (irom m) mod mmu_page m = 0 \<and> range_end (irom m) mod mmu_page m = 0"

lemmas map_defs = esp32c3_BOOT_MEMORY_MAP_def esp32s3_BOOT_MEMORY_MAP_def mk_range_def

lemma maps_consistent:
  "map_consistent esp32c3_BOOT_MEMORY_MAP" "map_consistent esp32s3_BOOT_MEMORY_MAP"
  by (simp_all add: map_consistent_def disjoint_ranges_def sub_range_def map_defs)

text \<open>The data-bus alias of an instruction-bus range.\<close>

definition data_alias :: "memory_map \<Rightarrow> range \<Rightarrow> range" where
  "data_alias m r = mk_range (range_start r - sram_alias_offset m) (range_end r - sram_alias_offset m)"

end
