(* ===== verification/Bootloader.thy ===== *)
theory Bootloader
  imports Rom_Boot Entry_Commit Platform
begin

text \<open>
  The second-stage bootloader, \<open>bootloader/esp/src/main.rs\<close>: console output, the partition
  table, the \<open>otadata\<close> entries, the commit of a planned entry, the choice of the slot, and
  the load of its image up to the jump.  The release profile sets
  \<open>overflow-checks = false\<close>, so \<open>u32\<close> arithmetic wraps.

  The state \<open>'w boot_st\<close> holds the hardware the ROM routines act on, the RAM the loader
  copies to, and what has been printed.  The decisions (\<open>plan_boot\<close>) and the image validator
  (\<open>image::validate\<close>, \<open>Segment::ram_target\<close>) belong to fibewi and are the fields of the
  parameter \<open>boot_policy\<close>; they reach the machine only through the closures the bootloader
  passes to them, which \<open>policy_laws\<close> states.
\<close>

section \<open>State, errors and the interface of fibewi\<close>

record 'w boot_st =
  dev :: 'w
  ram :: mem
  console :: "u8 list"

datatype boot_error =
    BE_FlashRead u32
  | BE_NoPartitionTable
  | BE_MissingPartition u32
  | BE_Halt u32
  | BE_OtadataWrite nat u32
  | BE_Image
  | BE_Mmu i32

type_synonym ('w, 'a) boot = "('w boot_st, 'a, boot_error) comp"

datatype image_error = IE_Read | IE_BadMagic | IE_BadChip | IE_BadSegmentCount
  | IE_SegmentOutsidePartition | IE_BadLoadRange | IE_Misaligned | IE_OverlapsBootloader
  | IE_BadEntry | IE_Truncated | IE_BadChecksum | IE_HashMissing | IE_BadHash

record segment =
  seg_load :: u32
  seg_len :: u32
  seg_data_offset :: u32

record image =
  img_count :: u32
  img_segments :: "segment list"
  img_entry :: u32

datatype halt = NoImage | NoUsableEntry

datatype boot_choice = Boot_Slot u8 u32 | Boot_Halt halt

type_synonym 'w image_reader = "u32 \<Rightarrow> u8 list \<Rightarrow> 'w boot_st \<Rightarrow> ((unit, unit) res \<times> u8 list) \<times> 'w boot_st"

record ('e, 'w) boot_policy =
  plan_boot :: "u8 list list \<Rightarrow> u8 \<Rightarrow> (u8 \<Rightarrow> ('w, bool) boot) \<Rightarrow>
                ('w, boot_choice \<times> 'e boot_write list) boot"
  validate :: "'w image_reader \<Rightarrow> u32 \<Rightarrow> u32 \<Rightarrow> memory_map \<Rightarrow> ('w boot_st, image, image_error) comp"
  ram_target :: "segment \<Rightarrow> memory_map \<Rightarrow> u32 option"

section \<open>Console\<close>

datatype log_part = L_str string | L_u32 u32

definition hex_digit :: "u32 \<Rightarrow> nat \<Rightarrow> u8" where
  "hex_digit x i =
     (let nibble = ucast (drop_bit ((7 - i) * 4) x AND 0xF) :: u8 in
      if nibble < 10 then 48 + nibble else 97 + nibble - 10)"

definition put_u32 :: "u32 \<Rightarrow> u8 list" where
  "put_u32 x = [48, 120] @ map (hex_digit x) [0..<8]"

fun put_part :: "log_part \<Rightarrow> u8 list" where
  "put_part (L_str s) = map of_char s"
| "put_part (L_u32 x) = put_u32 x"

definition log :: "log_part list \<Rightarrow> ('w boot_st, unit, 'e) comp" where
  "log parts = modify (\<lambda>s. s\<lparr>console := console s @ concat (map put_part parts) @ [13, 10]\<rparr>)"

section \<open>Flash access\<close>

definition on_dev :: "('w, 'a, 'e) comp \<Rightarrow> ('w boot_st, 'a, 'e) comp" where
  "on_dev m = on_field dev (\<lambda>w s. s\<lparr>dev := w\<rparr>) m"

definition read_error :: "u32 \<Rightarrow> flash_error \<Rightarrow> boot_error" where
  "read_error offset e = (case e of FlashRead at \<Rightarrow> BE_FlashRead at | _ \<Rightarrow> BE_FlashRead offset)"

definition boot_flash_read :: "'w rom \<Rightarrow> u32 \<Rightarrow> u8 list \<Rightarrow> ('w, u8 list) boot" where
  "boot_flash_read rom offset out = on_dev (map_err (read_error offset) (flash_read_into rom offset out))"

text \<open>\<open>impl image::Read for RomFlash\<close>: the reader the validator is given.\<close>

definition rom_flash_reader :: "'w rom \<Rightarrow> 'w image_reader" where
  "rom_flash_reader rom offset buf s = (case flash_read rom offset buf (dev s) of
     ((Ok _, out), w) \<Rightarrow> ((Ok (), out), s\<lparr>dev := w\<rparr>)
   | ((Err e, out), w) \<Rightarrow> ((Err (), out), s\<lparr>dev := w\<rparr>)
   | ((Panic, out), w) \<Rightarrow> ((Panic, out), s\<lparr>dev := w\<rparr>))"

definition set_flash_size :: "'w rom \<Rightarrow> ('w, unit) boot" where
  "set_flash_size rom =
     andthen (on_dev (map_err (read_error 0) (set_flash_size_from_header rom))) (\<lambda>sz.
     log [L_str ''boot: flash size '', L_u32 sz])"

definition boot_flash_reinit :: "'w rom \<Rightarrow> ('w, unit) boot" where
  "boot_flash_reinit rom =
     andthen (on_dev (flash_reinit rom)) (\<lambda>chip_size.
     log [L_str ''boot: re-attaching flash, chip_size='', L_u32 chip_size])"

section \<open>The partition table\<close>

definition PARTITION_TABLE_OFFSET :: u32 where "PARTITION_TABLE_OFFSET = 0x8000"
definition PARTITION_TABLE_LEN :: nat where "PARTITION_TABLE_LEN = 0xC00"
definition PARTITION_ENTRY_MAGIC :: u16 where "PARTITION_ENTRY_MAGIC = 0x50AA"
definition TYPE_APP :: u8 where "TYPE_APP = 0x00"
definition TYPE_DATA :: u8 where "TYPE_DATA = 0x01"
definition SUBTYPE_OTA_0 :: u8 where "SUBTYPE_OTA_0 = 0x10"
definition SUBTYPE_OTA_1 :: u8 where "SUBTYPE_OTA_1 = 0x11"
definition SUBTYPE_OTADATA :: u8 where "SUBTYPE_OTADATA = 0x00"
definition SECTOR :: u32 where "SECTOR = 0x1000"
definition SLOT_COUNT :: u8 where "SLOT_COUNT = 2"

lemmas table_consts = PARTITION_TABLE_OFFSET_def PARTITION_TABLE_LEN_def PARTITION_ENTRY_MAGIC_def
  TYPE_APP_def TYPE_DATA_def SUBTYPE_OTA_0_def SUBTYPE_OTA_1_def SUBTYPE_OTADATA_def

record layout =
  otadata :: "u32 \<times> u32"
  apps :: "(u32 \<times> u32) list"

definition le32 :: "u8 list \<Rightarrow> nat \<Rightarrow> u32" where
  "le32 b at = from_le [b ! at, b ! (at + 1), b ! (at + 2), b ! (at + 3)]"

definition magic_of :: "u8 list \<Rightarrow> u16" where
  "magic_of b = from_le [b ! 0, b ! 1]"

type_synonym found = "(u32 \<times> u32) option"

text \<open>The loop over the 32-byte entries, with its \<open>break\<close> at the first other magic.\<close>

fun scan_entries :: "u8 list list \<Rightarrow> found \<times> found \<times> found \<Rightarrow> found \<times> found \<times> found" where
  "scan_entries [] acc = acc"
| "scan_entries (entry # rest) (od, ota_0, ota_1) =
     (if magic_of entry \<noteq> PARTITION_ENTRY_MAGIC then (od, ota_0, ota_1)
      else let found = Some (le32 entry 4, le32 entry 8) in
        if (entry ! 2, entry ! 3) = (TYPE_DATA, SUBTYPE_OTADATA) then scan_entries rest (found, ota_0, ota_1)
        else if (entry ! 2, entry ! 3) = (TYPE_APP, SUBTYPE_OTA_0) then scan_entries rest (od, found, ota_1)
        else if (entry ! 2, entry ! 3) = (TYPE_APP, SUBTYPE_OTA_1) then scan_entries rest (od, ota_0, found)
        else scan_entries rest (od, ota_0, ota_1))"

definition layout_of_table :: "u8 list \<Rightarrow> ('s, layout, boot_error) comp" where
  "layout_of_table table =
     andthen (reject_if (magic_of table \<noteq> PARTITION_ENTRY_MAGIC) BE_NoPartitionTable) (\<lambda>_.
     case scan_entries (chunks_exact 32 table) (None, None, None) of (od, ota_0, ota_1) \<Rightarrow>
     andthen (ok_or (BE_MissingPartition 1) od) (\<lambda>od.
     andthen (reject_if (snd od < 2 * SECTOR) (BE_MissingPartition 1)) (\<lambda>_.
     andthen (ok_or (BE_MissingPartition 2) ota_0) (\<lambda>a0.
     andthen (ok_or (BE_MissingPartition 3) ota_1) (\<lambda>a1.
     return \<lparr>otadata = od, apps = [a0, a1]\<rparr>)))))"

definition read_layout :: "'w rom \<Rightarrow> ('w, layout) boot" where
  "read_layout rom =
     andthen (attempt (boot_flash_read rom PARTITION_TABLE_OFFSET (replicate PARTITION_TABLE_LEN 0))) (\<lambda>r.
     andthen (case r of
         Inr table \<Rightarrow> return table
       | Inl e \<Rightarrow> andthen (boot_flash_reinit rom) (\<lambda>_.
                  boot_flash_read rom PARTITION_TABLE_OFFSET (replicate PARTITION_TABLE_LEN 0))) (\<lambda>table.
     layout_of_table table))"

section \<open>The otadata entries\<close>

definition read_otadata :: "'e boot_core \<Rightarrow> 'w rom \<Rightarrow> layout \<Rightarrow> ('w, u8 list list) boot" where
  "read_otadata core rom lay =
     collect [0, 1] (\<lambda>i. boot_flash_read rom (fst (otadata lay) + of_nat i * SECTOR) (BLANK core))"

definition rom_program :: "'w rom \<Rightarrow> u32 \<Rightarrow> u8 list \<Rightarrow> ('w, bool) boot" where
  "rom_program rom at data =
     andthen (attempt (on_dev (flash_program rom at data))) (\<lambda>r. return (case r of Inl _ \<Rightarrow> False | Inr _ \<Rightarrow> True))"

text \<open>
  \<open>execute\<close>, with its read-back after every command.  The buffer \<open>back\<close> is filled whole by
  each successful read, so every read gets a fresh one here.
\<close>

definition execute :: "'e boot_core \<Rightarrow> 'w rom \<Rightarrow> 'e boot_write \<Rightarrow> layout \<Rightarrow> ('w, unit) boot" where
  "execute core rom wr lay =
     (let base = fst (otadata lay) + ucast (write_sector wr) * SECTOR;
          fail = (\<lambda>step. BE_OtadataWrite step base);
          read_back = boot_flash_read rom base (replicate (ENTRY_SIZE core) 0)
      in case write_ops core wr of (erase, body, commit) \<Rightarrow>
      andthen (is_err (on_dev (flash_unlock rom))) (\<lambda>bad. andthen (reject_if bad (fail 0)) (\<lambda>_.
      andthen (reject_if (erase \<noteq> Op_Erase) (fail 0)) (\<lambda>_.
      andthen (is_err (on_dev (flash_erase_sector rom (base div SECTOR)))) (\<lambda>bad. andthen (reject_if bad (fail 0)) (\<lambda>_.
      andthen read_back (\<lambda>back.
      andthen (reject_if (back \<noteq> BLANK core) (fail 0)) (\<lambda>_.
      andthen (case body of Op_Erase \<Rightarrow> throw (fail 1)
        | Op_Program offset len data \<Rightarrow>
            andthen (panic_if (length data < unat len)) (\<lambda>_.
            andthen (rom_program rom (base + ucast offset) (take (unat len) data)) (\<lambda>ok.
            reject_if (\<not> ok) (fail 1)))) (\<lambda>_.
      andthen read_back (\<lambda>back.
      andthen (reject_if (back \<noteq> entry_body core (write_entry wr)) (fail 1)) (\<lambda>_.
      andthen (case commit of Op_Erase \<Rightarrow> throw (fail 2)
        | Op_Program offset len data \<Rightarrow>
            andthen (panic_if (length data < unat len)) (\<lambda>_.
            andthen (rom_program rom (base + ucast offset) (take (unat len) data)) (\<lambda>ok.
            reject_if (\<not> ok) (fail 2)))) (\<lambda>_.
      andthen read_back (\<lambda>back.
      reject_if (back \<noteq> entry_encode core (write_entry wr) \<or>
                 entry_decode core back \<noteq> Decoded_Ok (write_entry wr)) (fail 2))))))))))))))"

section \<open>Loading an image\<close>

text \<open>The copy loop of \<open>load\<close>, 256 bytes at a time; \<open>copied\<close> never exceeds \<open>seg.len\<close>.\<close>

function copy_segment :: "'w rom \<Rightarrow> segment \<Rightarrow> u32 \<Rightarrow> nat \<Rightarrow> ('w, unit) boot" where
  "copy_segment rom seg target copied s =
     (if copied < unat (seg_len seg) then
        let n = min (unat (seg_len seg) - copied) 256 in
        andthen (boot_flash_read rom (seg_data_offset seg + of_nat copied) (replicate n 0)) (\<lambda>chunk.
        andthen (modify (\<lambda>s. s\<lparr>ram := stored (ram s) (target + of_nat copied) chunk\<rparr>)) (\<lambda>_.
        copy_segment rom seg target (copied + n))) s
      else (Ok (), s))"
  by pat_completeness auto
termination
  by (relation "measure (\<lambda>(rom, seg, target, copied, s). unat (seg_len seg) - copied)") auto

declare copy_segment.simps [simp del]

definition copy_if_ram :: "('e, 'w) boot_policy \<Rightarrow> 'w rom \<Rightarrow> memory_map \<Rightarrow> segment \<Rightarrow> ('w, unit) boot" where
  "copy_if_ram pol rom m seg = (case ram_target pol seg m of
     None \<Rightarrow> return () | Some target \<Rightarrow> copy_segment rom seg target 0)"

definition map_vaddr :: "memory_map \<Rightarrow> segment \<Rightarrow> u32" where
  "map_vaddr m seg = seg_load seg AND NOT (mmu_page m - 1)"

definition map_paddr :: "memory_map \<Rightarrow> segment \<Rightarrow> u32" where
  "map_paddr m seg = seg_data_offset seg AND NOT (mmu_page m - 1)"

definition map_pages :: "memory_map \<Rightarrow> segment \<Rightarrow> u32" where
  "map_pages m seg = word_div_ceil (seg_len seg + (seg_load seg - map_vaddr m seg)) (mmu_page m)"

definition map_if_flash :: "'w rom \<Rightarrow> memory_map \<Rightarrow> segment \<Rightarrow> ('w, unit) boot" where
  "map_if_flash rom m seg =
     (let is_drom = contains (drom m) (seg_load seg) in
      if \<not> (is_drom \<or> contains (irom m) (seg_load seg)) then return ()
      else
        let vaddr = map_vaddr m seg; paddr = map_paddr m seg; pages = map_pages m seg in
        andthen (on_dev (if is_drom then map_drom rom vaddr paddr pages else map_irom rom vaddr paddr pages)) (\<lambda>rc.
        andthen (log [L_str ''boot: map '', L_u32 vaddr, L_str '' <- flash '', L_u32 paddr,
                      L_str '' pages='', L_u32 pages, L_str '' rc='', L_u32 rc]) (\<lambda>_.
        reject_if (rc \<noteq> 0) (BE_Mmu rc))))"

definition app_of :: "layout \<Rightarrow> u8 \<Rightarrow> ('w, u32 \<times> u32) boot" where
  "app_of lay slot = andthen (panic_if (length (apps lay) \<le> unat slot)) (\<lambda>_. return (apps lay ! unat slot))"

text \<open>
  \<open>load\<close> ends in the jump \<open>entry()\<close>, which does not return: the model returns the address it
  jumps to.
\<close>

definition memory_map_of :: "chip \<Rightarrow> memory_map" where
  "memory_map_of c = (case c of Esp32c3 \<Rightarrow> esp32c3_BOOT_MEMORY_MAP | Esp32s3 \<Rightarrow> esp32s3_BOOT_MEMORY_MAP)"

text \<open>\<open>load\<close> after the validation: copy the RAM segments, map the flash segments, jump.\<close>

definition load_image :: "('e, 'w) boot_policy \<Rightarrow> 'w rom \<Rightarrow> memory_map \<Rightarrow> image \<Rightarrow> ('w, u32) boot" where
  "load_image pol rom m img =
     (let segs = filter (\<lambda>s. 0 < seg_len s) (img_segments img) in
      andthen (log [L_str ''boot: image ok, segments='', L_u32 (img_count img),
                    L_str '' entry='', L_u32 (img_entry img)]) (\<lambda>_.
      andthen (for_each segs (copy_if_ram pol rom m)) (\<lambda>_.
      andthen (on_dev (cache_begin_mapping rom)) (\<lambda>autoload.
      andthen (for_each segs (map_if_flash rom m)) (\<lambda>_.
      andthen (on_dev (cache_finish_mapping rom autoload)) (\<lambda>_.
      andthen (log [L_str ''boot: jump '', L_u32 (img_entry img)]) (\<lambda>_.
      andthen (on_dev (delay_us rom 50000)) (\<lambda>_.
      return (img_entry img)))))))))"

definition load :: "chip \<Rightarrow> ('e, 'w) boot_policy \<Rightarrow> 'w rom \<Rightarrow> layout \<Rightarrow> u8 \<Rightarrow> ('w, u32) boot" where
  "load c pol rom lay slot =
     andthen (app_of lay slot) (\<lambda>part.
     andthen (map_err (\<lambda>_. BE_Image)
       (validate pol (rom_flash_reader rom) (fst part) (snd part) (memory_map_of c))) (\<lambda>image.
     load_image pol rom (memory_map_of c) image))"

section \<open>Booting\<close>

definition image_error_code :: "image_error \<Rightarrow> u32" where
  "image_error_code e = (case e of
     IE_Read \<Rightarrow> 1 | IE_BadMagic \<Rightarrow> 2 | IE_BadChip \<Rightarrow> 3 | IE_BadSegmentCount \<Rightarrow> 4
   | IE_SegmentOutsidePartition \<Rightarrow> 5 | IE_BadLoadRange \<Rightarrow> 6 | IE_Misaligned \<Rightarrow> 7
   | IE_OverlapsBootloader \<Rightarrow> 8 | IE_BadEntry \<Rightarrow> 9 | IE_Truncated \<Rightarrow> 10 | IE_BadChecksum \<Rightarrow> 11
   | IE_HashMissing \<Rightarrow> 12 | IE_BadHash \<Rightarrow> 13)"

definition image_ok :: "chip \<Rightarrow> ('e, 'w) boot_policy \<Rightarrow> 'w rom \<Rightarrow> layout \<Rightarrow> u8 \<Rightarrow> ('w, bool) boot" where
  "image_ok c pol rom lay slot =
     andthen (app_of lay slot) (\<lambda>part.
     andthen (attempt (validate pol (rom_flash_reader rom) (fst part) (snd part) (memory_map_of c))) (\<lambda>r.
     case r of
       Inr _ \<Rightarrow> return True
     | Inl e \<Rightarrow> andthen (log [L_str ''boot: slot '', L_u32 (ucast slot),
                              L_str '' image refused, reason '', L_u32 (image_error_code e)]) (\<lambda>_.
                return False)))"

definition chosen_slot :: "boot_choice \<Rightarrow> ('w, u8 \<times> u32) boot" where
  "chosen_slot ch = (case ch of
     Boot_Slot slot sq \<Rightarrow> return (slot, sq)
   | Boot_Halt NoImage \<Rightarrow> throw (BE_Halt 1)
   | Boot_Halt NoUsableEntry \<Rightarrow> throw (BE_Halt 2))"

definition perform_write :: "'e boot_core \<Rightarrow> 'w rom \<Rightarrow> layout \<Rightarrow> 'e boot_write \<Rightarrow> ('w, unit) boot" where
  "perform_write core rom lay wr =
     andthen (log [L_str ''boot: otadata write sector='', L_u32 (ucast (write_sector wr)),
                   L_str '' seq='', L_u32 (entry_seq core (write_entry wr)),
                   L_str '' state='', L_u32 (entry_state core (write_entry wr))]) (\<lambda>_.
     execute core rom wr lay)"

definition boot :: "chip \<Rightarrow> 'e boot_core \<Rightarrow> ('e, 'w) boot_policy \<Rightarrow> 'w rom \<Rightarrow> ('w, u32) boot" where
  "boot c core pol rom =
     andthen (set_flash_size rom) (\<lambda>_.
     andthen (read_layout rom) (\<lambda>lay.
     andthen (log [L_str ''boot: otadata at '', L_u32 (fst (otadata lay)),
                   L_str '' ota_0 '', L_u32 (fst (apps lay ! 0)),
                   L_str '' ota_1 '', L_u32 (fst (apps lay ! 1))]) (\<lambda>_.
     andthen (read_otadata core rom lay) (\<lambda>entries.
     andthen (plan_boot pol entries SLOT_COUNT (image_ok c pol rom lay)) (\<lambda>plan.
     andthen (chosen_slot (fst plan)) (\<lambda>chosen.
     andthen (log [L_str ''boot: plan slot='', L_u32 (ucast (fst chosen)), L_str '' seq='', L_u32 (snd chosen)]) (\<lambda>_.
     andthen (for_each (snd plan) (perform_write core rom lay)) (\<lambda>_.
     load c pol rom lay (fst chosen)))))))))"

definition report :: "boot_error \<Rightarrow> ('w boot_st, unit, 'e) comp" where
  "report e = (case e of
     BE_FlashRead at \<Rightarrow> log [L_str ''boot: FAILED flash read at '', L_u32 at]
   | BE_NoPartitionTable \<Rightarrow> log [L_str ''boot: FAILED no partition table'']
   | BE_MissingPartition which \<Rightarrow> log [L_str ''boot: FAILED missing partition '', L_u32 which]
   | BE_Halt why \<Rightarrow> log [L_str ''boot: HALT, nothing safe to boot, reason '', L_u32 why]
   | BE_OtadataWrite step at \<Rightarrow> log [L_str ''boot: FAILED otadata write step '', L_u32 (of_nat step),
                                      L_str '' at '', L_u32 at]
   | BE_Image \<Rightarrow> log [L_str ''boot: FAILED image no longer validates'']
   | BE_Mmu rc \<Rightarrow> log [L_str ''boot: FAILED MMU rc '', L_u32 rc])"

text \<open>
  \<open>main\<close>: it either jumps to an application or spins for ever, after its report or, in the
  panic handler, after \<open>boot: PANIC\<close>.  \<open>init\<close> is \<open>esp_hal::init\<close> and \<open>version\<close> the crate version.
\<close>

datatype boot_end = Jumped u32 | Spinning

definition boot_main ::
  "chip \<Rightarrow> 'e boot_core \<Rightarrow> ('e, 'w) boot_policy \<Rightarrow> 'w rom \<Rightarrow> ('w \<Rightarrow> 'w) \<Rightarrow> string \<Rightarrow>
   'w boot_st \<Rightarrow> boot_end \<times> 'w boot_st" where
  "boot_main c core pol rom init version s =
     (case andthen (on_dev (clear_flashboot_watchdogs c rom)) (\<lambda>(tg0, rtcw).
           andthen (on_dev (modify init)) (\<lambda>_.
           andthen (log [L_str (CHR 0x0D # CHR 0x0A # ''espbewi-bootloader ''), L_str version]) (\<lambda>_.
           andthen (log [L_str ''boot: wdt tg0='', L_u32 tg0, L_str '' rtc='', L_u32 rtcw,
                         L_str '' (flashboot bits cleared)'']) (\<lambda>_.
           andthen (attempt (boot c core pol rom)) (\<lambda>r.
           case r of Inr entry \<Rightarrow> return (Jumped entry)
                   | Inl e \<Rightarrow> andthen (report e) (\<lambda>_. return Spinning)))))) s of
       (Ok r, s') \<Rightarrow> (r, s')
     | (Err (e :: unit), s') \<Rightarrow> (Spinning, s')
     | (Panic, s') \<Rightarrow> (Spinning, snd ((log [L_str ''boot: PANIC''] :: ('w boot_st, unit, unit) comp) s')))"

end
