(* ===== verification/Boot_Commit.thy ===== *)
theory Boot_Commit
  imports Bootloader
begin

text \<open>
  The bootloader's \<open>execute\<close> against the commit protocol: it is the protocol over the ROM
  operations (a refinement), those operations satisfy the device contract (an
  interpretation of \<open>entry_device\<close>), so what the protocol guarantees holds of \<open>execute\<close>.
\<close>

section \<open>The ROM operations as a device\<close>

definition boot_erase :: "'w rom \<Rightarrow> u32 \<Rightarrow> ('w boot_st, unit, flash_error) comp" where
  "boot_erase rom base = on_dev (flash_erase_sector rom (base div SECTOR))"

definition boot_program :: "'w rom \<Rightarrow> u32 \<Rightarrow> u8 list \<Rightarrow> ('w boot_st, unit, flash_error) comp" where
  "boot_program rom a bs = on_dev (flash_program rom a bs)"

definition boot_read :: "'w rom \<Rightarrow> u32 \<Rightarrow> nat \<Rightarrow> ('w, u8 list) boot" where
  "boot_read rom a n = boot_flash_read rom a (replicate n 0)"

definition rom_good :: "'w rom \<Rightarrow> ('w boot_st \<Rightarrow> mem) \<Rightarrow> bool" where
  "rom_good rom view \<longleftrightarrow> (\<exists>v. view = (\<lambda>s. v (dev s)) \<and> rom_flash_laws rom v)"

lemma triple_on_dev:
  assumes "triple (\<lambda>w. v w = V) m (\<lambda>a w. Q a (v w)) (\<lambda>e w. E e (v w))"
  shows "triple (\<lambda>s. v (dev s) = V) (on_dev m) (\<lambda>a s. Q a (v (dev s))) (\<lambda>e s. E e (v (dev s)))"
  unfolding on_dev_def
  by (rule triple_on_field) (use assms in \<open>auto simp: triple_def split: prod.splits res.splits\<close>)

lemma on_dev_map_err: "on_dev (map_err f m) = map_err f (on_dev m)"
  by (rule ext) (simp add: on_dev_def on_field_def map_err_def split: prod.splits res.splits)

lemma keeps_on_dev [keep]: "keeps ram (on_dev m)" "keeps console (on_dev m)"
  unfolding on_dev_def by (rule keeps_on_field, simp)+

lemma keeps_boot_flash_read [keep]: "keeps ram (boot_flash_read rom a b)" "keeps console (boot_flash_read rom a b)"
  unfolding boot_flash_read_def by (rule keep)+

lemma boot_flash_read_triple:
  assumes "rom_flash_laws rom v"
  shows "triple (\<lambda>s. v (dev s) = V) (boot_flash_read rom a buf)
     (\<lambda>out s. v (dev s) = V \<and> out = slice_at V a (length buf))
     (\<lambda>e s. v (dev s) = V \<and> (\<exists>d < length buf. e = BE_FlashRead ((a + of_nat d) AND NOT 3)))"
  unfolding boot_flash_read_def
  by (rule triple_on_dev [where Q = "\<lambda>out U. U = V \<and> out = slice_at V a (length buf)"
        and E = "\<lambda>e U. U = V \<and> (\<exists>d < length buf. e = BE_FlashRead ((a + of_nat d) AND NOT 3))"],
      rule triple_map_err, rule triple_conseq [OF flash_read_into_triple [OF assms, of V]])
     (auto simp: read_error_def)

definition is_flash_read_error :: "boot_error \<Rightarrow> bool" where
  "is_flash_read_error e \<longleftrightarrow> (\<exists>a. e = BE_FlashRead a)"

interpretation boot_dev: entry_device boot_erase boot_program boot_read rom_good is_flash_read_error
proof
  fix rom :: "'w rom" and view V and base :: u32
  assume "rom_good rom view" and al: "base AND 0xFFF = 0"
  then obtain v where v: "view = (\<lambda>s. v (dev s))" "rom_flash_laws rom v" by (auto simp: rom_good_def)
  have "base div SECTOR * 0x1000 = base" using sector_of_aligned [OF al] by (simp add: SECTOR_def)
  then show "triple (\<lambda>s. view s = V) (boot_erase rom base)
      (\<lambda>_ s. view s = erased V base 0x1000) (\<lambda>_ s. same_outside (region base 0x1000) V (view s))"
    unfolding boot_erase_def v(1)
    using triple_on_dev [OF flash_erase_sector_triple [OF v(2), of V "base div SECTOR"]] by simp
next
  fix rom :: "'w rom" and view V and bs :: "u8 list" and a
  assume "rom_good rom view" and len: "length bs \<le> 0x1000"
  then obtain v where v: "view = (\<lambda>s. v (dev s))" "rom_flash_laws rom v" by (auto simp: rom_good_def)
  show "triple (\<lambda>s. view s = V) (boot_program rom a bs)
      (\<lambda>_ s. view s = programmed V a bs) (\<lambda>_ s. same_outside (region a (length bs)) V (view s))"
    unfolding boot_program_def v(1)
    by (rule triple_on_dev, rule flash_program_triple) (use v(2) len in auto)
next
  fix rom :: "'w rom" and view V a n
  assume "rom_good rom view"
  then obtain v where v: "view = (\<lambda>s. v (dev s))" "rom_flash_laws rom v" by (auto simp: rom_good_def)
  show "triple (\<lambda>s. view s = V) (boot_read rom a n)
      (\<lambda>out s. view s = V \<and> out = slice_at V a n) (\<lambda>e s. view s = V \<and> is_flash_read_error e)"
    unfolding boot_read_def v(1)
    by (rule triple_conseq [OF boot_flash_read_triple [OF v(2), of V]]) (auto simp: is_flash_read_error_def)
qed

section \<open>The refinement\<close>

definition boot_commit_error :: "u32 \<Rightarrow> boot_error commit_error \<Rightarrow> boot_error" where
  "boot_commit_error base e = (case e of StepFailed k \<Rightarrow> BE_OtadataWrite k base | ReadFailed k r \<Rightarrow> r)"

lemma rom_program_reject:
  "andthen (rom_program rom a bs) (\<lambda>ok. reject_if (\<not> ok) e) = map_err (\<lambda>_. e) (boot_program rom a bs)"
  by (rule ext) (simp add: rom_program_def boot_program_def combinator_defs split: prod.splits res.splits)

lemma execute_refines_commit:
  "execute core rom wr lay =
     (let base = fst (otadata lay) + ucast (write_sector wr) * SECTOR in
      andthen (map_err (\<lambda>_. BE_OtadataWrite 0 base) (on_dev (flash_unlock rom))) (\<lambda>_.
      map_err (boot_commit_error base)
        (commit_entry core (boot_erase rom) (boot_program rom) (boot_read rom) wr base)))"
proof -
  obtain e b c where ops: "write_ops core wr = (e, b, c)" by (metis prod_cases3)
  have eq: "(x \<noteq> y \<or> d x \<noteq> z) = (\<not> (x = y \<and> d x = z))" for x :: "u8 list" and y d and z :: "'e decoded"
    by blast
  show ?thesis
    by (cases b; cases c)
       (simp_all add: execute_def commit_entry_def program_op_def check_read_def ops Let_def monad
          boot_commit_error_def rom_program_reject boot_read_def boot_erase_def eq)
qed

section \<open>What execute guarantees\<close>

definition write_base :: "layout \<Rightarrow> 'e boot_write \<Rightarrow> u32" where
  "write_base lay wr = fst (otadata lay) + ucast (write_sector wr) * SECTOR"

definition execute_failed ::
  "'e boot_core \<Rightarrow> 'e boot_write \<Rightarrow> u32 \<Rightarrow> mem \<Rightarrow> boot_error \<Rightarrow> mem \<Rightarrow> bool" where
  "execute_failed core wr base V e V' \<longleftrightarrow>
     (\<exists>k. failed_at core wr base V k V' \<and> (e = BE_OtadataWrite k base \<or> is_flash_read_error e))"

lemma execute_triple:
  assumes laws: "rom_flash_laws rom v" and al: "write_base lay wr AND 0xFFF = 0"
    and fits: "write_fits core wr"
  shows "triple (\<lambda>s. v (dev s) = V) (execute core rom wr lay)
     (\<lambda>_ s. committed core wr (write_base lay wr) V (v (dev s)))
     (\<lambda>e s. execute_failed core wr (write_base lay wr) V e (v (dev s)))"
proof -
  let ?base = "write_base lay wr"
  have good: "rom_good rom (\<lambda>s. v (dev s))" using laws by (auto simp: rom_good_def)
  have unlock: "triple (\<lambda>s. v (dev s) = V) (map_err (\<lambda>_. BE_OtadataWrite 0 ?base) (on_dev (flash_unlock rom)))
      (\<lambda>_ s. v (dev s) = V) (\<lambda>e s. execute_failed core wr ?base V e (v (dev s)))"
    by (rule triple_map_err, rule triple_conseq [OF triple_on_dev [OF flash_unlock_triple [OF laws, of V]]])
       (auto simp: execute_failed_def failed_at_def split: prod.splits intro!: exI [of _ 0])
  have commit: "triple (\<lambda>s. v (dev s) = V)
      (map_err (boot_commit_error ?base)
        (commit_entry core (boot_erase rom) (boot_program rom) (boot_read rom) wr ?base))
      (\<lambda>_ s. committed core wr ?base V (v (dev s)))
      (\<lambda>e s. execute_failed core wr ?base V e (v (dev s)))"
  proof (rule triple_map_err, rule triple_conseq [OF boot_dev.commit_law [OF good al fits, of V]])
    fix e s
    assume "failed_at core wr ?base V (error_step e) (v (dev s)) \<and> read_failure is_flash_read_error e"
    then show "execute_failed core wr ?base V (boot_commit_error ?base e) (v (dev s))"
      by (cases e) (auto simp: execute_failed_def boot_commit_error_def)
  qed
  show ?thesis
    unfolding execute_refines_commit Let_def write_base_def [symmetric]
    by (rule triple_andthen [OF unlock commit])
qed

lemma execute_failed_outside:
  assumes "write_fits core wr" and "execute_failed core wr base V e V'"
  shows "same_outside (region base 0x1000) V V'"
  using assms by (auto simp: execute_failed_def dest: failed_at_outside)

section \<open>The sectors a write reaches\<close>

text \<open>
  The 4 KiB sectors that \<open>n\<close> bytes at \<open>off\<close> lie in, for whole sectors \<open>n\<close>.  The bootloader erases the
  sector number \<open>base / SECTOR\<close> and does not check the alignment of the otadata partition: when it is not
  aligned, as the partition table tool of ESP-IDF does not allow, one more sector is reached.
\<close>

definition touched :: "u32 \<Rightarrow> nat \<Rightarrow> u32 set" where
  "touched off n = (if off AND 0xFFF = 0 then region off n else region (off div SECTOR * SECTOR) (n + 0x1000))"

lemma low_bits: "(x :: u32) AND 0xFFF = x mod 0x1000"
proof -
  have "x AND mask 12 = take_bit 12 x" by (simp add: take_bit_eq_mask)
  moreover have "mask 12 = (0xFFF :: u32)" by (simp add: mask_eq_exp_minus_1)
  ultimately show ?thesis by (simp add: take_bit_eq_mod)
qed

lemma sector_floor: "off div SECTOR * SECTOR = off - (off AND 0xFFF)" "unat (off AND 0xFFF :: u32) < 0x1000"
proof -
  have "off div 0x1000 * 0x1000 + off mod 0x1000 = off" by (rule div_mult_mod_eq)
  then show "off div SECTOR * SECTOR = off - (off AND 0xFFF)" by (simp add: SECTOR_def low_bits algebra_simps)
  show "unat (off AND 0xFFF) < 0x1000" by (simp add: low_bits unat_mod)
qed

lemma sector_offset_add:
  assumes "d mod 0x1000 = 0" shows "(off + of_nat d :: u32) AND 0xFFF = off AND 0xFFF"
proof -
  have "unat (off + of_nat d) = (unat off + d) mod 2 ^ 32"
    by (simp add: unat_word_ariths unat_of_nat mod_add_right_eq)
  moreover have "(unat off + d) mod 2 ^ 32 mod 0x1000 = (unat off + d) mod 0x1000"
    by (rule mod_mod_cancel) simp
  moreover have "(unat off + d) mod 0x1000 = unat off mod 0x1000"
    using assms mod_add_right_eq [of "unat off" d "0x1000"] by simp
  ultimately have "unat ((off + of_nat d) mod 0x1000) = unat (off mod 0x1000)" by (simp add: unat_mod)
  then show ?thesis unfolding low_bits by (simp only: word_unat_eq_iff)
qed

lemma region_touched: "region off n \<subseteq> touched off n"
proof (cases "off AND 0xFFF = 0")
  case False
  have "off = off div SECTOR * SECTOR + (off AND 0xFFF)" by (simp add: sector_floor)
  moreover have "region (off div SECTOR * SECTOR + (off AND 0xFFF)) n \<subseteq> region (off div SECTOR * SECTOR) (n + 0x1000)"
    by (rule region_subset) (use sector_floor(2) [of off] in simp)
  ultimately show ?thesis using False by (simp add: touched_def)
qed (simp add: touched_def)

lemma sector_touched: "region (off div SECTOR * SECTOR) 0x1000 \<subseteq> touched off 0x1000"
  using region_mono [of "0x1000" "0x1000 + 0x1000" "off div SECTOR * SECTOR"] by (auto simp: touched_def sector_floor)

lemma touched_part:
  assumes "d + n \<le> m" and "d mod 0x1000 = 0" and "d < 2 ^ 32"
  shows "touched (off + of_nat d) n \<subseteq> touched off m"
proof -
  note low = sector_offset_add [OF assms(2), of off]
  have d: "unat (of_nat d :: u32) = d" using assms(3) by (intro unat_of_nat_usize) (simp add: usize_limit_def)
  have "region (off + of_nat d) n \<subseteq> region off m" by (rule region_subset) (use d assms(1) in simp)
  moreover have "region (off - (off AND 0xFFF) + of_nat d) (n + 0x1000) \<subseteq> region (off - (off AND 0xFFF)) (m + 0x1000)"
    by (rule region_subset) (use d assms(1) in simp)
  moreover have "off - (off AND 0xFFF) + of_nat d = off + of_nat d - (off AND 0xFFF)" by simp
  ultimately show ?thesis unfolding touched_def sector_floor(1) low by simp
qed

text \<open>A computation that changes flash only in \<open>A\<close>, and does not panic.\<close>

definition framed :: "u32 set \<Rightarrow> ('w \<Rightarrow> mem) \<Rightarrow> ('w boot_st, 'a, 'e) comp \<Rightarrow> bool" where
  "framed A v m \<longleftrightarrow> (\<forall>V. triple (\<lambda>s. same_outside A V (v (dev s))) m
     (\<lambda>_ s. same_outside A V (v (dev s))) (\<lambda>_ s. same_outside A V (v (dev s))))"

lemma framedI:
  assumes "\<And>V. triple (\<lambda>s. v (dev s) = V) m (\<lambda>_ s. same_outside A V (v (dev s))) (\<lambda>_ s. same_outside A V (v (dev s)))"
  shows "framed A v m"
  unfolding framed_def
proof (intro allI tripleI)
  fix V and s :: "'a boot_st" assume s: "same_outside A V (v (dev s))"
  from tripleD [OF assms, of s] show "case m s of (Ok a, s) \<Rightarrow> same_outside A V (v (dev s))
    | (Err e, s) \<Rightarrow> same_outside A V (v (dev s)) | (Panic, s) \<Rightarrow> False"
    by (auto intro: same_outside_trans [OF s] split: prod.splits res.splits)
qed

lemma framed_andthen: "framed A v m \<Longrightarrow> (\<And>a. framed A v (k a)) \<Longrightarrow> framed A v (andthen m k)"
  by (auto simp: framed_def intro!: triple_andthen)

lemma framed_mono:
  assumes "framed A v m" and "A \<subseteq> B" shows "framed B v m"
proof (rule framedI)
  show "triple (\<lambda>s. v (dev s) = V) m (\<lambda>_ s. same_outside B V (v (dev s))) (\<lambda>_ s. same_outside B V (v (dev s)))" for V
    using assms(1) [unfolded framed_def, rule_format, of V]
    by (rule triple_conseq) (use assms(2) in \<open>auto intro: same_outside_mono\<close>)
qed

lemma framed_map_err: "framed A v m \<Longrightarrow> framed A v (map_err f m)"
  by (auto simp: framed_def intro: triple_map_err)

lemma framed_atoms: "framed A v (throw e)" "framed A v (reject_if b e)" "\<not> c \<Longrightarrow> framed A v (panic_if c)"
  by (auto simp: framed_def intro: wp)

text \<open>Whatever the alignment, \<open>execute\<close> keeps to the sectors its entry lies in.\<close>

lemma execute_framed:
  assumes laws: "rom_flash_laws rom v" and fits: "write_fits core wr"
  shows "framed (touched (write_base lay wr) 0x1000) v (execute core rom wr lay)"
proof -
  let ?b = "write_base lay wr" and ?A = "touched (write_base lay wr) 0x1000"
  obtain e b c where ops: "write_ops core wr = (e, b, c)" by (metis prod_cases3)
  with fits have fit: "op_fits b" "op_fits c" by (simp_all add: write_fits_def)
  have unlock: "framed ?A v (on_dev (flash_unlock rom))"
    by (rule framedI, rule triple_conseq [OF triple_on_dev [OF flash_unlock_triple [OF laws]]]) auto
  have read: "framed ?A v (boot_read rom a n)" for a n
    unfolding boot_read_def by (rule framedI, rule triple_conseq [OF boot_flash_read_triple [OF laws]]) auto
  have erase: "framed ?A v (boot_erase rom ?b)"
    unfolding boot_erase_def
    by (rule framedI, rule triple_conseq [OF triple_on_dev [OF flash_erase_sector_triple [OF laws]]])
       (use sector_touched [of ?b] in \<open>auto simp: SECTOR_def intro: same_outside_erased same_outside_mono\<close>)
  have program: "framed ?A v (program_op (boot_program rom) ?b op k)" if "op_fits op" for op k
  proof (cases op)
    case (Op_Program off len data)
    have len: "unat len \<le> length data" "unat off + unat len \<le> 0x1000" using that Op_Program by simp_all
    have "region (?b + ucast off) (unat len) \<subseteq> region ?b 0x1000" by (rule region_subset) (use len(2) in simp)
    then have sub: "region (?b + ucast off) (unat len) \<subseteq> ?A" using region_touched [of ?b "0x1000"] by blast
    have "framed ?A v (boot_program rom (?b + ucast off) (take (unat len) data))"
      unfolding boot_program_def
      by (rule framedI, rule triple_conseq [OF triple_on_dev [OF flash_program_triple [OF laws]]])
         (use sub len same_outside_programmed [of "?b + ucast off" "take (unat len) data" ?A] in \<open>auto simp: min_absorb2 intro: same_outside_mono\<close>)
    then show ?thesis using len(1) by (auto simp: Op_Program program_op_def intro!: framed_andthen framed_map_err framed_atoms)
  qed (simp add: program_op_def framed_atoms)
  have check: "framed ?A v (check_read (boot_read rom) ?b n k ok)" for n k ok
    unfolding check_read_def by (intro framed_andthen framed_map_err framed_atoms read)
  show ?thesis
    unfolding execute_refines_commit write_base_def [symmetric] Let_def commit_entry_def ops prod.case
    by (intro framed_andthen framed_map_err framed_atoms unlock erase check program fit)
qed
text \<open>The errors \<open>execute\<close> can return: those of its steps, and those of its reads.\<close>

definition read_back_error :: "'w rom \<Rightarrow> u32 \<Rightarrow> nat \<Rightarrow> boot_error \<Rightarrow> bool" where
  "read_back_error rom base n e \<longleftrightarrow> \<not> rom_reads_ok rom \<and> (\<exists>d < n. e = BE_FlashRead ((base + of_nat d) AND NOT 3))"

lemma errs_on_dev [errs_intro]: "errs P m \<Longrightarrow> errs P (on_dev m)"
  unfolding on_dev_def by (rule errs_on_field)

lemma errs_boot_flash_read:
  assumes "rom_flash_laws rom v"
  shows "errs (read_back_error rom a (length buf)) (boot_flash_read rom a buf)"
proof (cases "rom_reads_ok rom")
  case True
  show ?thesis
    unfolding boot_flash_read_def by (intro errs_on_dev errs_map_err errs_flash_read_into True)
next
  case False
  show ?thesis
    unfolding errs_def
  proof (intro allI impI)
    fix s e and s' :: "'a boot_st" assume "boot_flash_read rom a buf s = (Err e, s')"
    from triple_ErrD [OF boot_flash_read_triple [OF assms, of "v (dev s)"] _ this] False
    show "read_back_error rom a (length buf) e" by (simp add: read_back_error_def)
  qed
qed

lemma execute_errs:
  assumes "rom_flash_laws rom v"
  shows "errs (\<lambda>e. (\<exists>k \<le> 2. e = BE_OtadataWrite k (write_base lay wr)) \<or> read_back_error rom (write_base lay wr) (ENTRY_SIZE core) e)
    (execute core rom wr lay)"
proof -
  obtain e b c where ops: "write_ops core wr = (e, b, c)" by (metis prod_cases3)
  let ?P = "\<lambda>e. (\<exists>k \<le> 2. e = BE_OtadataWrite k (write_base lay wr)) \<or> read_back_error rom (write_base lay wr) (ENTRY_SIZE core) e"
  have read: "errs ?P (boot_flash_read rom (write_base lay wr) (replicate (ENTRY_SIZE core) 0))"
    using errs_boot_flash_read [OF assms, of "write_base lay wr" "replicate (ENTRY_SIZE core) 0"]
    by (rule errs_mono) simp
  have program: "errs ?P (rom_program rom a data)" for a data unfolding rom_program_def by (intro errs_intro)
  show ?thesis
    unfolding execute_def ops Let_def prod.case write_base_def [symmetric]
    by (cases b; cases c; simp only: boot_op.case) (intro errs_intro read program; force)+
qed

lemma execute_failure:
  assumes "rom_flash_laws rom v" and "execute_failed core wr (write_base lay wr) V e V'"
    and "execute core rom wr lay s = (Err e, s')"
  shows "\<exists>k. failed_at core wr (write_base lay wr) V k V' \<and>
    (e = BE_OtadataWrite k (write_base lay wr) \<or> read_back_error rom (write_base lay wr) (ENTRY_SIZE core) e)"
  using assms(2) errsD [OF execute_errs [OF assms(1)] assms(3)]
  by (auto simp: execute_failed_def is_flash_read_error_def)

lemma keeps_rom_program [keep]: "keeps ram (rom_program rom a bs)"
  unfolding rom_program_def by (intro keep)

lemma keeps_execute [keep]: "keeps ram (execute core rom wr lay)"
  unfolding execute_def Let_def
  by (cases "write_ops core wr") (auto intro!: keep split: boot_op.split)

end
