(* ===== verification/Boot_Table.thy ===== *)
theory Boot_Table
  imports Bootloader
begin

text \<open>
  What \<open>read_layout\<close> computes: the table is the entries up to the first one with another
  magic, and the layout takes the last entry of each wanted type.  A table written from a
  list of partitions is read back as those partitions.
\<close>

section \<open>The scan as a specification over the whole table\<close>

definition live_entries :: "u8 list list \<Rightarrow> u8 list list" where
  "live_entries es = takeWhile (\<lambda>e. magic_of e = PARTITION_ENTRY_MAGIC) es"

definition entry_range :: "u8 list \<Rightarrow> u32 \<times> u32" where
  "entry_range e = (le32 e 4, le32 e 8)"

definition last_of :: "u8 \<Rightarrow> u8 \<Rightarrow> u8 list list \<Rightarrow> found \<Rightarrow> found" where
  "last_of ty sub es acc =
     (case filter (\<lambda>e. (e ! 2, e ! 3) = (ty, sub)) es of [] \<Rightarrow> acc | xs \<Rightarrow> Some (entry_range (last xs)))"

lemma last_of_Nil [simp]: "last_of ty sub [] acc = acc"
  by (simp add: last_of_def)

lemma last_of_Cons:
  "last_of ty sub (e # es) acc =
     last_of ty sub es (if (e ! 2, e ! 3) = (ty, sub) then Some (entry_range e) else acc)"
  by (auto simp: last_of_def split: list.splits)

lemma scan_entries_spec:
  "scan_entries es (od, a0, a1) =
    (last_of TYPE_DATA SUBTYPE_OTADATA (live_entries es) od,
     last_of TYPE_APP SUBTYPE_OTA_0 (live_entries es) a0,
     last_of TYPE_APP SUBTYPE_OTA_1 (live_entries es) a1)"
proof (induction es arbitrary: od a0 a1)
  case Nil
  then show ?case by (simp add: live_entries_def)
next
  case (Cons e es)
  show ?case
  proof (cases "magic_of e = PARTITION_ENTRY_MAGIC")
    case True
    then have "live_entries (e # es) = e # live_entries es" by (simp add: live_entries_def)
    with True Cons.IH show ?thesis
      by (simp add: last_of_Cons entry_range_def Let_def table_consts)
  next
    case False
    then show ?thesis by (simp add: live_entries_def)
  qed
qed

text \<open>The layout a table describes, or the error its reading ends in.\<close>

definition table_spec :: "u8 list \<Rightarrow> boot_error + layout" where
  "table_spec table =
     (let es = live_entries (chunks_exact 32 table) in
      if magic_of table \<noteq> PARTITION_ENTRY_MAGIC then Inl BE_NoPartitionTable
      else case last_of TYPE_DATA SUBTYPE_OTADATA es None of
        None \<Rightarrow> Inl (BE_MissingPartition 1)
      | Some od \<Rightarrow> if snd od < 0x2000 then Inl (BE_MissingPartition 1)
      else case last_of TYPE_APP SUBTYPE_OTA_0 es None of
        None \<Rightarrow> Inl (BE_MissingPartition 2)
      | Some a0 \<Rightarrow> (case last_of TYPE_APP SUBTYPE_OTA_1 es None of
        None \<Rightarrow> Inl (BE_MissingPartition 3)
      | Some a1 \<Rightarrow> Inr \<lparr>otadata = od, apps = [a0, a1]\<rparr>))"

lemma layout_of_table_spec:
  "layout_of_table table s =
    (case table_spec table of Inl e \<Rightarrow> (Err e, s) | Inr lay \<Rightarrow> (Ok lay, s))"
  by (auto simp: layout_of_table_def table_spec_def scan_entries_spec Let_def combinator_defs SECTOR_def
      split: option.splits)

lemma layout_of_table_triple:
  "triple P (layout_of_table table)
     (\<lambda>lay s. P s \<and> table_spec table = Inr lay) (\<lambda>e s. P s \<and> table_spec table = Inl e)"
  by (auto simp: triple_def layout_of_table_spec split: sum.splits)

lemma table_spec_apps: "table_spec table = Inr lay \<Longrightarrow> length (apps lay) = 2"
  by (auto simp: table_spec_def Let_def split: if_splits option.splits)

lemma table_spec_otadata_size: "table_spec table = Inr lay \<Longrightarrow> 0x2000 \<le> snd (otadata lay)"
  by (auto simp: table_spec_def Let_def not_less split: if_splits option.splits)

section \<open>Writing and reading a table\<close>

text \<open>
  The 32-byte entry of the ESP-IDF format: magic, type, subtype, offset, size, a 16-byte label
  and 4 bytes of flags; a table is its entries and \<open>0xFF\<close> up to 0xC00 bytes.
\<close>

record part =
  part_type :: u8
  part_subtype :: u8
  part_offset :: u32
  part_size :: u32
  part_label :: "u8 list"

definition encode_part :: "part \<Rightarrow> u8 list" where
  "encode_part p =
     [0xAA, 0x50, part_type p, part_subtype p] @ to_le 4 (part_offset p) @ to_le 4 (part_size p) @
     take 16 (part_label p @ replicate 16 0) @ replicate 4 0"

definition encode_table :: "part list \<Rightarrow> u8 list" where
  "encode_table ps = concat (map encode_part ps) @ replicate (0xC00 - 32 * length ps) 0xFF"

definition find_part :: "u8 \<Rightarrow> u8 \<Rightarrow> part list \<Rightarrow> found" where
  "find_part ty sub ps =
     (case filter (\<lambda>p. (part_type p, part_subtype p) = (ty, sub)) ps of
        [] \<Rightarrow> None | xs \<Rightarrow> Some (part_offset (last xs), part_size (last xs)))"

lemma length_encode_part [simp]: "length (encode_part p) = 32"
  by (simp add: encode_part_def)

lemma encode_part_fields:
  "magic_of (encode_part p) = PARTITION_ENTRY_MAGIC"
  "encode_part p ! 2 = part_type p" "encode_part p ! 3 = part_subtype p"
  "entry_range (encode_part p) = (part_offset p, part_size p)"
proof -
  show "magic_of (encode_part p) = PARTITION_ENTRY_MAGIC"
    by (simp add: magic_of_def encode_part_def PARTITION_ENTRY_MAGIC_def push_bit_eq_mult)
  show "encode_part p ! 2 = part_type p" "encode_part p ! 3 = part_subtype p"
    by (simp_all add: encode_part_def numeral_2_eq_2 numeral_3_eq_3)
  have bytes: "[xs ! 0, xs ! 1, xs ! 2, xs ! 3] = xs" if "length xs = 4" for xs :: "u8 list"
    using that by (auto simp: numeral_eq_Suc length_Suc_conv)
  have "le32 (encode_part p) 4 = from_le (to_le 4 (part_offset p))"
    using bytes [of "to_le 4 (part_offset p)"]
    by (simp add: le32_def encode_part_def nth_append nth_Cons_numeral)
  moreover have "le32 (encode_part p) 8 = from_le (to_le 4 (part_size p))"
    using bytes [of "to_le 4 (part_size p)"]
    by (simp add: le32_def encode_part_def nth_append nth_Cons_numeral)
  ultimately show "entry_range (encode_part p) = (part_offset p, part_size p)"
    by (simp add: entry_range_def from_le_to_le)
qed

lemma chunks_encode_table:
  assumes "length ps \<le> 96"
  shows "chunks_exact 32 (encode_table ps) = map encode_part ps @ replicate (96 - length ps) (replicate 32 0xFF)"
proof -
  have "0xC00 - 32 * length ps = (96 - length ps) * 32" using assms by simp
  moreover have "replicate (k * 32) (0xFF :: u8) = concat (replicate k (replicate 32 0xFF))" for k
    by (induction k) (simp_all add: replicate_add)
  ultimately have "encode_table ps = concat (map encode_part ps @ replicate (96 - length ps) (replicate 32 0xFF)) @ []"
    by (simp add: encode_table_def)
  moreover have "chunks_exact 32 [] = ([] :: u8 list list)" by (subst chunks_exact.simps) simp
  moreover have "length x = 32"
    if "x \<in> set (map encode_part ps @ replicate (96 - length ps) (replicate 32 0xFF))" for x
    using that by (auto split: if_splits)
  ultimately show ?thesis
    by (metis chunks_exact_concat append_Nil2 zero_less_numeral)
qed

lemma live_encode_table:
  assumes "length ps \<le> 96"
  shows "live_entries (chunks_exact 32 (encode_table ps)) = map encode_part ps"
proof -
  have "magic_of (replicate 32 0xFF) \<noteq> PARTITION_ENTRY_MAGIC"
    by (simp add: magic_of_def PARTITION_ENTRY_MAGIC_def push_bit_eq_mult)
  moreover have "takeWhile P (map encode_part ps @ zs) = map encode_part ps @ takeWhile P zs"
    if "\<And>p. P (encode_part p)" for P zs
    by (rule takeWhile_append2) (use that in auto)
  ultimately show ?thesis
    by (simp add: live_entries_def chunks_encode_table [OF assms] encode_part_fields)
qed

lemma last_of_encode: "last_of ty sub (map encode_part ps) None = find_part ty sub ps"
proof -
  have "filter (\<lambda>e. (e ! 2, e ! 3) = (ty, sub)) (map encode_part ps) =
      map encode_part (filter (\<lambda>p. (part_type p, part_subtype p) = (ty, sub)) ps)"
    by (simp add: filter_map o_def encode_part_fields)
  then show ?thesis
    by (auto simp: last_of_def find_part_def last_map encode_part_fields split: list.splits)
qed

lemma magic_encode_table:
  "0 < length ps \<Longrightarrow> magic_of (encode_table ps) = PARTITION_ENTRY_MAGIC"
proof (cases ps)
  case (Cons p qs)
  have "encode_table ps ! i = encode_part p ! i" if "i < 2" for i
    using that by (simp add: encode_table_def Cons nth_append)
  then show ?thesis
    using encode_part_fields(1) [of p] by (simp add: magic_of_def)
qed simp

lemma table_roundtrip:
  assumes "length ps \<le> 96"
    and "find_part TYPE_DATA SUBTYPE_OTADATA ps = Some (od, od_size)" and "0x2000 \<le> od_size"
    and "find_part TYPE_APP SUBTYPE_OTA_0 ps = Some a0"
    and "find_part TYPE_APP SUBTYPE_OTA_1 ps = Some a1"
  shows "table_spec (encode_table ps) = Inr \<lparr>otadata = (od, od_size), apps = [a0, a1]\<rparr>"
proof -
  have "0 < length ps" using assms(2) by (auto simp: find_part_def)
  then show ?thesis
    using assms
    by (simp add: table_spec_def magic_encode_table live_encode_table last_of_encode not_less Let_def)
qed

end
