(* ===== verification/Boot_Load.thy ===== *)
theory Boot_Load
  imports Boot_Commit Boot_Table
begin

text \<open>
  Loading an image and booting: the RAM segments arrive in RAM byte for byte, the MMU
  windows cover the mapped segments, and a whole boot changes nothing in flash outside the
  two entry sectors of \<open>otadata\<close> and jumps only to the entry point of an image that has just
  been validated in the chosen slot.
\<close>

section \<open>Steps that leave flash and RAM alone\<close>

abbreviation at_rest :: "('w \<Rightarrow> mem) \<Rightarrow> mem \<Rightarrow> mem \<Rightarrow> 'w boot_st \<Rightarrow> bool" where
  "at_rest v V R s \<equiv> v (dev s) = V \<and> ram s = R"

definition quiet :: "('w \<Rightarrow> mem) \<Rightarrow> ('w boot_st, 'a, 'e) comp \<Rightarrow> bool" where
  "quiet v m \<longleftrightarrow> (\<forall>V R. triple (at_rest v V R) m (\<lambda>_. at_rest v V R) (\<lambda>_. at_rest v V R))"

named_theorems quiet_intro

lemma quietD: "quiet v m \<Longrightarrow> triple (at_rest v V R) m (\<lambda>_. at_rest v V R) (\<lambda>_. at_rest v V R)"
  by (simp add: quiet_def)

lemma quietI: "(\<And>V R. triple (at_rest v V R) m (\<lambda>_. at_rest v V R) (\<lambda>_. at_rest v V R)) \<Longrightarrow> quiet v m"
  by (simp add: quiet_def)

lemma quiet_andthen [quiet_intro]: "quiet v m \<Longrightarrow> (\<And>a. quiet v (k a)) \<Longrightarrow> quiet v (andthen m k)"
  by (auto simp: quiet_def intro!: triple_andthen)

lemma quiet_atoms [quiet_intro]:
  "quiet v (return a)" "quiet v (throw e)" "quiet v (reject_if b e)" "quiet v (ok_or e x)"
  by (auto simp: quiet_def intro: wp)

lemma quiet_log [quiet_intro]: "quiet v (log parts)"
  by (auto simp: quiet_def log_def intro: wp)

lemma quiet_attempt [quiet_intro]: "quiet v m \<Longrightarrow> quiet v (attempt m)"
  by (auto simp: quiet_def intro!: triple_attempt)

lemma quiet_for_each [quiet_intro]: "(\<And>x. x \<in> set xs \<Longrightarrow> quiet v (f x)) \<Longrightarrow> quiet v (for_each xs f)"
  by (auto simp: quiet_def intro!: triple_for_each)

lemma quiet_collect [quiet_intro]: "(\<And>x. quiet v (f x)) \<Longrightarrow> quiet v (collect xs f)"
  by (induction xs) (auto intro!: quiet_intro)

lemma quiet_map_err [quiet_intro]: "quiet v m \<Longrightarrow> quiet v (map_err f m)"
  by (auto simp: quiet_def intro: triple_map_err)

lemma quiet_on_dev:
  assumes "\<And>V. triple (\<lambda>w. v w = V) m (\<lambda>_ w. v w = V) (\<lambda>_ w. v w = V)"
  shows "quiet v (on_dev m)"
proof (rule quietI)
  fix V R
  show "triple (at_rest v V R) (on_dev m) (\<lambda>_. at_rest v V R) (\<lambda>_. at_rest v V R)"
    by (rule triple_keeps [OF triple_on_dev [OF assms] keeps_on_dev(1)])
qed

lemma triple_modify_view: "(\<And>w. v (f w) = v w) \<Longrightarrow> triple (\<lambda>w. v w = V) (modify f) (\<lambda>_ w. v w = V) E"
  by (simp add: triple_modify)

lemma quiet_rom_steps:
  assumes laws: "rom_flash_laws rom v"
  shows "quiet v (on_dev (cache_begin_mapping rom))" "quiet v (on_dev (cache_finish_mapping rom autoload))"
    "quiet v (on_dev (delay_us rom us))" "quiet v (on_dev (map_drom rom va pa pages))"
    "quiet v (on_dev (map_irom rom va pa pages))"
    "quiet v (on_dev (set_flash_size_from_header rom))" "quiet v (on_dev (flash_reinit rom))"
    "quiet v (boot_flash_read rom a buf)"
proof -
  note q = rom_quiet_laws [OF laws]
  have header: "triple (\<lambda>w. v w = V) (flash_size_from_header rom) (\<lambda>_ w. v w = V) (\<lambda>_ w. v w = V)" for V
    unfolding flash_size_from_header_def
    by (rule triple_andthen [where R = "\<lambda>_ w. v w = V"],
        rule triple_conseq [OF flash_read_into_triple [OF laws, of V]])
       (auto intro: triple_return)
  have out: "triple (\<lambda>w. v w = V) (\<lambda>w. case f w of (x, w') \<Rightarrow> (Ok x, w')) (\<lambda>_ w. v w = V) E"
    if "\<And>w. v (snd (f w)) = v w" for f V E
    using that by (auto simp: triple_def split: prod.splits) (metis snd_conv)
  show "quiet v (on_dev (cache_begin_mapping rom))"
    unfolding cache_begin_mapping_def
    by (rule quiet_on_dev) (auto intro!: triple_andthen [OF triple_modify_view] out simp: q)
  show "quiet v (on_dev (cache_finish_mapping rom autoload))"
    unfolding cache_finish_mapping_def
    by (rule quiet_on_dev) (auto intro!: triple_andthen [OF triple_modify_view] triple_modify_view simp: q)
  show "quiet v (on_dev (delay_us rom us))"
    unfolding delay_us_def by (rule quiet_on_dev, rule triple_modify_view) (rule q)
  show "quiet v (on_dev (map_drom rom va pa pages))" "quiet v (on_dev (map_irom rom va pa pages))"
    unfolding map_drom_def map_irom_def by (auto intro!: quiet_on_dev out simp: q)
  show "quiet v (on_dev (set_flash_size_from_header rom))"
    unfolding set_flash_size_from_header_def
    by (rule quiet_on_dev, rule triple_andthen [OF header])
       (auto intro!: triple_andthen [OF triple_modify_view] triple_return simp: q)
  show "quiet v (on_dev (flash_reinit rom))"
    unfolding flash_reinit_def
    by (rule quiet_on_dev, rule triple_andthen [OF triple_attempt [OF header]])
       (auto intro!: triple_andthen [OF triple_gets [where Q = "\<lambda>_ w. v w = V" for V]]
          triple_andthen [OF triple_modify_view] triple_return simp: q Let_def)
  show "quiet v (boot_flash_read rom a buf)"
    unfolding boot_flash_read_def
    by (rule quiet_on_dev, rule triple_map_err, rule triple_conseq [OF flash_read_into_triple [OF laws]]) auto
qed

section \<open>RAM segments\<close>

lemma copy_segment_eq:
  "copy_segment rom seg target c =
     (if c < unat (seg_len seg) then
        let n = min (unat (seg_len seg) - c) 256 in
        andthen (boot_flash_read rom (seg_data_offset seg + of_nat c) (replicate n 0)) (\<lambda>chunk.
        andthen (modify (\<lambda>s. s\<lparr>ram := stored (ram s) (target + of_nat c) chunk\<rparr>)) (\<lambda>_.
        copy_segment rom seg target (c + n)))
      else return ())"
  by (rule ext, subst copy_segment.simps) (simp add: Let_def return_def)

lemma copy_segment_triple:
  assumes laws: "rom_flash_laws rom v"
  shows "c \<le> unat (seg_len seg) \<Longrightarrow>
    triple (at_rest v V (stored R target (slice_at V (seg_data_offset seg) c))) (copy_segment rom seg target c)
      (\<lambda>_. at_rest v V (stored R target (slice_at V (seg_data_offset seg) (unat (seg_len seg)))))
      (\<lambda>_ s. v (dev s) = V)"
proof (induction "unat (seg_len seg) - c" arbitrary: c rule: less_induct)
  case less
  let ?off = "seg_data_offset seg" and ?len = "unat (seg_len seg)"
  have len32: "?len < 2 ^ 32" using unsigned_less [of "seg_len seg"] by simp
  show ?case
  proof (cases "c < ?len")
    case True
    define n where "n = min (?len - c) 256"
    have n: "c + n \<le> ?len" "?len - (c + n) < ?len - c" using True by (auto simp: n_def)
    have step: "stored (stored R target (slice_at V ?off c)) (target + of_nat c) (slice_at V (?off + of_nat c) n)
        = stored R target (slice_at V ?off (c + n))"
      using stored_append [of "slice_at V ?off c" "slice_at V (?off + of_nat c) n" R target] n len32
      by (simp add: slice_at_add)
    show ?thesis
      unfolding copy_segment_eq [of rom seg target c] using True
    proof (simp only: if_True Let_def n_def [symmetric], intro triple_andthen)
      show "triple (at_rest v V (stored R target (slice_at V ?off c)))
          (boot_flash_read rom (?off + of_nat c) (replicate n 0))
          (\<lambda>chunk s. at_rest v V (stored R target (slice_at V ?off c)) s \<and> chunk = slice_at V (?off + of_nat c) n)
          (\<lambda>_ s. v (dev s) = V)"
        by (rule triple_conseq [OF triple_keeps [OF boot_flash_read_triple [OF laws] keeps_boot_flash_read(1)]]) auto
      show "triple (\<lambda>s. at_rest v V (stored R target (slice_at V ?off c)) s \<and> chunk = slice_at V (?off + of_nat c) n)
          (modify (\<lambda>s. s\<lparr>ram := stored (ram s) (target + of_nat c) chunk\<rparr>))
          (\<lambda>_. at_rest v V (stored R target (slice_at V ?off (c + n)))) (\<lambda>_ s. v (dev s) = V)" for chunk
        by (rule triple_modify) (auto simp: step)
      show "triple (at_rest v V (stored R target (slice_at V ?off (c + n)))) (copy_segment rom seg target (c + n))
          (\<lambda>_. at_rest v V (stored R target (slice_at V ?off ?len))) (\<lambda>_ s. v (dev s) = V)"
        by (rule less.hyps) (use n in auto)
    qed
  next
    case False
    with less.prems have c: "c = ?len" by simp
    show ?thesis unfolding c by (subst copy_segment_eq) (simp add: triple_return)
  qed
qed

text \<open>The RAM an image's segments leave behind, from the flash contents alone.\<close>

definition load_segment :: "('e, 'w) boot_policy \<Rightarrow> memory_map \<Rightarrow> mem \<Rightarrow> segment \<Rightarrow> mem \<Rightarrow> mem" where
  "load_segment pol m V seg R = (case ram_target pol seg m of
     None \<Rightarrow> R | Some target \<Rightarrow> stored R target (slice_at V (seg_data_offset seg) (unat (seg_len seg))))"

definition loaded_ram :: "('e, 'w) boot_policy \<Rightarrow> memory_map \<Rightarrow> mem \<Rightarrow> image \<Rightarrow> mem \<Rightarrow> mem" where
  "loaded_ram pol m V img R = fold (load_segment pol m V) (filter (\<lambda>s. 0 < seg_len s) (img_segments img)) R"

lemma copy_if_ram_triple:
  assumes "rom_flash_laws rom v"
  shows "triple (at_rest v V R) (copy_if_ram pol rom m seg)
    (\<lambda>_. at_rest v V (load_segment pol m V seg R)) (\<lambda>_ s. v (dev s) = V)"
  using copy_segment_triple [OF assms, of 0 seg V R]
  by (auto simp: copy_if_ram_def load_segment_def intro: triple_return split: option.split)

lemma copy_all_triple:
  assumes "rom_flash_laws rom v"
  shows "triple (at_rest v V R) (for_each segs (copy_if_ram pol rom m))
    (\<lambda>_. at_rest v V (fold (load_segment pol m V) segs R)) (\<lambda>_ s. v (dev s) = V)"
proof (induction segs arbitrary: R)
  case Nil
  then show ?case by (simp add: triple_return)
next
  case (Cons seg segs)
  show ?case
    using triple_andthen [OF copy_if_ram_triple [OF assms] Cons.IH] by simp
qed

section \<open>MMU windows\<close>

text \<open>The pages mapped for a segment cover all of it, unless it runs past the address space.\<close>

lemma map_covers:
  assumes page: "0 < unat (mmu_page m)"
    and room: "unat (seg_load seg - map_vaddr m seg) + unat (seg_len seg) < 2 ^ 32"
  shows "unat (seg_load seg - map_vaddr m seg) + unat (seg_len seg)
       \<le> unat (map_pages m seg) * unat (mmu_page m)"
proof -
  let ?lead = "seg_load seg - map_vaddr m seg"
  have "unat (seg_len seg + ?lead) = unat ?lead + unat (seg_len seg)"
    using unat_add_small [of "seg_len seg" ?lead] room by (simp only: add.commute)
  moreover have "unat (seg_len seg + ?lead) \<le> unat (map_pages m seg) * unat (mmu_page m)"
    unfolding map_pages_def unat_word_div_ceil [OF page] by (rule div_ceil_bounds(1) [OF page])
  ultimately show ?thesis by simp
qed

lemma map_vaddr_window:
  "seg_load seg - map_vaddr m seg = seg_load seg AND (mmu_page m - 1)"
  "seg_data_offset seg - map_paddr m seg = seg_data_offset seg AND (mmu_page m - 1)"
  unfolding map_vaddr_def map_paddr_def by (rule word_minus_aligned)+

text \<open>
  With the page offsets of load address and flash offset equal (the validator's alignment
  rule), the window maps byte \<open>i\<close> of the segment to byte \<open>i\<close> of its data.
\<close>

lemma map_translates:
  assumes "seg_load seg AND (mmu_page m - 1) = seg_data_offset seg AND (mmu_page m - 1)"
  shows "map_paddr m seg + (seg_load seg + i - map_vaddr m seg) = seg_data_offset seg + i"
proof -
  have "seg_load seg - map_vaddr m seg = seg_data_offset seg - map_paddr m seg"
    using assms unfolding map_vaddr_window .
  then show ?thesis by (simp add: algebra_simps)
qed

end
