(* ===== verification/Boot_Safety.thy ===== *)
theory Boot_Safety
  imports Boot_Load
begin

text \<open>
  The bootloader as a whole: what \<open>load\<close> and \<open>boot\<close> may change and when they jump, for every
  ROM that satisfies \<open>rom_flash_laws\<close> and every fibewi that satisfies \<open>policy_laws\<close>.
\<close>

section \<open>What the bootloader relies on in fibewi\<close>

text \<open>
  \<open>plan_boot\<close> and \<open>validate\<close> touch the machine only through what they are given: an assertion
  the closure keeps, they keep.  They do not panic when the closure does not, a plan names one
  of the two slots, and its writes go to the two entry sectors and fit them.
\<close>

definition reader_keeps :: "('w boot_st \<Rightarrow> bool) \<Rightarrow> 'w image_reader \<Rightarrow> bool" where
  "reader_keeps I rd \<longleftrightarrow> (\<forall>a buf s. I s \<longrightarrow>
     (case rd a buf s of ((Panic, buf'), s') \<Rightarrow> False | ((r, buf'), s') \<Rightarrow> I s' \<and> length buf' = length buf))"

definition sound_plan :: "'e boot_core \<Rightarrow> boot_choice \<times> 'e boot_write list \<Rightarrow> bool" where
  "sound_plan core p \<longleftrightarrow>
     (case fst p of Boot_Slot slot sq \<Rightarrow> unat slot < 2 | Boot_Halt h \<Rightarrow> True) \<and>
     (\<forall>wr \<in> set (snd p). unat (write_sector wr) < 2 \<and> write_fits core wr)"

definition policy_laws :: "'e boot_core \<Rightarrow> ('e, 'w) boot_policy \<Rightarrow> bool" where
  "policy_laws core pol \<longleftrightarrow>
     (\<forall>I ok es.
        (\<forall>slot. unat slot < 2 \<longrightarrow> triple I (ok slot) (\<lambda>_. I) (\<lambda>_ _. False)) \<longrightarrow>
        triple I (plan_boot pol es SLOT_COUNT ok) (\<lambda>p s. I s \<and> sound_plan core p) (\<lambda>_ _. False)) \<and>
     (\<forall>I rd off sz m. reader_keeps I rd \<longrightarrow> triple I (validate pol rd off sz m) (\<lambda>_. I) (\<lambda>_. I))"

lemma plan_law:
  assumes "policy_laws core pol"
    and "\<And>slot. unat slot < 2 \<Longrightarrow> triple I (ok slot) (\<lambda>_. I) (\<lambda>_ _. False)"
  shows "triple I (plan_boot pol es SLOT_COUNT ok) (\<lambda>p s. I s \<and> sound_plan core p) (\<lambda>_ _. False)"
  using assms unfolding policy_laws_def by blast

lemma validate_law:
  assumes "policy_laws core pol" and "reader_keeps I rd"
  shows "triple I (validate pol rd off sz m) (\<lambda>_. I) (\<lambda>_. I)"
  using assms unfolding policy_laws_def by blast

lemma reader_keeps_rest:
  assumes laws: "rom_flash_laws rom v"
  shows "reader_keeps (at_rest v V R) (rom_flash_reader rom)"
  unfolding reader_keeps_def
proof (intro allI impI)
  fix a buf and s :: "'a boot_st" assume "at_rest v V R s"
  with flash_read_spec [OF laws, of "dev s" a buf]
  show "case rom_flash_reader rom a buf s of
      ((Panic, buf'), s') \<Rightarrow> False | ((r, buf'), s') \<Rightarrow> at_rest v V R s' \<and> length buf' = length buf"
    by (cases "flash_read rom a buf (dev s)")
       (auto simp: rom_flash_reader_def read_post_def split: res.splits prod.splits)
qed

lemma quiet_validate:
  assumes "rom_flash_laws rom v" and "policy_laws core pol"
  shows "quiet v (validate pol (rom_flash_reader rom) off sz m)"
  by (rule quietI, rule validate_law [OF assms(2) reader_keeps_rest [OF assms(1)]])

section \<open>load\<close>

text \<open>That fibewi's validation accepted the image when flash held \<open>V\<close>.\<close>

definition validated :: "('e, 'w) boot_policy \<Rightarrow> 'w rom \<Rightarrow> ('w \<Rightarrow> mem) \<Rightarrow> mem \<Rightarrow> memory_map \<Rightarrow> u32 \<times> u32 \<Rightarrow>
    image \<Rightarrow> bool" where
  "validated pol rom v V m part img \<longleftrightarrow>
     (\<exists>s s'. v (dev s) = V \<and> validate pol (rom_flash_reader rom) (fst part) (snd part) m s = (Ok img, s'))"

lemma triple_witness:
  "triple P m Q E \<Longrightarrow> triple P m (\<lambda>a s. Q a s \<and> (\<exists>s0 s1. P s0 \<and> m s0 = (Ok a, s1))) E"
  by (fastforce simp: triple_def split: prod.splits res.splits)

lemma app_of_triple:
  assumes "unat slot < length (apps lay)"
  shows "triple P (app_of lay slot) (\<lambda>p s. p = apps lay ! unat slot \<and> P s) E"
  using assms by (auto simp: triple_def app_of_def combinator_defs)

lemma quiet_map_if_flash:
  assumes "rom_flash_laws rom v" shows "quiet v (map_if_flash rom m seg)"
  unfolding map_if_flash_def Let_def
  by (auto intro!: quiet_intro quiet_rom_steps [OF assms])

lemma quiet_weaken: "quiet v m \<Longrightarrow> triple (at_rest v V R) m (\<lambda>_. at_rest v V R) (\<lambda>_ s. v (dev s) = V)"
  by (rule triple_conseq [OF quietD]) auto

lemma load_image_triple:
  assumes laws: "rom_flash_laws rom v"
  shows "triple (at_rest v V R) (load_image pol rom m img)
    (\<lambda>entry s. entry = img_entry img \<and> at_rest v V (loaded_ram pol m V img R) s) (\<lambda>e s. v (dev s) = V)"
proof -
  note [quiet_intro] = quiet_rom_steps [OF laws] quiet_map_if_flash [OF laws]
  let ?segs = "filter (\<lambda>s. 0 < seg_len s) (img_segments img)"
  have copy: "triple (at_rest v V R) (for_each ?segs (copy_if_ram pol rom m))
      (\<lambda>_. at_rest v V (loaded_ram pol m V img R)) (\<lambda>_ s. v (dev s) = V)"
    unfolding loaded_ram_def by (rule copy_all_triple [OF laws])
  show ?thesis
    unfolding load_image_def Let_def
    by (rule triple_andthen [OF quiet_weaken], rule quiet_intro, rule triple_andthen [OF copy],
        (rule triple_andthen [OF quiet_weaken], (intro quiet_intro)[1])+, rule triple_return) simp
qed

lemma load_triple:
  assumes laws: "rom_flash_laws rom v" and pol: "policy_laws core pol"
    and slot: "unat slot < length (apps lay)"
  shows "triple (at_rest v V R) (load c pol rom lay slot)
     (\<lambda>entry s. v (dev s) = V \<and>
        (\<exists>img. validated pol rom v V (memory_map_of c) (apps lay ! unat slot) img \<and>
               entry = img_entry img \<and> ram s = loaded_ram pol (memory_map_of c) V img R))
     (\<lambda>e s. v (dev s) = V)"
proof -
  let ?m = "memory_map_of c"
  have val: "triple (at_rest v V R)
      (map_err (\<lambda>_. BE_Image) (validate pol (rom_flash_reader rom) (fst part) (snd part) ?m))
      (\<lambda>img s. validated pol rom v V ?m part img \<and> at_rest v V R s) (\<lambda>_ s. v (dev s) = V)" for part
    by (rule triple_map_err, rule triple_conseq [OF triple_witness [OF quietD [OF quiet_validate [OF laws pol]]]])
       (auto simp: validated_def)
  show ?thesis
    unfolding load_def
    by (rule triple_andthen [OF app_of_triple [OF slot]], rule triple_pure,
        rule triple_andthen [OF val], rule triple_pure,
        rule triple_conseq [OF load_image_triple [OF laws]]) auto
qed

section \<open>boot\<close>

definition table_at :: "mem \<Rightarrow> u8 list" where
  "table_at V = slice_at V PARTITION_TABLE_OFFSET PARTITION_TABLE_LEN"

definition otadata_region :: "mem \<Rightarrow> u32 set" where
  "otadata_region V = (case table_spec (table_at V) of
     Inl e \<Rightarrow> {} | Inr lay \<Rightarrow> touched (fst (otadata lay)) 0x2000)"

text \<open>
  \<open>read_layout\<close> fails with the error of the specification, or because both attempts to read the table
  failed; re-attaching the flash between them cannot fail.
\<close>

definition table_unreadable :: "'w rom \<Rightarrow> 'w boot_st \<Rightarrow> boot_error \<Rightarrow> 'w boot_st \<Rightarrow> bool" where
  "table_unreadable rom s e s' \<longleftrightarrow>
     (\<exists>e1 s1 s2. boot_flash_read rom PARTITION_TABLE_OFFSET (replicate PARTITION_TABLE_LEN 0) s = (Err e1, s1) \<and>
        (boot_flash_reinit rom :: ('w, unit) boot) s1 = (Ok (), s2) \<and>
        boot_flash_read rom PARTITION_TABLE_OFFSET (replicate PARTITION_TABLE_LEN 0) s2 = (Err e, s'))"

lemma errs_boot_flash_reinit: "errs P (boot_flash_reinit rom)"
  unfolding boot_flash_reinit_def flash_reinit_def log_def Let_def by (intro errs_intro)

lemma read_layout_outcome:
  assumes laws: "rom_flash_laws rom v"
  shows "case read_layout rom s of
      (Ok lay, s') \<Rightarrow> table_spec (table_at (v (dev s))) = Inr lay \<and> v (dev s') = v (dev s) \<and> ram s' = ram s
    | (Err e, s') \<Rightarrow> v (dev s') = v (dev s) \<and> ram s' = ram s \<and>
        (table_spec (table_at (v (dev s))) = Inl e \<or>
         table_unreadable rom s e s' \<and> read_back_error rom PARTITION_TABLE_OFFSET PARTITION_TABLE_LEN e)
    | (Panic, s') \<Rightarrow> False"
proof -
  let ?V = "v (dev s)" and ?R = "ram s"
  let ?rd = "boot_flash_read rom PARTITION_TABLE_OFFSET (replicate PARTITION_TABLE_LEN 0)"
  have "triple (at_rest v ?V ?R) ?rd (\<lambda>b t. at_rest v ?V ?R t \<and> b = table_at ?V) (\<lambda>_. at_rest v ?V ?R)"
    by (rule triple_conseq [OF triple_keeps [OF boot_flash_read_triple [OF laws] keeps_boot_flash_read(1)]])
       (auto simp: table_at_def)
  note rd = tripleD [OF this]
  have err: "read_back_error rom PARTITION_TABLE_OFFSET PARTITION_TABLE_LEN e" if "?rd t = (Err e, t')" for t e t'
    using errsD [OF errs_boot_flash_read [OF laws] that] by simp
  have spec: "case layout_of_table (table_at ?V) t of
      (Ok lay, s') \<Rightarrow> table_spec (table_at ?V) = Inr lay \<and> at_rest v ?V ?R s'
    | (Err e, s') \<Rightarrow> at_rest v ?V ?R s' \<and> table_spec (table_at ?V) = Inl e | (Panic, s') \<Rightarrow> False"
    if "at_rest v ?V ?R t" for t
    using that by (simp add: layout_of_table_spec split: sum.splits)
  have "quiet v (boot_flash_reinit rom :: ('a, unit) boot)"
    unfolding boot_flash_reinit_def by (intro quiet_intro quiet_rom_steps [OF laws])
  from quietD [OF this, of ?V ?R]
  have reinit: "triple (at_rest v ?V ?R) (boot_flash_reinit rom :: ('a, unit) boot) (\<lambda>_. at_rest v ?V ?R) (\<lambda>_. at_rest v ?V ?R)" .
  have again: "\<exists>t'. (boot_flash_reinit rom :: ('a, unit) boot) t = (Ok (), t') \<and> at_rest v ?V ?R t'"
    if "at_rest v ?V ?R t" for t
    using tripleD [OF reinit that] errsD [OF errs_boot_flash_reinit [where P = "\<lambda>_. False"], of rom t]
    by (cases "(boot_flash_reinit rom :: ('a, unit) boot) t") (auto split: res.splits)
  obtain r1 s1 where run1: "?rd s = (r1, s1)" by (metis surj_pair)
  show ?thesis
  proof (cases r1)
    case (Ok b)
    then show ?thesis using rd [of s] spec [of s1] run1 by (auto simp: read_layout_def combinator_defs split: prod.splits res.splits)
  next
    case (Err e1)
    with rd [of s] run1 have "at_rest v ?V ?R s1" by simp
    from again [OF this] obtain s2 where run2: "(boot_flash_reinit rom :: ('a, unit) boot) s1 = (Ok (), s2)" "at_rest v ?V ?R s2" by blast
    obtain r3 s3 where run3: "?rd s2 = (r3, s3)" by (metis surj_pair)
    have eq: "read_layout rom s = (case ?rd s2 of (Ok b, s') \<Rightarrow> layout_of_table b s' | (Err e, s') \<Rightarrow> (Err e, s') | (Panic, s') \<Rightarrow> (Panic, s'))"
      using run1 run2 Err by (simp add: read_layout_def andthen_def attempt_def split: prod.split res.split)
    show ?thesis
    proof (cases r3)
      case (Ok b)
      then show ?thesis using rd [OF run2(2)] spec [of s3] run3 by (auto simp: eq split: prod.splits res.splits)
    next
      case (Err e)
      then have "table_unreadable rom s e s3" using run1 \<open>r1 = Err e1\<close> run2(1) run3 unfolding table_unreadable_def by blast
      then show ?thesis using rd [OF run2(2)] run3 Err err [of s2 e s3] by (simp add: eq)
    next
      case Panic
      then show ?thesis using rd [OF run2(2)] run3 by simp
    qed
  next
    case Panic
    then show ?thesis using rd [of s] run1 by simp
  qed
qed

lemma read_layout_triple:
  assumes laws: "rom_flash_laws rom v"
  shows "triple (at_rest v V R) (read_layout rom)
    (\<lambda>lay s. table_spec (table_at V) = Inr lay \<and> at_rest v V R s) (\<lambda>e. at_rest v V R)"
proof (rule tripleI)
  fix s :: "'a boot_st" assume "at_rest v V R s"
  with read_layout_outcome [OF laws, of s] show "case read_layout rom s of
      (Ok lay, s) \<Rightarrow> table_spec (table_at V) = Inr lay \<and> at_rest v V R s | (Err e, s) \<Rightarrow> at_rest v V R s | (Panic, s) \<Rightarrow> False"
    by (auto split: prod.splits res.splits)
qed

lemma image_ok_triple:
  assumes laws: "rom_flash_laws rom v" and pol: "policy_laws core pol"
    and slot: "unat slot < length (apps lay)"
  shows "triple (at_rest v V R) (image_ok c pol rom lay slot) (\<lambda>_. at_rest v V R) (\<lambda>_ _. False)"
proof -
  have val: "triple (at_rest v V R) (attempt (validate pol (rom_flash_reader rom) off sz m))
      (\<lambda>_. at_rest v V R) (\<lambda>_ _. False)" for off sz m
    by (rule triple_attempt, rule quietD [OF quiet_validate [OF laws pol]])
  have tail: "triple (at_rest v V R) (case r of Inr _ \<Rightarrow> return True
      | Inl e \<Rightarrow> andthen (log (parts e)) (\<lambda>_. return False)) (\<lambda>_. at_rest v V R) (\<lambda>_ _. False)"
    for r :: "image_error + image" and parts
    by (cases r) (auto intro!: wp triple_andthen [where R = "\<lambda>_. at_rest v V R"] simp: log_def)
  show ?thesis
    unfolding image_ok_def
    by (rule triple_andthen [OF app_of_triple [OF slot]], rule triple_pure,
        rule triple_andthen [OF val], rule tail)
qed

lemma write_base_touched:
  assumes "unat (write_sector wr) < 2"
  shows "touched (write_base lay wr) 0x1000 \<subseteq> touched (fst (otadata lay)) 0x2000"
proof -
  have sec: "unat (ucast (write_sector wr) * SECTOR :: u32) = unat (write_sector wr) * 0x1000"
    using assms by (simp add: unat_word_ariths SECTOR_def)
  have off: "ucast (write_sector wr) * SECTOR = (of_nat (unat (write_sector wr) * 0x1000) :: u32)"
    using arg_cong [OF sec, of "of_nat :: nat \<Rightarrow> u32"] by simp
  show ?thesis unfolding write_base_def off by (rule touched_part) (use assms in simp_all)
qed

text \<open>The writes of a plan, one after the other.\<close>

lemma perform_writes_triple:
  assumes laws: "rom_flash_laws rom v"
    and sound: "\<forall>wr \<in> set wrs. unat (write_sector wr) < 2 \<and> write_fits core wr"
  shows "triple (\<lambda>s. same_outside (touched (fst (otadata lay)) 0x2000) V (v (dev s)) \<and> ram s = R)
    (for_each wrs (perform_write core rom lay))
    (\<lambda>_ s. same_outside (touched (fst (otadata lay)) 0x2000) V (v (dev s)) \<and> ram s = R)
    (\<lambda>_ s. same_outside (touched (fst (otadata lay)) 0x2000) V (v (dev s)) \<and> ram s = R)"
proof (rule triple_for_each)
  let ?A = "touched (fst (otadata lay)) 0x2000"
  fix wr assume wr: "wr \<in> set wrs"
  from wr sound have sec: "unat (write_sector wr) < 2" and fits: "write_fits core wr" by auto
  have log: "framed ?A v (log parts)" for parts
    by (simp add: framed_def triple_def log_def modify_def)
  have "framed ?A v (perform_write core rom lay wr)"
    unfolding perform_write_def
    by (rule framed_andthen [OF log]) (rule framed_mono [OF execute_framed [OF laws fits] write_base_touched [OF sec]])
  moreover have "keeps ram (perform_write core rom lay wr)"
    unfolding perform_write_def log_def by (intro keep) simp
  ultimately show "triple (\<lambda>s. same_outside ?A V (v (dev s)) \<and> ram s = R) (perform_write core rom lay wr)
      (\<lambda>_ s. same_outside ?A V (v (dev s)) \<and> ram s = R) (\<lambda>_ s. same_outside ?A V (v (dev s)) \<and> ram s = R)"
    by (intro triple_keeps) (simp_all add: framed_def)
qed

text \<open>
  The state a boot may end in.  After success the entry point is that of an image validated in
  a slot of the table's layout, and RAM holds its segments; in every case flash differs from
  the start only inside the sectors of the two entries.
\<close>

definition boot_ok :: "chip \<Rightarrow> ('e, 'w) boot_policy \<Rightarrow> 'w rom \<Rightarrow> ('w \<Rightarrow> mem) \<Rightarrow> mem \<Rightarrow> mem \<Rightarrow> u32 \<Rightarrow> mem \<Rightarrow> mem \<Rightarrow> bool" where
  "boot_ok c pol rom v V R entry V' R' \<longleftrightarrow>
     (\<exists>lay slot img. table_spec (table_at V) = Inr lay \<and> slot < 2 \<and>
        validated pol rom v V' (memory_map_of c) (apps lay ! slot) img \<and>
        entry = img_entry img \<and> R' = loaded_ram pol (memory_map_of c) V' img R)"

lemma boot_triple:
  assumes laws: "rom_flash_laws rom v" and pol: "policy_laws core pol"
  shows "triple (at_rest v V R) (boot c core pol rom)
    (\<lambda>entry s. same_outside (otadata_region V) V (v (dev s)) \<and>
               boot_ok c pol rom v V R entry (v (dev s)) (ram s))
    (\<lambda>e s. same_outside (otadata_region V) V (v (dev s)))"
proof -
  note [quiet_intro] = quiet_rom_steps [OF laws]
  let ?A = "otadata_region V"
  let ?E = "\<lambda>(_ :: boot_error) s. same_outside ?A V (v (dev s))"
  have q: "triple (at_rest v V R) m (\<lambda>_. at_rest v V R) ?E" if "quiet v m" for m :: "('a, 'x) boot"
    by (rule triple_conseq [OF quietD [OF that]]) auto
  have layout: "triple (at_rest v V R) (read_layout rom)
      (\<lambda>lay s. table_spec (table_at V) = Inr lay \<and> at_rest v V R s) ?E"
    by (rule triple_conseq [OF read_layout_triple [OF laws]]) auto
  have size: "quiet v (set_flash_size rom)"
    unfolding set_flash_size_def on_dev_map_err by (intro quiet_intro)
  have entries: "quiet v (read_otadata core rom lay)" for lay
    unfolding read_otadata_def by (intro quiet_intro)
  have after_layout: "triple (at_rest v V R)
     (andthen (log [L_str ''boot: otadata at '', L_u32 (fst (otadata lay)),
                   L_str '' ota_0 '', L_u32 (fst (apps lay ! 0)),
                   L_str '' ota_1 '', L_u32 (fst (apps lay ! 1))]) (\<lambda>_.
     andthen (read_otadata core rom lay) (\<lambda>entries.
     andthen (plan_boot pol entries SLOT_COUNT (image_ok c pol rom lay)) (\<lambda>plan.
     andthen (chosen_slot (fst plan)) (\<lambda>chosen.
     andthen (log [L_str ''boot: plan slot='', L_u32 (ucast (fst chosen)), L_str '' seq='', L_u32 (snd chosen)]) (\<lambda>_.
     andthen (for_each (snd plan) (perform_write core rom lay)) (\<lambda>_.
     load c pol rom lay (fst chosen))))))))
    (\<lambda>entry s. same_outside ?A V (v (dev s)) \<and> boot_ok c pol rom v V R entry (v (dev s)) (ram s)) ?E"
    if lay: "table_spec (table_at V) = Inr lay" for lay
  proof -
    note two = table_spec_apps [OF lay]
    have A: "?A = touched (fst (otadata lay)) 0x2000" by (simp add: otadata_region_def lay)
    have plan: "triple (at_rest v V R) (plan_boot pol es SLOT_COUNT (image_ok c pol rom lay))
        (\<lambda>p s. sound_plan core p \<and> at_rest v V R s) ?E" for es
      by (rule triple_conseq [OF plan_law [OF pol image_ok_triple [OF laws pol]]]) (auto simp: two)
    have choice: "triple (at_rest v V R) (chosen_slot (fst p))
        (\<lambda>ch s. unat (fst ch) < 2 \<and> at_rest v V R s) ?E" if "sound_plan core p" for p
      using that by (auto simp: chosen_slot_def sound_plan_def intro!: wp split: boot_choice.splits halt.splits)
    have writes: "triple (at_rest v V R) (for_each (snd p) (perform_write core rom lay))
        (\<lambda>_ s. same_outside ?A V (v (dev s)) \<and> ram s = R) ?E" if "sound_plan core p" for p
      using that unfolding A
      by (intro triple_conseq [OF perform_writes_triple [OF laws, where R = R]])
         (auto simp: sound_plan_def)
    have load: "triple (\<lambda>s. same_outside ?A V (v (dev s)) \<and> ram s = R) (load c pol rom lay slot)
        (\<lambda>entry s. same_outside ?A V (v (dev s)) \<and> boot_ok c pol rom v V R entry (v (dev s)) (ram s)) ?E"
      if "unat slot < 2" for slot
    proof (rule tripleI)
      fix s :: "'a boot_st" assume s: "same_outside ?A V (v (dev s)) \<and> ram s = R"
      have "unat slot < length (apps lay)" using that two by simp
      note run = load_triple [OF laws pol this, of "v (dev s)" R c]
      have "at_rest v (v (dev s)) R s" using s by simp
      from tripleD [OF run this] show "case load c pol rom lay slot s of
          (Ok entry, s) \<Rightarrow> same_outside ?A V (v (dev s)) \<and> boot_ok c pol rom v V R entry (v (dev s)) (ram s)
        | (Err e, s) \<Rightarrow> same_outside ?A V (v (dev s)) | (Panic, s) \<Rightarrow> False"
        using s that two lay word_less_nat_alt [of slot 2]
        by (auto simp: boot_ok_def split: res.splits prod.splits intro!: exI [of _ "unat slot"])
    qed
    show ?thesis
      by (rule triple_andthen [OF q [OF quiet_log]], rule triple_andthen [OF q [OF entries]],
          rule triple_andthen [OF plan], rule triple_pure, rule triple_andthen [OF choice], assumption,
          rule triple_pure, rule triple_andthen [OF q [OF quiet_log]], rule triple_andthen [OF writes],
          assumption, rule load)
  qed
  show ?thesis
    unfolding boot_def
    by (rule triple_andthen [OF q [OF size]], rule triple_andthen [OF layout], rule triple_pure,
        rule after_layout)
qed

end
