(* ===== verification/Ref_Device.thy ===== *)
theory Ref_Device
  imports Boot_Safety
begin

text \<open>
  A reference board: a concrete chip state with flash contents, a register file with
  write-protect keys, and an MMU, and the ROM routines on it.  It satisfies every law the
  bootloader's theorems assume of the ROM, so those assumptions are satisfiable, and it is the
  concrete input of their witnesses.  Also here: the laws for registers and MMU themselves.
\<close>

section \<open>Registers and the MMU\<close>

text \<open>
  A protected register takes a write only while its protection register holds the key;
  every other register takes any write; reading returns what was last taken.
\<close>

definition wdt_protection :: "chip \<Rightarrow> u32 \<Rightarrow> u32 option" where
  "wdt_protection c a =
     (if a = 0x6001F048 then Some 0x6001F064
      else if a = 0x60008000 + fst (rtc_wdt_offsets c) then Some (0x60008000 + snd (rtc_wdt_offsets c))
      else None)"

definition unlocked :: "chip \<Rightarrow> (u32 \<Rightarrow> u32) \<Rightarrow> u32 \<Rightarrow> bool" where
  "unlocked c regs a = (case wdt_protection c a of None \<Rightarrow> True | Some p \<Rightarrow> regs p = WDT_WKEY)"

definition reg_law :: "chip \<Rightarrow> 'w rom \<Rightarrow> bool" where
  "reg_law c rom \<longleftrightarrow> (\<forall>a x w. (\<lambda>b. read_volatile rom b (write_volatile rom a x w)) =
     (if unlocked c (\<lambda>b. read_volatile rom b w) a
      then (\<lambda>b. read_volatile rom b w)(a := x) else (\<lambda>b. read_volatile rom b w)))"

text \<open>
  A mapping call that reports success maps the window of whole 64 KiB pages at \<open>vaddr\<close> to
  the flash at \<open>paddr\<close>, and no other address.
\<close>

definition window :: "u32 \<Rightarrow> u32 \<Rightarrow> u32 \<Rightarrow> (u32 \<Rightarrow> u32) \<Rightarrow> u32 \<Rightarrow> u32" where
  "window vaddr paddr pages tr =
     (\<lambda>a. if unat (a - vaddr) < unat pages * 0x10000 then paddr + (a - vaddr) else tr a)"

definition mmu_law :: "'w rom \<Rightarrow> ('w \<Rightarrow> u32 \<Rightarrow> u32) \<Rightarrow> bool" where
  "mmu_law rom tr \<longleftrightarrow> (\<forall>va pa pages w w'. va AND 0xFFFF = 0 \<longrightarrow> pa AND 0xFFFF = 0 \<longrightarrow>
     (Cache_Dbus_MMU_Set rom 0 va pa 64 pages 0 w = (0, w') \<longrightarrow> tr w' = window va pa pages (tr w)) \<and>
     (Cache_Ibus_MMU_Set rom 0 va pa 64 pages 0 w = (0, w') \<longrightarrow> tr w' = window va pa pages (tr w)))"

section \<open>The board\<close>

record board =
  b_flash :: mem
  b_regs :: "u32 \<Rightarrow> u32"
  b_mmu :: "u32 \<Rightarrow> u32"

definition words_of :: "u8 list \<Rightarrow> u32 list" where
  "words_of bs = map from_le (chunks_exact 4 bs)"

definition board_mmu_set :: "u32 \<Rightarrow> u32 \<Rightarrow> u32 \<Rightarrow> u32 \<Rightarrow> u32 \<Rightarrow> u32 \<Rightarrow> board \<Rightarrow> i32 \<times> board" where
  "board_mmu_set ext va pa psize pages fixd w =
     (if va AND 0xFFFF = 0 \<and> pa AND 0xFFFF = 0 then (0, w\<lparr>b_mmu := window va pa pages (b_mmu w)\<rparr>) else (1, w))"

definition board_rom :: "chip \<Rightarrow> board rom" where
  "board_rom c = \<lparr>
     esp_rom_spiflash_read = (\<lambda>a buf n w.
       (0, words_of (slice_at (b_flash w) a (unat n)) @ drop (unat n div 4) buf, w)),
     esp_rom_spiflash_write = (\<lambda>a buf n w.
       (0, w\<lparr>b_flash := programmed (b_flash w) a (take (unat n) (window_bytes buf))\<rparr>)),
     esp_rom_spiflash_erase_sector = (\<lambda>k w. (0, w\<lparr>b_flash := erased (b_flash w) (k * 0x1000) 0x1000\<rparr>)),
     esp_rom_spiflash_unlock = (\<lambda>w. (0, w)),
     esp_rom_spiflash_attach = (\<lambda>c l w. w),
     esp_rom_spiflash_config_param = (\<lambda>a b c d e f w. w),
     ets_efuse_get_spiconfig = (\<lambda>w. 0),
     esp_rom_delay_us = (\<lambda>us w. w),
     rom_spiflash_legacy_data_store = (\<lambda>i x w. w),
     Cache_MMU_Init = (\<lambda>w. w),
     Cache_Enable_ICache = (\<lambda>x w. w),
     Cache_Suspend_ICache = (\<lambda>w. (0, w)),
     Cache_Resume_ICache = (\<lambda>x w. w),
     Cache_Invalidate_ICache_All = (\<lambda>w. w),
     Cache_Ibus_MMU_Set = board_mmu_set,
     Cache_Dbus_MMU_Set = board_mmu_set,
     read_volatile = (\<lambda>a w. b_regs w a),
     write_volatile = (\<lambda>a x w. if unlocked c (b_regs w) a then w\<lparr>b_regs := (b_regs w)(a := x)\<rparr> else w)\<rparr>"

lemma window_bytes_append: "window_bytes (xs @ ys) = window_bytes xs @ window_bytes ys"
  by (simp add: window_bytes_def)

lemma window_bytes_words_of: "length bs mod 4 = 0 \<Longrightarrow> window_bytes (words_of bs) = bs"
  by (simp add: window_bytes_def words_of_def o_def map_idI to_le_from_le chunks_exact_length concat_chunks_exact)

lemma board_flash_laws: "rom_flash_laws (board_rom c) b_flash"
  unfolding rom_flash_laws_def
proof (intro conjI)
  show "rom_read_law (board_rom c) b_flash"
    by (auto simp: rom_read_law_def board_rom_def window_bytes_append window_bytes_words_of)
qed (auto simp: rom_write_law_def rom_erase_law_def rom_quiet_law_def board_rom_def board_mmu_set_def)

lemma board_reg_law: "reg_law c (board_rom c)"
  by (auto simp: reg_law_def board_rom_def fun_eq_iff)

lemma board_mmu_law: "mmu_law (board_rom c) b_mmu"
  by (auto simp: mmu_law_def board_rom_def board_mmu_set_def)

section \<open>A reference fibewi\<close>

text \<open>
  The smallest boot core and policy that satisfy the laws: an entry is a 32-byte record of
  a state word, 24 filler bytes, and a commit word written last; the plan boots slot 0 when its image
  validates and writes nothing, and an image is valid when its first byte is \<open>0xE9\<close>.
\<close>

definition ref_body :: "u32 \<Rightarrow> u8 list" where
  "ref_body e = to_le 4 e @ replicate 28 0xFF"

definition ref_encode :: "u32 \<Rightarrow> u8 list" where
  "ref_encode e = to_le 4 e @ replicate 24 0xFF @ [0, 0, 0, 0]"

definition ref_core :: "u32 boot_core" where
  "ref_core = \<lparr>
     ENTRY_SIZE = 32, BLANK = replicate 32 0xFF, entry_seq = (\<lambda>e. e), entry_state = (\<lambda>e. e),
     entry_body = ref_body, entry_encode = ref_encode,
     entry_decode = (\<lambda>bs. if length bs = 32 \<and> drop 4 bs = replicate 24 0xFF @ [0, 0, 0, 0]
                          then Decoded_Ok (from_le (take 4 bs)) else Decoded_Other),
     write_ops = (\<lambda>wr. (Op_Erase, Op_Program 0 28 (to_le 4 (write_entry wr) @ replicate 28 0xFF),
                        Op_Program 28 4 (replicate 32 0))),
     state_NEW = 0, state_PENDING_VERIFY = 1, state_VALID = 2, state_INVALID = 3, state_ABORTED = 4,
     slot_of = (\<lambda>sq n. ucast (sq - 1) mod n),
     core_confirm = (\<lambda>es. Some \<lparr>write_sector = 0, write_entry = 2\<rparr>),
     core_reject = (\<lambda>es. None),
     core_activate = (\<lambda>es n i. Some \<lparr>write_sector = 1, write_entry = 0\<rparr>)\<rparr>"

definition ref_image :: "u32 \<Rightarrow> u8 list \<Rightarrow> image" where
  "ref_image off hdr = \<lparr>img_count = 1,
     img_segments = [\<lparr>seg_load = 0x3FC90000, seg_len = 16, seg_data_offset = off + 8\<rparr>],
     img_entry = from_le (drop 4 hdr)\<rparr>"

definition ref_policy :: "(u32, 'w) boot_policy" where
  "ref_policy = \<lparr>
     plan_boot = (\<lambda>es n ok. andthen (ok 0) (\<lambda>good.
       return (if good then Boot_Slot 0 1 else Boot_Halt NoImage, []))),
     validate = (\<lambda>rd off sz m s. case rd off (replicate 8 0) s of
         ((Ok _, hdr), s') \<Rightarrow> (if hdr ! 0 = 0xE9 then Ok (ref_image off hdr) else Err IE_BadMagic, s')
       | ((Err _, hdr), s') \<Rightarrow> (Err IE_Read, s')
       | ((Panic, hdr), s') \<Rightarrow> (Panic, s')),
     ram_target = (\<lambda>seg m. if contains (dram m) (seg_load seg) then Some (seg_load seg) else None)\<rparr>"

lemma ref_policy_laws: "policy_laws core (ref_policy :: (u32, 'w) boot_policy)"
  unfolding policy_laws_def
proof (intro conjI allI impI)
  fix I :: "'w boot_st \<Rightarrow> bool" and es and ok :: "u8 \<Rightarrow> ('w, bool) boot"
  assume ok: "\<forall>slot. unat slot < 2 \<longrightarrow> triple I (ok slot) (\<lambda>_. I) (\<lambda>_ _. False)"
  show "triple I (plan_boot ref_policy es SLOT_COUNT ok) (\<lambda>p s. I s \<and> sound_plan core p) (\<lambda>_ _. False)"
    unfolding ref_policy_def boot_policy.select_convs
    by (rule triple_andthen [OF ok [rule_format]]) (auto intro!: triple_return simp: sound_plan_def)
next
  fix I :: "'w boot_st \<Rightarrow> bool" and rd off sz m
  assume rd: "reader_keeps I rd"
  show "triple I (validate ref_policy rd off sz m) (\<lambda>_. I) (\<lambda>_. I)"
  proof (rule tripleI)
    fix s assume "I s"
    note read = rd [unfolded reader_keeps_def, rule_format, OF this, where a = off and buf = "replicate 8 0"]
    from read show "case validate ref_policy rd off sz m s of
        (Ok _, s') \<Rightarrow> I s' | (Err _, s') \<Rightarrow> I s' | (Panic, s') \<Rightarrow> False"
      by (auto simp: ref_policy_def split: prod.splits res.splits)
  qed
qed

lemma ref_write_fits: "write_fits ref_core wr"
  by (simp add: write_fits_def ref_core_def)

end
