(* ===== verification/Boot_Console.thy ===== *)
theory Boot_Console
  imports Ref_Device
begin

text \<open>
  What the bootloader prints and what it does to registers and MMU: the hexadecimal numbers read
  back as themselves, the flashboot watchdogs lose exactly their enable bit, and a mapped
  segment's addresses translate to its bytes in flash.
\<close>

section \<open>Console\<close>

definition nibble_of :: "u8 \<Rightarrow> u8" where
  "nibble_of c = (if c < 97 then c - 48 else c - 87)"

definition hex_value :: "u8 list \<Rightarrow> u32" where
  "hex_value ds = foldl (\<lambda>acc c. push_bit 4 acc OR ucast (nibble_of c)) 0 ds"

lemma word_and_F: "(y :: 'l::len word) AND 0xF = take_bit 4 y"
proof -
  have "mask 4 = (0xF :: 'l word)" by (simp add: mask_eq_exp_minus_1)
  then show ?thesis by (simp add: take_bit_eq_mask)
qed

lemma nibble_of_digit: "(n :: u8) < 16 \<Longrightarrow> nibble_of (if n < 10 then 48 + n else 97 + n - 10) = n"
proof -
  assume "n < 16"
  then have "unat n < 16" by (simp add: word_less_nat_alt)
  then have "unat n \<in> set [0..<16]" by simp
  then obtain k where "n = of_nat k" "k \<in> set [0..<16]" by (metis word_unat_eq_iff of_nat_unat ucast_id)
  then show ?thesis by (auto simp: nibble_of_def upt_rec)
qed

lemma hex_digit_nibble: "ucast (nibble_of (hex_digit x i)) = take_bit 4 (drop_bit ((7 - i) * 4) x)"
proof -
  let ?y = "drop_bit ((7 - i) * 4) x AND 0xF"
  have y: "?y = take_bit 4 (drop_bit ((7 - i) * 4) x)" by (rule word_and_F)
  have "unat ?y < 16" unfolding y by (simp add: unsigned_take_bit_eq take_bit_nat_less_exp [of 4, simplified])
  then have "unat (ucast ?y :: u8) = unat ?y" by (simp add: unsigned_ucast_eq take_bit_nat_eq_self)
  then have "(ucast ?y :: u8) < 16" using \<open>unat ?y < 16\<close> by (simp add: word_less_nat_alt)
  note nibble_of_digit [OF this]
  then have "nibble_of (hex_digit x i) = ucast ?y" by (simp add: hex_digit_def Let_def)
  moreover have "ucast (ucast ?y :: u8) = ?y"
    using \<open>unat (ucast ?y :: u8) = unat ?y\<close> by (metis unat_ucast_8_32 word_unat_eq_iff)
  ultimately show ?thesis using y by simp
qed

lemma hex_value_prefix:
  "k \<le> 8 \<Longrightarrow> hex_value (map (hex_digit x) [0..<k]) = drop_bit (32 - 4 * k) x"
proof (induction k)
  case 0
  then show ?case by (simp add: hex_value_def bit_eq_iff bit_drop_bit_eq)
next
  case (Suc k)
  have "32 - 4 * Suc k = (7 - k) * 4" "32 - 4 * k = (7 - k) * 4 + 4" using Suc.prems by simp_all
  moreover have "push_bit 4 (drop_bit (n + 4) x) OR take_bit 4 (drop_bit n x) = drop_bit n x" for n
    by (rule bit_word_eqI) (auto simp: bit_or_iff bit_push_bit_iff bit_take_bit_iff bit_drop_bit_eq add.commute not_less)
  ultimately show ?case
    using Suc by (simp add: hex_value_def hex_digit_nibble)
qed

text \<open>\<open>put_u32\<close> prints \<open>0x\<close> and eight hexadecimal digits that denote the number it was given.\<close>

theorem put_u32_denotes:
  "\<exists>ds. put_u32 x = [48, 120] @ ds \<and> length ds = 8 \<and> hex_value ds = x"
  using hex_value_prefix [of 8 x] by (intro exI [of _ "map (hex_digit x) [0..<8]"]) (simp add: put_u32_def)

section \<open>Watchdogs\<close>

lemma clear_bit_run:
  assumes law: "reg_law c rom" and prot: "wdt_protection c (base + config) = Some (base + protect)"
    and free: "wdt_protection c (base + protect) = None" and ne: "base + config \<noteq> base + protect"
  shows "\<exists>w'. clear_bit rom base config protect b w = (Ok (read_volatile rom (base + config) w), w') \<and>
    (\<lambda>a. read_volatile rom a w') = (\<lambda>a. read_volatile rom a w)
       (base + config := read_volatile rom (base + config) w AND NOT (push_bit b 1), base + protect := 0)"
proof -
  let ?regs = "\<lambda>w a. read_volatile rom a w"
  note step = law [unfolded reg_law_def, rule_format]
  let ?w1 = "write_volatile rom (base + protect) WDT_WKEY w"
  let ?w2 = "write_volatile rom (base + config) (read_volatile rom (base + config) w AND NOT (push_bit b 1)) ?w1"
  let ?w3 = "write_volatile rom (base + protect) 0 ?w2"
  have 1: "?regs ?w1 = (?regs w)(base + protect := WDT_WKEY)" 
    unfolding step [of "base + protect" _ w] by (simp add: unlocked_def free)
  have 2: "?regs ?w2 = (?regs ?w1)(base + config := ?regs w (base + config) AND NOT (push_bit b 1))"
    unfolding step [of "base + config" _ ?w1] by (simp add: unlocked_def prot fun_cong [OF 1])
  have 3: "?regs ?w3 = (?regs ?w2)(base + protect := 0)" 
    unfolding step [of "base + protect" _ ?w2] by (simp add: unlocked_def free)
  have "?regs ?w3 = (?regs w)(base + config := ?regs w (base + config) AND NOT (push_bit b 1), base + protect := 0)"
    unfolding 3 2 1 using ne by (auto simp: fun_eq_iff)
  then show ?thesis by (intro exI [of _ ?w3]) (simp add: clear_bit_def Let_def combinator_defs)
qed

text \<open>C12: on both chips, \<open>clear_flashboot_watchdogs\<close> clears exactly the flashboot-enable bit of the
  timer-group-0 watchdog (bit 14) and of the RTC watchdog (bit 12), leaves both configuration
  registers locked again, changes no other register, and reports their previous values.\<close>

theorem watchdogs_disarmed:
  assumes "reg_law c rom"
  shows "\<exists>w'. (clear_flashboot_watchdogs c rom :: ('w, u32 \<times> u32, 'e) comp) w =
      (Ok (read_volatile rom 0x6001F048 w, read_volatile rom (0x60008000 + fst (rtc_wdt_offsets c)) w), w') \<and>
    (\<lambda>a. read_volatile rom a w') = (\<lambda>a. read_volatile rom a w)
       (0x6001F048 := read_volatile rom 0x6001F048 w AND NOT (push_bit 14 1), 0x6001F064 := 0,
        0x60008000 + fst (rtc_wdt_offsets c) :=
          read_volatile rom (0x60008000 + fst (rtc_wdt_offsets c)) w AND NOT (push_bit 12 1),
        0x60008000 + snd (rtc_wdt_offsets c) := 0)"
proof -
  let ?cfg = "fst (rtc_wdt_offsets c)" and ?wp = "snd (rtc_wdt_offsets c)"
  obtain w1 where w1: "(clear_bit rom 0x6001F000 0x48 0x64 14 :: ('w, u32, 'e) comp) w = (Ok (read_volatile rom 0x6001F048 w), w1)"
      "(\<lambda>a. read_volatile rom a w1) = (\<lambda>a. read_volatile rom a w)
         (0x6001F048 := read_volatile rom 0x6001F048 w AND NOT (push_bit 14 1), 0x6001F064 := 0)"
    using clear_bit_run [OF assms, where base = "0x6001F000" and config = "0x48" and protect = "0x64" and b = 14 and w = w]
    by (cases c) (auto simp: wdt_protection_def rtc_wdt_offsets_def)
  obtain w2 where w2: "(clear_bit rom 0x60008000 ?cfg ?wp 12 :: ('w, u32, 'e) comp) w1 = (Ok (read_volatile rom (0x60008000 + ?cfg) w1), w2)"
      "(\<lambda>a. read_volatile rom a w2) = (\<lambda>a. read_volatile rom a w1)
         (0x60008000 + ?cfg := read_volatile rom (0x60008000 + ?cfg) w1 AND NOT (push_bit 12 1), 0x60008000 + ?wp := 0)"
    using clear_bit_run [OF assms, where base = "0x60008000" and config = ?cfg and protect = ?wp and b = 12 and w = w1]
    by (cases c) (auto simp: wdt_protection_def rtc_wdt_offsets_def)
  have same: "read_volatile rom (0x60008000 + ?cfg) w1 = read_volatile rom (0x60008000 + ?cfg) w"
    using fun_cong [OF w1(2), of "0x60008000 + ?cfg"] by (cases c) (simp_all add: rtc_wdt_offsets_def)
  show ?thesis
    by (intro exI [of _ w2])
       (simp add: clear_flashboot_watchdogs_def andthen_def w1(1) w2(1) return_def w2(2) w1(2) same)
qed

theorem watchdogs_disarmed_witness:
  "\<exists>w'. (clear_flashboot_watchdogs Esp32s3 (board_rom Esp32s3) :: (board, u32 \<times> u32, unit) comp)
       \<lparr>b_flash = \<lambda>_. 0, b_regs = \<lambda>_. 0xFFFFFFFF, b_mmu = \<lambda>a. a\<rparr> = (Ok (0xFFFFFFFF, 0xFFFFFFFF), w') \<and>
     b_regs w' 0x6001F048 = 0xFFFFBFFF \<and> b_regs w' 0x60008098 = 0xFFFFEFFF \<and>
     b_regs w' 0x6001F064 = 0 \<and> b_regs w' 0x600080B0 = 0"
proof -
  let ?w = "\<lparr>b_flash = \<lambda>_. 0, b_regs = \<lambda>_. 0xFFFFFFFF, b_mmu = \<lambda>a. a\<rparr>"
  have rd: "read_volatile (board_rom Esp32s3) a w = b_regs w a" for a w by (simp add: board_rom_def)
  show ?thesis
    using watchdogs_disarmed [OF board_reg_law, of Esp32s3 ?w]
    by (auto simp: rd rtc_wdt_offsets_def fun_eq_iff)
qed

section \<open>The MMU\<close>

text \<open>C11: when \<open>map_if_flash\<close> succeeds on a segment in a flash window whose load address and flash
  offset have the same page offset, every address of the segment translates to its byte in
  flash; the only failure is the MMU's own, and nothing else is reported as an error.\<close>

theorem map_if_flash_translates:
  assumes mmu: "mmu_law rom tr" and page: "mmu_page m = 0x10000"
    and seg: "is_flash_mapped m (seg_load seg)"
    and al: "seg_load seg AND 0xFFFF = seg_data_offset seg AND 0xFFFF"
    and room: "unat (seg_load seg AND 0xFFFF) + unat (seg_len seg) < 2 ^ 32"
  shows "case map_if_flash rom m seg s of
      (Ok _, s') \<Rightarrow> \<forall>i < seg_len seg. tr (dev s') (seg_load seg + i) = seg_data_offset seg + i
    | (Err e, s') \<Rightarrow> (\<exists>rc. rc \<noteq> 0 \<and> e = BE_Mmu rc)
    | (Panic, s') \<Rightarrow> False"
proof -
  let ?va = "map_vaddr m seg" and ?pa = "map_paddr m seg" and ?pages = "map_pages m seg"
  have mask: "mmu_page m - 1 = 0xFFFF" by (simp add: page)
  have lead: "seg_load seg - ?va = seg_load seg AND 0xFFFF" using map_vaddr_window(1) [of seg m] by (simp add: mask)
  have aligned: "?va AND 0xFFFF = 0" "?pa AND 0xFFFF = 0"
    unfolding map_vaddr_def map_paddr_def mask by (rule aligned_down_and)+
  have translated: "window ?va ?pa ?pages t (seg_load seg + i) = seg_data_offset seg + i"
    if "i < seg_len seg" for t i
  proof -
    have "seg_load seg + i - ?va = (seg_load seg - ?va) + i" by simp
    then have "unat (seg_load seg + i - ?va) \<le> unat (seg_load seg - ?va) + unat i" by (metis unat_add_le)
    also have "\<dots> < unat (seg_load seg - ?va) + unat (seg_len seg)" using that by (simp add: word_less_nat_alt)
    also have "\<dots> \<le> unat ?pages * 0x10000" using map_covers [of m seg] room by (simp add: page lead)
    finally show ?thesis
      using map_translates [of seg m i] al by (simp add: window_def mask)
  qed
  show ?thesis
    using mmu [unfolded mmu_law_def, rule_format, OF aligned, of ?pages] seg translated
    by (auto simp: map_if_flash_def is_flash_mapped_def Let_def on_dev_def log_def map_drom_def map_irom_def
        combinator_defs split: prod.splits)
qed

text \<open>An erased board with identity MMU, and the bootloader's state on it.\<close>

definition fresh_boot :: "mem \<Rightarrow> board boot_st" where
  "fresh_boot V = \<lparr>dev = \<lparr>b_flash = V, b_regs = \<lambda>_. 0xFFFFFFFF, b_mmu = \<lambda>a. a\<rparr>, ram = \<lambda>_. 0, console = []\<rparr>"

lemma fresh_boot_simps [simp]:
  "b_flash (dev (fresh_boot V)) = V" "ram (fresh_boot V) = (\<lambda>_. 0)"
  by (simp_all add: fresh_boot_def)

definition ref_segment :: segment where
  "ref_segment = \<lparr>seg_load = 0x3C010020, seg_len = 0x1234, seg_data_offset = 0x20020\<rparr>"

theorem map_if_flash_translates_witness:
  "case map_if_flash (board_rom Esp32c3) esp32c3_BOOT_MEMORY_MAP ref_segment (fresh_boot (\<lambda>_. 0xFF)) of
      (Ok _, s') \<Rightarrow> \<forall>i < 0x1234. b_mmu (dev s') (0x3C010020 + i) = 0x20020 + i
    | (Err e, s') \<Rightarrow> (\<exists>rc. rc \<noteq> 0 \<and> e = BE_Mmu rc)
    | (Panic, s') \<Rightarrow> False"
proof -
  have fields: "seg_load ref_segment = 0x3C010020" "seg_len ref_segment = 0x1234"
    "seg_data_offset ref_segment = 0x20020" by (simp_all add: ref_segment_def)
  have "is_flash_mapped esp32c3_BOOT_MEMORY_MAP (seg_load ref_segment)"
    by (simp add: is_flash_mapped_def contains_def map_defs fields)
  from map_if_flash_translates [OF board_mmu_law [of Esp32c3] _ this, where s = "fresh_boot (\<lambda>_. 0xFF)"]
  show ?thesis unfolding fields by (simp add: map_defs)
qed

end
