(* ===== verification/Boot_Theorems.thy ===== *)
theory Boot_Theorems
  imports Boot_Console
begin

text \<open>
  What the bootloader guarantees, for every ROM that satisfies \<open>rom_flash_laws\<close> and every fibewi
  that satisfies \<open>policy_laws\<close>: the theorems about whole operations, each with a witness on the
  reference board.
\<close>

section \<open>A reference flash\<close>

definition ref_parts :: "part list" where
  "ref_parts = [
     \<lparr>part_type = TYPE_DATA, part_subtype = 2, part_offset = 0x9000, part_size = 0x6000, part_label = [110, 118, 115]\<rparr>,
     \<lparr>part_type = TYPE_DATA, part_subtype = SUBTYPE_OTADATA, part_offset = 0xF000, part_size = 0x2000, part_label = []\<rparr>,
     \<lparr>part_type = TYPE_APP, part_subtype = SUBTYPE_OTA_0, part_offset = 0x20000, part_size = 0x100000, part_label = []\<rparr>,
     \<lparr>part_type = TYPE_APP, part_subtype = SUBTYPE_OTA_1, part_offset = 0x120000, part_size = 0x100000, part_label = []\<rparr>]"

definition ref_layout :: layout where
  "ref_layout = \<lparr>otadata = (0xF000, 0x2000), apps = [(0x20000, 0x100000), (0x120000, 0x100000)]\<rparr>"

definition ref_flash :: mem where
  "ref_flash = stored (stored (\<lambda>_. 0xFF) 0x20000 [0xE9, 1, 2, 3, 0x10, 0x00, 0x38, 0x40]) 0x8000 (encode_table ref_parts)"

lemma ref_parts_found:
  "length ref_parts \<le> 96" "find_part TYPE_DATA SUBTYPE_OTADATA ref_parts = Some (0xF000, 0x2000)"
  "find_part TYPE_APP SUBTYPE_OTA_0 ref_parts = Some (0x20000, 0x100000)"
  "find_part TYPE_APP SUBTYPE_OTA_1 ref_parts = Some (0x120000, 0x100000)"
  by (simp_all add: ref_parts_def find_part_def table_consts)

lemma length_encode_table: "length ps \<le> 96 \<Longrightarrow> length (encode_table ps) = 0xC00"
  by (simp add: encode_table_def length_concat o_def sum_list_triv)

lemma ref_table: "table_at ref_flash = encode_table ref_parts"
proof -
  have "length (encode_table ref_parts) = 0xC00" by (rule length_encode_table) (rule ref_parts_found)
  then show ?thesis
    using slice_at_stored [where bs = "encode_table ref_parts" and base = "0x8000"]
    by (simp add: table_at_def ref_flash_def PARTITION_TABLE_OFFSET_def PARTITION_TABLE_LEN_def)
qed

lemma ref_table_spec: "table_spec (table_at ref_flash) = Inr ref_layout"
  unfolding ref_table ref_layout_def by (rule table_roundtrip) (simp_all add: ref_parts_found)

lemma ref_otadata_region: "otadata_region ref_flash = region 0xF000 0x2000"
  unfolding otadata_region_def ref_table_spec by (simp add: ref_layout_def touched_def)

section \<open>Booting\<close>

text \<open>C1: whatever flash holds and whatever commands fail, a boot does not panic, and changes no
  flash byte outside the sectors of the table's two otadata entries: the two sectors of the partition when
  it is 4 KiB aligned, as ESP-IDF requires, and one more when it is not, which the code does not check.  If it
  jumps, then to the entry point of an image that fibewi's validation accepted, with flash as it then was, in
  one of the two slots of the partition table, and RAM differs from before only by that image's
  RAM segments, each a byte-for-byte copy of flash.\<close>

theorem boot_safe:
  assumes "rom_flash_laws rom v" and "policy_laws core pol"
  shows "case boot c core pol rom s of
      (Ok entry, s') \<Rightarrow> same_outside (otadata_region (v (dev s))) (v (dev s)) (v (dev s')) \<and>
         (\<exists>lay slot img. table_spec (table_at (v (dev s))) = Inr lay \<and> slot < 2 \<and>
            validated pol rom v (v (dev s')) (memory_map_of c) (apps lay ! slot) img \<and>
            entry = img_entry img \<and>
            ram s' = loaded_ram pol (memory_map_of c) (v (dev s')) img (ram s))
    | (Err e, s') \<Rightarrow> same_outside (otadata_region (v (dev s))) (v (dev s)) (v (dev s'))
    | (Panic, s') \<Rightarrow> False"
  using tripleD [OF boot_triple [OF assms, of "v (dev s)" "ram s" c], of s]
  by (auto simp: boot_ok_def split: prod.splits res.splits)

theorem boot_safe_witness:
  "case boot Esp32c3 ref_core ref_policy (board_rom Esp32c3) (fresh_boot ref_flash) of
      (Ok entry, s') \<Rightarrow> same_outside (region 0xF000 0x2000) ref_flash (b_flash (dev s')) \<and>
         (\<exists>lay slot img. table_spec (table_at ref_flash) = Inr lay \<and> slot < 2 \<and>
            validated ref_policy (board_rom Esp32c3) b_flash (b_flash (dev s')) (memory_map_of Esp32c3)
              (apps lay ! slot) img \<and>
            entry = img_entry img \<and>
            ram s' = loaded_ram (ref_policy :: (u32, board) boot_policy) (memory_map_of Esp32c3) (b_flash (dev s')) img (\<lambda>_. 0))
    | (Err e, s') \<Rightarrow> same_outside (region 0xF000 0x2000) ref_flash (b_flash (dev s'))
    | (Panic, s') \<Rightarrow> False"
proof -
  note run = boot_safe [OF board_flash_laws [of Esp32c3] ref_policy_laws, where core = ref_core and c = Esp32c3 and s = "fresh_boot ref_flash"]
  with ref_otadata_region show ?thesis by (simp only: fresh_boot_simps)
qed

section \<open>Committing an entry\<close>

text \<open>C2: provided the entry's sector is 4 KiB aligned, as ESP-IDF requires of the otadata partition and the code
  does not check, and fibewi's two program operations stay in that sector, \<open>execute\<close> never panics and
  touches only that sector.  When it returns, the
  sector holds exactly the erased sector with the body and the commit word programmed and reads back as the
  encoding of the entry, which decodes to it.  When it fails, the sector is in the state of the step that failed:
  in step 0 it may hold anything, in step 1 it is erased except for the body's bytes, in step 2 the body is
  in place and verified and only the commit bytes are in doubt.  The error is \<open>OtadataWrite\<close> with that very
  step and the sector's address, except that a ROM read that fails during a read-back is passed on as it is,
  with the address of the failed chunk and without the step.\<close>

theorem execute_commits:
  assumes "rom_flash_laws rom v" and "write_base lay wr AND 0xFFF = 0" and "write_fits core wr"
  shows "case execute core rom wr lay s of
      (Ok _, s') \<Rightarrow> committed core wr (write_base lay wr) (v (dev s)) (v (dev s')) \<and>
         same_outside (region (write_base lay wr) 0x1000) (v (dev s)) (v (dev s'))
    | (Err e, s') \<Rightarrow> (\<exists>k. failed_at core wr (write_base lay wr) (v (dev s)) k (v (dev s')) \<and>
           (e = BE_OtadataWrite k (write_base lay wr) \<or> read_back_error rom (write_base lay wr) (ENTRY_SIZE core) e)) \<and>
         same_outside (region (write_base lay wr) 0x1000) (v (dev s)) (v (dev s'))
    | (Panic, s') \<Rightarrow> False"
proof -
  obtain r s' where run: "execute core rom wr lay s = (r, s')" by (metis surj_pair)
  note post = tripleD [OF execute_triple [OF assms, of "v (dev s)"], of s, unfolded run]
  show ?thesis
  proof (cases r)
    case (Ok u)
    then show ?thesis using post committed_outside [OF assms(3)] by (auto simp: run)
  next
    case (Err e)
    then have failed: "execute_failed core wr (write_base lay wr) (v (dev s)) e (v (dev s'))" using post by simp
    from execute_failure [OF assms(1) failed run [unfolded Err]] execute_failed_outside [OF assms(3) failed]
    show ?thesis by (simp add: run Err)
  qed (use post in simp)
qed

theorem execute_commits_witness:
  "case execute ref_core (board_rom Esp32s3) \<lparr>write_sector = 1, write_entry = 7\<rparr> ref_layout (fresh_boot ref_flash) of
      (Ok _, s') \<Rightarrow> committed ref_core \<lparr>write_sector = 1, write_entry = 7\<rparr> 0x10000 ref_flash (b_flash (dev s')) \<and>
         same_outside (region 0x10000 0x1000) ref_flash (b_flash (dev s'))
    | (Err e, s') \<Rightarrow> (\<exists>k. failed_at ref_core \<lparr>write_sector = 1, write_entry = 7\<rparr> 0x10000 ref_flash k (b_flash (dev s')) \<and>
           (e = BE_OtadataWrite k 0x10000 \<or> read_back_error (board_rom Esp32s3) 0x10000 (ENTRY_SIZE ref_core) e)) \<and>
         same_outside (region 0x10000 0x1000) ref_flash (b_flash (dev s'))
    | (Panic, s') \<Rightarrow> False"
proof -
  let ?wr = "\<lparr>write_sector = 1, write_entry = 7 :: u32\<rparr>"
  have base: "write_base ref_layout ?wr = 0x10000" by (simp add: write_base_def ref_layout_def SECTOR_def)
  then have "write_base ref_layout ?wr AND 0xFFF = 0" by simp
  from execute_commits [OF board_flash_laws [of Esp32s3] this ref_write_fits, where s = "fresh_boot ref_flash"]
  show ?thesis unfolding base fresh_boot_simps .
qed

section \<open>The partition table\<close>

text \<open>C9: from the flash contents alone, \<open>read_layout\<close> returns the last otadata, ota_0 and ota_1 entries
  of the table at 0x8000 before its first entry without the magic.  It fails with the error the specification
  gives for those contents, a missing table or the number of the missing partition, or else with the ROM's read
  error, naming an address of the table: then the table could be read neither at first nor again after the flash was
  re-attached, so never when the ROM's reads succeed.  It never panics and changes neither flash nor RAM.\<close>

theorem read_layout_reads_table:
  assumes "rom_flash_laws rom v"
  shows "case read_layout rom s of
      (Ok lay, s') \<Rightarrow> table_spec (table_at (v (dev s))) = Inr lay \<and> v (dev s') = v (dev s) \<and> ram s' = ram s
    | (Err e, s') \<Rightarrow> v (dev s') = v (dev s) \<and> ram s' = ram s \<and>
        (table_spec (table_at (v (dev s))) = Inl e \<or>
         table_unreadable rom s e s' \<and> read_back_error rom PARTITION_TABLE_OFFSET PARTITION_TABLE_LEN e)
    | (Panic, s') \<Rightarrow> False"
  by (rule read_layout_outcome [OF assms])

theorem read_layout_reads_table_witness:
  "case read_layout (board_rom Esp32c3) (fresh_boot ref_flash) of
      (Ok lay, s') \<Rightarrow> table_spec (encode_table ref_parts) = Inr lay \<and> b_flash (dev s') = ref_flash \<and> ram s' = (\<lambda>_. 0)
    | (Err e, s') \<Rightarrow> b_flash (dev s') = ref_flash \<and> ram s' = (\<lambda>_. 0) \<and>
        (table_spec (encode_table ref_parts) = Inl e \<or>
         table_unreadable (board_rom Esp32c3) (fresh_boot ref_flash) e s' \<and>
         read_back_error (board_rom Esp32c3) PARTITION_TABLE_OFFSET PARTITION_TABLE_LEN e)
    | (Panic, s') \<Rightarrow> False"
  using read_layout_reads_table [OF board_flash_laws [of Esp32c3], of "fresh_boot ref_flash"]
  unfolding ref_table fresh_boot_simps .

text \<open>C10: a table written in the ESP-IDF format, with otadata of at least two sectors and both
  OTA slots, is read back as exactly the ranges it was written with.\<close>

theorem layout_roundtrip:
  assumes "length ps \<le> 96"
    and "find_part TYPE_DATA SUBTYPE_OTADATA ps = Some (od, od_size)" and "0x2000 \<le> od_size"
    and "find_part TYPE_APP SUBTYPE_OTA_0 ps = Some a0"
    and "find_part TYPE_APP SUBTYPE_OTA_1 ps = Some a1"
  shows "layout_of_table (encode_table ps) s = (Ok \<lparr>otadata = (od, od_size), apps = [a0, a1]\<rparr>, s)"
  by (simp add: layout_of_table_spec table_roundtrip [OF assms])

theorem layout_roundtrip_witness:
  "layout_of_table (encode_table ref_parts) () = (Ok ref_layout, ())"
  unfolding ref_layout_def by (rule layout_roundtrip) (simp_all add: ref_parts_found)

section \<open>ROM access\<close>

text \<open>C5: \<open>flash_read\<close> of any length at any offset, aligned or not, delivers exactly the flash
  bytes at that offset, although it reads whole words through a 252-byte window; after an error of
  the ROM the bytes before the failed chunk are already correct and the error names the
  chunk's aligned address; flash is never changed.\<close>

theorem flash_read_exact:
  assumes "rom_flash_laws rom v"
  shows "case flash_read rom offset out w of
      ((Ok _, out'), w') \<Rightarrow> v w' = v w \<and> out' = slice_at (v w) offset (length out)
    | ((Err e, out'), w') \<Rightarrow> v w' = v w \<and> length out' = length out \<and>
        (\<exists>d < length out. e = FlashRead ((offset + of_nat d) AND NOT 3) \<and> take d out' = slice_at (v w) offset d)
    | ((Panic, out'), w') \<Rightarrow> False"
  using flash_read_spec [OF assms, of w offset out] unfolding read_post_def .

theorem flash_read_exact_witness:
  "case flash_read (board_rom Esp32c3) 0x8003 (replicate 1000 0) (dev (fresh_boot ref_flash)) of
      ((Ok _, out'), w') \<Rightarrow> b_flash w' = ref_flash \<and> out' = slice_at ref_flash 0x8003 1000
    | ((Err e, out'), w') \<Rightarrow> b_flash w' = ref_flash \<and> length out' = 1000 \<and>
        (\<exists>d < 1000. e = FlashRead ((0x8003 + of_nat d) AND NOT 3) \<and> take d out' = slice_at ref_flash 0x8003 d)
    | ((Panic, out'), w') \<Rightarrow> False"
  using flash_read_exact [OF board_flash_laws [of Esp32c3], where offset = "0x8003" and out = "replicate 1000 0" and w = "dev (fresh_boot ref_flash)"]
  unfolding fresh_boot_simps length_replicate .

text \<open>C6: \<open>flash_program\<close> refuses an unaligned address or length before any command; otherwise, on success
  exactly the bits the data clear are cleared and, when the range was erased, it reads back as
  the data; on failure nothing outside the range has changed.  It never panics.\<close>

theorem flash_program_exact:
  assumes "rom_flash_laws rom v" and "length data \<le> 2 ^ 32"
  shows "case flash_program rom at data w of
      (Ok _, w') \<Rightarrow> at AND 3 = 0 \<and> length data mod 4 = 0 \<and> v w' = programmed (v w) at data \<and>
        (slice_at (v w) at (length data) = replicate (length data) 0xFF \<longrightarrow> slice_at (v w') at (length data) = data)
    | (Err e, w') \<Rightarrow> same_outside (region at (length data)) (v w) (v w') \<and>
        (at AND 3 \<noteq> 0 \<or> length data mod 4 \<noteq> 0 \<longrightarrow> w' = w \<and> e = FlashProgram at)
    | (Panic, w') \<Rightarrow> False"
proof -
  have "map2 (AND) (replicate (length data) 0xFF) data = data"
  proof (rule nth_equalityI)
    fix i assume "i < length (map2 (AND) (replicate (length data) (0xFF :: u8)) data)"
    moreover have "(0xFF :: u8) AND b = b" for b
    proof -
      have "(0xFF :: u8) = - 1" by simp
      then show ?thesis by (simp only: and.left_neutral)
    qed
    ultimately show "map2 (AND) (replicate (length data) 0xFF) data ! i = data ! i" by simp
  qed simp
  then show ?thesis
    using tripleD [OF flash_program_triple [OF assms, of "v w" at], of w] slice_at_programmed [OF assms(2), of "v w" at]
    by (auto simp: flash_program_def split: prod.splits res.splits if_splits)
qed

theorem flash_program_exact_witness:
  "case flash_program (board_rom Esp32c3) 0xF000 (replicate 600 7) (dev (fresh_boot ref_flash)) of
      (Ok _, w') \<Rightarrow> (0xF000 :: u32) AND 3 = 0 \<and> (600 :: nat) mod 4 = 0 \<and>
        b_flash w' = programmed ref_flash 0xF000 (replicate 600 7) \<and>
        (slice_at ref_flash 0xF000 600 = replicate 600 0xFF \<longrightarrow> slice_at (b_flash w') 0xF000 600 = replicate 600 7)
    | (Err e, w') \<Rightarrow> same_outside (region 0xF000 600) ref_flash (b_flash w') \<and>
        ((0xF000 :: u32) AND 3 \<noteq> 0 \<or> (600 :: nat) mod 4 \<noteq> 0 \<longrightarrow>
           w' = dev (fresh_boot ref_flash) \<and> e = FlashProgram 0xF000)
    | (Panic, w') \<Rightarrow> False"
proof -
  have "length (replicate 600 (7 :: u8)) \<le> 2 ^ 32" by simp
  from flash_program_exact [OF board_flash_laws [of Esp32c3] this, where at = "0xF000" and w = "dev (fresh_boot ref_flash)"]
  show ?thesis unfolding fresh_boot_simps length_replicate .
qed

section \<open>Loading\<close>

definition ram_region :: "('e, 'w) boot_policy \<Rightarrow> memory_map \<Rightarrow> segment \<Rightarrow> u32 set" where
  "ram_region pol m seg = (case ram_target pol seg m of None \<Rightarrow> {} | Some t \<Rightarrow> region t (unat (seg_len seg)))"

definition loaded_segments :: "image \<Rightarrow> segment list" where
  "loaded_segments img = filter (\<lambda>s. 0 < seg_len s) (img_segments img)"

lemma load_segment_outside: "a \<notin> ram_region pol m seg \<Longrightarrow> load_segment pol m V seg R a = R a"
  by (auto simp: ram_region_def load_segment_def stored_def split: option.splits)

lemma fold_load_outside:
  "a \<notin> (\<Union>s \<in> set segs. ram_region pol m s) \<Longrightarrow> fold (load_segment pol m V) segs R a = R a"
  by (induction segs arbitrary: R) (simp_all add: load_segment_outside)

lemma fold_load_segment:
  assumes "sorted_wrt (\<lambda>s s'. ram_region pol m s \<inter> ram_region pol m s' = {}) segs"
    and "seg \<in> set segs" and "ram_target pol seg m = Some t"
  shows "slice_at (fold (load_segment pol m V) segs R) t (unat (seg_len seg)) =
         slice_at V (seg_data_offset seg) (unat (seg_len seg))"
  using assms(1,2)
proof (induction segs arbitrary: R)
  case (Cons s segs)
  show ?case
  proof (cases "seg \<in> set segs")
    case False
    with Cons.prems have s: "s = seg" by simp
    have reg: "ram_region pol m seg = region t (unat (seg_len seg))" by (simp add: ram_region_def assms(3))
    have "slice_at (fold (load_segment pol m V) segs (load_segment pol m V seg R)) t (unat (seg_len seg)) =
        slice_at (load_segment pol m V seg R) t (unat (seg_len seg))"
      by (rule slice_at_cong, rule fold_load_outside) (use Cons.prems(1) in \<open>auto simp: s reg disjoint_iff\<close>)
    also have "\<dots> = slice_at V (seg_data_offset seg) (unat (seg_len seg))"
      using slice_at_stored [of "slice_at V (seg_data_offset seg) (unat (seg_len seg))" R t]
        unat_lt_usize_limit [of "seg_len seg"]
      by (simp add: usize_limit_def load_segment_def assms(3))
    finally show ?thesis by (simp add: s)
  qed (use Cons in simp)
qed simp

text \<open>C4: when \<open>load\<close> returns, it returns the entry point of an image just validated in the slot's
  partition; if the image's RAM segments do not overlap, each has arrived in RAM byte for
  byte; RAM outside them and all of flash are as before; on an error flash is as before; it
  never panics.\<close>

theorem load_copies_segments:
  assumes "rom_flash_laws rom v" and "policy_laws core pol" and "unat slot < length (apps lay)"
  shows "case load c pol rom lay slot s of
      (Ok entry, s') \<Rightarrow> v (dev s') = v (dev s) \<and>
        (\<exists>img. validated pol rom v (v (dev s)) (memory_map_of c) (apps lay ! unat slot) img \<and> entry = img_entry img \<and>
           (\<forall>a. a \<notin> (\<Union>seg \<in> set (loaded_segments img). ram_region pol (memory_map_of c) seg) \<longrightarrow> ram s' a = ram s a) \<and>
           (sorted_wrt (\<lambda>x y. ram_region pol (memory_map_of c) x \<inter> ram_region pol (memory_map_of c) y = {})
              (loaded_segments img) \<longrightarrow>
            (\<forall>seg \<in> set (loaded_segments img). \<forall>t. ram_target pol seg (memory_map_of c) = Some t \<longrightarrow>
               slice_at (ram s') t (unat (seg_len seg)) =
               slice_at (v (dev s)) (seg_data_offset seg) (unat (seg_len seg)))))
    | (Err e, s') \<Rightarrow> v (dev s') = v (dev s)
    | (Panic, s') \<Rightarrow> False"
  using tripleD [OF load_triple [OF assms, of "v (dev s)" "ram s" c], of s]
  by (fastforce simp: loaded_ram_def loaded_segments_def [symmetric] fold_load_outside fold_load_segment
      split: prod.splits res.splits)

theorem load_copies_segments_witness:
  "\<exists>r s'. load Esp32c3 (ref_policy :: (u32, board) boot_policy) (board_rom Esp32c3) ref_layout 0 (fresh_boot ref_flash) = (r, s') \<and>
     r \<noteq> Panic \<and> b_flash (dev s') = ref_flash"
proof -
  have "unat (0 :: u8) < length (apps ref_layout)" by (simp add: ref_layout_def)
  from load_copies_segments [OF board_flash_laws [of Esp32c3] ref_policy_laws this, where s = "fresh_boot ref_flash" and c = Esp32c3]
  show ?thesis by (auto split: prod.splits res.splits)
qed

section \<open>The end of main\<close>

lemma calm_on_dev:
  assumes "\<And>V. triple (\<lambda>w. v w = V) m (\<lambda>_ w. v w = V) (\<lambda>_ _. False)"
  shows "triple (at_rest v V R) (on_dev m) (\<lambda>_. at_rest v V R) (\<lambda>_ _. False)"
  by (rule triple_conseq [OF triple_keeps [OF triple_on_dev [OF assms] keeps_on_dev(1)]]) auto

lemma calm_watchdogs:
  assumes "rom_flash_laws rom v"
  shows "triple (\<lambda>w. v w = V) (clear_flashboot_watchdogs c rom) (\<lambda>_ w. v w = V) (\<lambda>_ _. False)"
  unfolding clear_flashboot_watchdogs_def clear_bit_def Let_def
  by (intro triple_andthen [where R = "\<lambda>_ w. v w = V"] triple_gets triple_modify triple_return)
     (simp_all add: rom_quiet_laws [OF assms])

lemma calm_log: "triple (at_rest v V R) (log parts) (\<lambda>_. at_rest v V R) (\<lambda>_ _. False)"
  by (simp add: triple_def log_def modify_def)

text \<open>The state in which \<open>main\<close> calls \<open>boot\<close>: only the hardware and the console have changed.\<close>

definition boot_starts :: "chip \<Rightarrow> 'w rom \<Rightarrow> ('w \<Rightarrow> 'w) \<Rightarrow> 'w boot_st \<Rightarrow> 'w boot_st \<Rightarrow> bool" where
  "boot_starts c rom init s s0 \<longleftrightarrow> ram s0 = ram s \<and>
     dev s0 = init (snd ((clear_flashboot_watchdogs c rom :: ('w, u32 \<times> u32, unit) comp) (dev s)))"

text \<open>C7: \<open>main\<close> runs \<open>boot\<close> on the hardware as the watchdog registers and \<open>esp_hal::init\<close> left it, with flash
  and RAM as at reset.  Either that boot returned an entry point, and \<open>main\<close> jumps there: the
  entry point of an image validated in a slot of the partition table; or it
  returned an error, and \<open>main\<close> prints the report of exactly that error and spins.  In both cases flash changed at most in
  the sectors of the otadata entries, and the panic handler is never reached.\<close>

theorem boot_main_ends:
  assumes laws: "rom_flash_laws rom v" and pol: "policy_laws core pol" and init: "\<forall>w. v (init w) = v w"
  shows "case boot_main c core pol rom init version s of
      (Jumped entry, s') \<Rightarrow> (\<exists>s0. boot_starts c rom init s s0 \<and> v (dev s0) = v (dev s) \<and> boot c core pol rom s0 = (Ok entry, s')) \<and>
         same_outside (otadata_region (v (dev s))) (v (dev s)) (v (dev s')) \<and>
         boot_ok c pol rom v (v (dev s)) (ram s) entry (v (dev s')) (ram s')
    | (Spinning, s') \<Rightarrow> (\<exists>s0 e s1. boot_starts c rom init s s0 \<and> v (dev s0) = v (dev s) \<and> boot c core pol rom s0 = (Err e, s1) \<and>
           (report e :: ('w boot_st, unit, unit) comp) s1 = (Ok (), s')) \<and>
         same_outside (otadata_region (v (dev s))) (v (dev s)) (v (dev s'))"
proof -
  let ?main = "\<lambda>tg0 rtcw. andthen (log [L_str (CHR 0x0D # CHR 0x0A # ''espbewi-bootloader ''), L_str version]) (\<lambda>_.
     log [L_str ''boot: wdt tg0='', L_u32 tg0, L_str '' rtc='', L_u32 rtcw, L_str '' (flashboot bits cleared)''])"
  obtain r w where clear: "(clear_flashboot_watchdogs c rom :: ('w, u32 \<times> u32, unit) comp) (dev s) = (r, w)" by (metis surj_pair)
  have "triple (\<lambda>x. v x = v (dev s)) (clear_flashboot_watchdogs c rom :: ('w, u32 \<times> u32, unit) comp)
      (\<lambda>_ x. v x = v (dev s)) (\<lambda>_ _. False)" by (rule calm_watchdogs [OF laws])
  from tripleD [OF this refl, unfolded clear] obtain tg0 rtcw where r: "r = Ok (tg0, rtcw)" and w: "v w = v (dev s)"
    by (cases r) auto
  define s0 where "s0 = snd ((?main tg0 rtcw :: ('w boot_st, unit, unit) comp) (s\<lparr>dev := init w\<rparr>))"
  have start: "boot_starts c rom init s s0" by (simp add: boot_starts_def s0_def log_def combinator_defs clear)
  then have at: "at_rest v (v (dev s)) (ram s) s0" using w init by (simp add: boot_starts_def clear)
  have main: "boot_main c core pol rom init version s = (case boot c core pol rom s0 of
      (Ok entry, s') \<Rightarrow> (Jumped entry, s')
    | (Err e, s1) \<Rightarrow> (Spinning, snd ((report e :: ('w boot_st, unit, unit) comp) s1))
    | (Panic, s') \<Rightarrow> (Spinning, snd ((log [L_str ''boot: PANIC''] :: ('w boot_st, unit, unit) comp) s')))"
    by (simp add: boot_main_def s0_def log_def on_dev_def combinator_defs clear r report_def split: prod.split res.split boot_error.split)
  obtain b s1 where run: "boot c core pol rom s0 = (b, s1)" by (metis surj_pair)
  note safe = tripleD [OF boot_triple [OF laws pol, of "v (dev s)" "ram s" c] at, unfolded run]
  have reported: "(report e :: ('w boot_st, unit, unit) comp) s1 = (Ok (), snd ((report e :: ('w boot_st, unit, unit) comp) s1))"
    "dev (snd ((report e :: ('w boot_st, unit, unit) comp) s1)) = dev s1" for e
    by (simp_all add: report_def log_def modify_def split: boot_error.split)
  show ?thesis
  proof (cases b)
    case (Ok entry)
    then show ?thesis using safe start at run by (auto simp: main)
  next
    case (Err e)
    then show ?thesis using safe start at run reported [of e] by (auto simp: main)
  qed (use safe in simp)
qed

theorem boot_main_ends_witness:
  "case boot_main Esp32s3 ref_core ref_policy (board_rom Esp32s3) (\<lambda>w. w) ''0.1.0'' (fresh_boot ref_flash) of
      (Jumped entry, s') \<Rightarrow> (\<exists>s0. boot_starts Esp32s3 (board_rom Esp32s3) (\<lambda>w. w) (fresh_boot ref_flash) s0 \<and> b_flash (dev s0) = ref_flash \<and>
           boot Esp32s3 ref_core ref_policy (board_rom Esp32s3) s0 = (Ok entry, s')) \<and>
         same_outside (region 0xF000 0x2000) ref_flash (b_flash (dev s')) \<and>
         boot_ok Esp32s3 ref_policy (board_rom Esp32s3) b_flash ref_flash (\<lambda>_. 0) entry (b_flash (dev s')) (ram s')
    | (Spinning, s') \<Rightarrow> (\<exists>s0 e s1. boot_starts Esp32s3 (board_rom Esp32s3) (\<lambda>w. w) (fresh_boot ref_flash) s0 \<and> b_flash (dev s0) = ref_flash \<and>
           boot Esp32s3 ref_core ref_policy (board_rom Esp32s3) s0 = (Err e, s1) \<and>
           (report e :: (board boot_st, unit, unit) comp) s1 = (Ok (), s')) \<and>
         same_outside (region 0xF000 0x2000) ref_flash (b_flash (dev s'))"
proof -
  have init: "\<forall>w. b_flash ((\<lambda>w. w) w) = b_flash w" by simp
  note run = boot_main_ends [OF board_flash_laws [of Esp32s3] ref_policy_laws init,
    where core = ref_core and c = Esp32s3 and version = "''0.1.0''" and s = "fresh_boot ref_flash", unfolded fresh_boot_simps ref_otadata_region]
  show ?thesis by (rule run)
qed

end
