(* ===== verification/Nor_Flash.thy ===== *)
theory Nor_Flash
  imports Flash_View
begin

text \<open>
  The interface the firmware-side crates see the flash through: the traits \<open>ReadNorFlash\<close> and
  \<open>NorFlash\<close> of \<open>embedded-storage\<close> as a record of operations on a driver state \<open>'f\<close>, and
  \<open>nor_laws\<close>, what those traits document.  The two crates that only pass the driver on are
  modelled here: \<open>hardware/flash\<close> (\<open>EspFlash\<close>, the process-wide owner) and
  \<open>hardware/nvs\<close> (\<open>NvsFlash\<close>, the view the NVS library gets).
\<close>

section \<open>The traits\<close>

record ('f, 'e) nor_flash =
  nf_read :: "u32 \<Rightarrow> u8 list \<Rightarrow> 'f \<Rightarrow> ((unit, 'e) res \<times> u8 list) \<times> 'f"
  nf_capacity :: "'f \<Rightarrow> nat"
  nf_erase :: "u32 \<Rightarrow> u32 \<Rightarrow> ('f, unit, 'e) comp"
  nf_write :: "u32 \<Rightarrow> u8 list \<Rightarrow> ('f, unit, 'e) comp"
  READ_SIZE :: nat
  WRITE_SIZE :: nat
  ERASE_SIZE :: nat

text \<open>A read whose caller drops the buffer after an error.\<close>

definition nf_read_into :: "('f, 'e) nor_flash \<Rightarrow> u32 \<Rightarrow> u8 list \<Rightarrow> ('f, u8 list, 'e) comp" where
  "nf_read_into F offset buf = (\<lambda>f. case nf_read F offset buf f of
     ((Ok _, out), f') \<Rightarrow> (Ok out, f')
   | ((Err e, out), f') \<Rightarrow> (Err e, f')
   | ((Panic, out), f') \<Rightarrow> (Panic, f'))"

text \<open>
  A successful read delivers the contents; a successful write clears the bits its data clear;
  a successful erase of \<open>[from, to)\<close> sets that range to ones, and an erase whose end lies before its start is an
  error; a failed command changes at most its own range; no command panics, and the
  sizes are positive, with whole write units in an erase block.
\<close>

definition nor_read_law :: "('f, 'e) nor_flash \<Rightarrow> ('f \<Rightarrow> mem) \<Rightarrow> bool" where
  "nor_read_law F view \<longleftrightarrow> (\<forall>V a buf. triple (\<lambda>f. view f = V) (nf_read_into F a buf)
     (\<lambda>out f. view f = V \<and> out = slice_at V a (length buf)) (\<lambda>_ f. view f = V))"

definition nor_write_law :: "('f, 'e) nor_flash \<Rightarrow> ('f \<Rightarrow> mem) \<Rightarrow> bool" where
  "nor_write_law F view \<longleftrightarrow> (\<forall>V a bs. triple (\<lambda>f. view f = V) (nf_write F a bs)
     (\<lambda>_ f. view f = programmed V a bs) (\<lambda>_ f. same_outside (region a (length bs)) V (view f)))"

definition nor_erase_law :: "('f, 'e) nor_flash \<Rightarrow> ('f \<Rightarrow> mem) \<Rightarrow> bool" where
  "nor_erase_law F view \<longleftrightarrow> (\<forall>V a b. triple (\<lambda>f. view f = V) (nf_erase F a b)
     (\<lambda>_ f. a \<le> b \<and> view f = erased V a (unat (b - a)))
     (\<lambda>_ f. same_outside (region a (unat (b - a))) V (view f)))"

definition nor_geometry :: "('f, 'e) nor_flash \<Rightarrow> bool" where
  "nor_geometry F \<longleftrightarrow> 0 < WRITE_SIZE F \<and> 0 < ERASE_SIZE F \<and> WRITE_SIZE F dvd ERASE_SIZE F \<and>
     ERASE_SIZE F < usize_limit"

definition nor_laws :: "('f, 'e) nor_flash \<Rightarrow> ('f \<Rightarrow> mem) \<Rightarrow> bool" where
  "nor_laws F view \<longleftrightarrow> nor_read_law F view \<and> nor_write_law F view \<and> nor_erase_law F view \<and> nor_geometry F"

lemma nor_readD:
  "nor_laws F view \<Longrightarrow> triple (\<lambda>f. view f = V) (nf_read_into F a buf)
     (\<lambda>out f. view f = V \<and> out = slice_at V a (length buf)) (\<lambda>_ f. view f = V)"
  by (simp add: nor_laws_def nor_read_law_def)

lemma nor_writeD:
  "nor_laws F view \<Longrightarrow> triple (\<lambda>f. view f = V) (nf_write F a bs)
     (\<lambda>_ f. view f = programmed V a bs) (\<lambda>_ f. same_outside (region a (length bs)) V (view f))"
  by (simp add: nor_laws_def nor_write_law_def)

lemma nor_eraseD:
  "nor_laws F view \<Longrightarrow> triple (\<lambda>f. view f = V) (nf_erase F a b)
     (\<lambda>_ f. a \<le> b \<and> view f = erased V a (unat (b - a)))
     (\<lambda>_ f. same_outside (region a (unat (b - a))) V (view f))"
  by (simp add: nor_laws_def nor_erase_law_def)

lemma nor_sizes:
  assumes "nor_laws F view"
  shows "0 < WRITE_SIZE F" "0 < ERASE_SIZE F" "WRITE_SIZE F dvd ERASE_SIZE F" "ERASE_SIZE F < usize_limit"
  using assms by (simp_all add: nor_laws_def nor_geometry_def)

section \<open>Passing a driver on\<close>

text \<open>
  A structure that holds the driver in a field: \<open>get\<close> and \<open>put\<close> read and replace the field.
  The forwarding implementation of the traits satisfies the laws the driver satisfies, seen through
  the field.
\<close>

definition forward :: "('s \<Rightarrow> 'f) \<Rightarrow> ('f \<Rightarrow> 's \<Rightarrow> 's) \<Rightarrow> ('f, 'e) nor_flash \<Rightarrow> ('s, 'e) nor_flash" where
  "forward get put F = \<lparr>
     nf_read = (\<lambda>a buf s. case nf_read F a buf (get s) of (r, x) \<Rightarrow> (r, put x s)),
     nf_capacity = (\<lambda>s. nf_capacity F (get s)),
     nf_erase = (\<lambda>a b. on_field get put (nf_erase F a b)),
     nf_write = (\<lambda>a bs. on_field get put (nf_write F a bs)),
     READ_SIZE = READ_SIZE F, WRITE_SIZE = WRITE_SIZE F, ERASE_SIZE = ERASE_SIZE F\<rparr>"

locale holder =
  fixes get :: "'s \<Rightarrow> 'f" and put :: "'f \<Rightarrow> 's \<Rightarrow> 's"
  assumes get_put: "get (put x s) = x" and put_get: "put (get s) s = s" and put_put: "put x (put y s) = put x s"
begin

lemma on_held:
  assumes "triple (\<lambda>f. view f = V) m (\<lambda>a f. Q a (view f)) (\<lambda>e f. E e (view f))"
  shows "triple (\<lambda>s. view (get s) = V) (on_field get put m)
     (\<lambda>a s. Q a (view (get s))) (\<lambda>e s. E e (view (get s)))"
  by (rule triple_on_field)
     (use assms in \<open>auto simp: triple_def get_put split: prod.splits res.splits\<close>)

lemma forward_read: "nf_read_into (forward get put F) a buf = on_field get put (nf_read_into F a buf)"
  by (rule ext) (simp add: nf_read_into_def forward_def on_field_def split: prod.splits res.splits)

lemma forward_laws:
  assumes "nor_laws F view"
  shows "nor_laws (forward get put F) (\<lambda>s. view (get s))"
proof -
  have "nor_read_law (forward get put F) (\<lambda>s. view (get s))"
    unfolding nor_read_law_def forward_read
  proof (intro allI)
    fix V a and buf :: "u8 list"
    show "triple (\<lambda>s. view (get s) = V) (on_field get put (nf_read_into F a buf))
        (\<lambda>out s. view (get s) = V \<and> out = slice_at V a (length buf)) (\<lambda>_ s. view (get s) = V)"
      by (rule on_held [where Q = "\<lambda>out W. W = V \<and> out = slice_at V a (length buf)" and E = "\<lambda>_ W. W = V"])
         (rule nor_readD [OF assms])
  qed
  moreover have "nor_write_law (forward get put F) (\<lambda>s. view (get s))"
    unfolding nor_write_law_def
  proof (intro allI)
    fix V a and bs :: "u8 list"
    show "triple (\<lambda>s. view (get s) = V) (nf_write (forward get put F) a bs)
        (\<lambda>_ s. view (get s) = programmed V a bs) (\<lambda>_ s. same_outside (region a (length bs)) V (view (get s)))"
      using on_held [OF nor_writeD [OF assms]] by (simp add: forward_def)
  qed
  moreover have "nor_erase_law (forward get put F) (\<lambda>s. view (get s))"
    unfolding nor_erase_law_def
  proof (intro allI)
    fix V a b
    show "triple (\<lambda>s. view (get s) = V) (nf_erase (forward get put F) a b)
        (\<lambda>_ s. a \<le> b \<and> view (get s) = erased V a (unat (b - a)))
        (\<lambda>_ s. same_outside (region a (unat (b - a))) V (view (get s)))"
      using on_held [where Q = "\<lambda>_ W. a \<le> b \<and> W = erased V a (unat (b - a))", OF nor_eraseD [OF assms]]
      by (simp add: forward_def)
  qed
  ultimately show ?thesis
    using assms by (simp add: nor_laws_def nor_geometry_def forward_def)
qed

lemma forward_unchanged_rest:
  assumes "\<And>x s. other (put x s) = other s"
  shows "keeps other (nf_write (forward get put F) a bs)" "keeps other (nf_erase (forward get put F) a b)"
  by (auto simp: forward_def intro: keep assms)

end

section \<open>EspFlash and NvsFlash\<close>

record 'd esp_flash =
  storage :: 'd

definition esp_flash_nor :: "('d, 'e) nor_flash \<Rightarrow> ('d esp_flash, 'e) nor_flash" where
  "esp_flash_nor F = forward storage (\<lambda>x s. s\<lparr>storage := x\<rparr>) F"

definition init :: "'d \<Rightarrow> 'd esp_flash" where
  "init flash_storage = \<lparr>storage = flash_storage\<rparr>"

record nvs_partition =
  nvs_offset :: nat
  nvs_size :: nat

record 'd nvs_flash =
  nvs_inner :: "'d esp_flash"

definition nvs_flash_nor :: "('d, 'e) nor_flash \<Rightarrow> ('d nvs_flash, 'e) nor_flash" where
  "nvs_flash_nor F = forward nvs_inner (\<lambda>x s. s\<lparr>nvs_inner := x\<rparr>) (esp_flash_nor F)"

text \<open>\<open>Nvs::new\<close> of the NVS library is the parameter \<open>nvs_new\<close>.\<close>

definition nvs_open ::
  "(nat \<Rightarrow> nat \<Rightarrow> 'd nvs_flash \<Rightarrow> 'e + 'n) \<Rightarrow> 'd esp_flash \<Rightarrow> nvs_partition \<Rightarrow> 'e + 'n" where
  "nvs_open nvs_new flash part = nvs_new (nvs_offset part) (nvs_size part) \<lparr>nvs_inner = flash\<rparr>"

interpretation esp: holder storage "\<lambda>x s. s\<lparr>storage := x\<rparr>"
  by unfold_locales simp_all

interpretation nvs: holder nvs_inner "\<lambda>x s. s\<lparr>nvs_inner := x\<rparr>"
  by unfold_locales simp_all

lemma esp_flash_laws: "nor_laws F view \<Longrightarrow> nor_laws (esp_flash_nor F) (\<lambda>s. view (storage s))"
  unfolding esp_flash_nor_def by (rule esp.forward_laws)

lemma nvs_flash_laws: "nor_laws F view \<Longrightarrow> nor_laws (nvs_flash_nor F) (\<lambda>s. view (storage (nvs_inner s)))"
  unfolding nvs_flash_nor_def by (rule nvs.forward_laws [OF esp_flash_laws])

section \<open>A reference driver\<close>

text \<open>A flash of 4 MiB with 4-byte words and 4 KiB sectors that never fails inside its bounds.\<close>

definition sim_fits :: "u32 \<Rightarrow> nat \<Rightarrow> bool" where
  "sim_fits a n \<longleftrightarrow> unat a + n \<le> 0x400000"

definition sim_nor :: "(mem, unit) nor_flash" where
  "sim_nor = \<lparr>
     nf_read = (\<lambda>a buf V. if sim_fits a (length buf) then ((Ok (), slice_at V a (length buf)), V) else ((Err (), buf), V)),
     nf_capacity = (\<lambda>V. 0x400000),
     nf_erase = (\<lambda>a b V. if a \<le> b \<and> unat a mod 0x1000 = 0 \<and> unat b mod 0x1000 = 0 \<and> sim_fits a (unat (b - a))
                         then (Ok (), erased V a (unat (b - a))) else (Err (), V)),
     nf_write = (\<lambda>a bs V. if unat a mod 4 = 0 \<and> length bs mod 4 = 0 \<and> sim_fits a (length bs)
                          then (Ok (), programmed V a bs) else (Err (), V)),
     READ_SIZE = 4, WRITE_SIZE = 4, ERASE_SIZE = 0x1000\<rparr>"

lemma sim_nor_laws: "nor_laws sim_nor (\<lambda>V. V)"
  by (auto simp: nor_laws_def nor_read_law_def nor_write_law_def nor_erase_law_def nor_geometry_def sim_nor_def
      nf_read_into_def triple_def usize_limit_def)

end
