(* ===== verification/Partitions.thy ===== *)
theory Partitions
  imports Nor_Flash
begin

text \<open>
  \<open>hardware/partitions\<close>: finding a partition and erasing an aligned range of it.  The parser of
  the partition table is the library \<open>esp-bootloader-esp-idf\<close>, the parameter \<open>idf\<close>; its
  scratch buffer is overwritten by it and carries nothing between calls, so it is not an argument here.
\<close>

section \<open>The table parser\<close>

datatype app_subtype = Sub_Ota0 | Sub_Ota1

datatype partition_type = PT_App app_subtype | PT_Data_Ota

record partition_entry =
  pe_offset :: u32
  pe_len :: u32
  pe_label :: string

record ('f, 't) idf =
  read_partition_table :: "('f, 't, unit) comp"
  find_partition :: "'t \<Rightarrow> partition_type \<Rightarrow> unit + partition_entry option"
  booted_partition :: "'t \<Rightarrow> unit + partition_entry option"

text \<open>Reading the table yields what the flash contents say, and changes nothing.\<close>

definition idf_laws :: "('f, 't) idf \<Rightarrow> ('f \<Rightarrow> mem) \<Rightarrow> (mem \<Rightarrow> 't) \<Rightarrow> bool" where
  "idf_laws I view parse \<longleftrightarrow> (\<forall>V. triple (\<lambda>f. view f = V) (read_partition_table I)
     (\<lambda>t f. view f = V \<and> t = parse V) (\<lambda>_ f. view f = V))"

lemma idf_readD:
  "idf_laws I view parse \<Longrightarrow> triple (\<lambda>f. view f = V) (read_partition_table I)
     (\<lambda>t f. view f = V \<and> t = parse V) (\<lambda>_ f. view f = V)"
  by (simp add: idf_laws_def)

section \<open>Operations\<close>

record partition_range =
  pr_offset :: u32
  pr_size :: nat

datatype partition_error = TableUnreadable | NotFound | PE_AddressOverflow | PE_Unaligned | PE_Flash

definition find :: "('f, 't) idf \<Rightarrow> partition_type \<Rightarrow> ('f, partition_range, partition_error) comp" where
  "find I kind =
     andthen (map_err (\<lambda>_. TableUnreadable) (read_partition_table I)) (\<lambda>t.
     case find_partition I t kind of
       Inl _ \<Rightarrow> throw TableUnreadable
     | Inr None \<Rightarrow> throw NotFound
     | Inr (Some e) \<Rightarrow> return \<lparr>pr_offset = pe_offset e, pr_size = unat (pe_len e)\<rparr>)"

definition erase_range ::
  "('f, 'e) nor_flash \<Rightarrow> partition_range \<Rightarrow> u64 \<Rightarrow> u64 \<Rightarrow> ('f, unit, partition_error) comp" where
  "erase_range F part logical_from logical_to =
     andthen (reject_if (logical_to < logical_from) PE_AddressOverflow) (\<lambda>_.
     andthen (ok_or PE_AddressOverflow (usize_from_u64 logical_from)) (\<lambda>start.
     andthen (ok_or PE_AddressOverflow (usize_from_u64 logical_to)) (\<lambda>stop.
     andthen (panic_if (ERASE_SIZE F = 0)) (\<lambda>_.
     andthen (reject_if (start mod ERASE_SIZE F \<noteq> 0 \<or> stop mod ERASE_SIZE F \<noteq> 0) PE_Unaligned) (\<lambda>_.
     andthen (reject_if (pr_size part < stop) PE_AddressOverflow) (\<lambda>_.
     if start = stop then return ()
     else
       andthen (ok_or PE_AddressOverflow (usize_checked_add (unat (pr_offset part)) start)) (\<lambda>absolute_from.
       andthen (ok_or PE_AddressOverflow (usize_checked_add (unat (pr_offset part)) stop)) (\<lambda>absolute_to.
       andthen (ok_or PE_AddressOverflow (u32_from_usize absolute_from)) (\<lambda>a.
       andthen (ok_or PE_AddressOverflow (u32_from_usize absolute_to)) (\<lambda>b.
       map_err (\<lambda>_. PE_Flash) (nf_erase F a b)))))))))))"

section \<open>What they guarantee\<close>

text \<open>The checks of \<open>erase_range\<close>, as one function: the first that fails.\<close>

definition erase_refused :: "nat \<Rightarrow> partition_range \<Rightarrow> u64 \<Rightarrow> u64 \<Rightarrow> partition_error option" where
  "erase_refused es part logical_from logical_to =
     (if logical_to < logical_from then Some PE_AddressOverflow
      else if usize_limit \<le> unat logical_to then Some PE_AddressOverflow
      else if unat logical_from mod es \<noteq> 0 \<or> unat logical_to mod es \<noteq> 0 then Some PE_Unaligned
      else if pr_size part < unat logical_to then Some PE_AddressOverflow
      else if logical_from \<noteq> logical_to \<and> usize_limit \<le> unat (pr_offset part) + unat logical_to
        then Some PE_AddressOverflow
      else None)"

lemma erase_range_cases:
  assumes es: "0 < ERASE_SIZE F"
  shows "erase_range F part lf lt f =
    (case erase_refused (ERASE_SIZE F) part lf lt of
       Some e \<Rightarrow> (Err e, f)
     | None \<Rightarrow> if lf = lt then (Ok (), f)
               else map_err (\<lambda>_. PE_Flash)
                 (nf_erase F (pr_offset part + of_nat (unat lf)) (pr_offset part + of_nat (unat lt))) f)"
proof -
  have eq: "unat lf = unat lt \<longleftrightarrow> lf = lt" by (simp add: word_unat_eq_iff)
  show ?thesis
  proof (cases "lt < lf")
    case True
    then show ?thesis by (simp add: erase_range_def erase_refused_def combinator_defs)
  next
    case False
    then have "unat lf \<le> unat lt" by (simp add: word_le_nat_alt not_less)
    with False es eq show ?thesis
      unfolding erase_range_def erase_refused_def combinator_defs
      by (auto simp: usize_from_u64_def usize_checked_add_def u32_from_usize_def split: option.splits)
  qed
qed

lemma erase_span:
  fixes lf lt :: u64
  assumes "lf \<le> lt" and "unat lt < usize_limit"
  shows "unat ((p + of_nat (unat lt)) - (p + of_nat (unat lf)) :: u32) = unat lt - unat lf"
proof -
  have le: "unat lf \<le> unat lt" using assms(1) by (simp add: word_le_nat_alt)
  have "(p + of_nat (unat lt)) - (p + of_nat (unat lf)) = (of_nat (unat lt) - of_nat (unat lf) :: u32)" by simp
  also have "\<dots> = of_nat (unat lt - unat lf)" using le by (rule of_nat_diff [symmetric])
  finally show ?thesis using assms(2) le by (simp only: unat_of_nat_usize)
qed

lemma erase_range_triple:
  assumes laws: "nor_laws F view"
  shows "triple (\<lambda>f. view f = V) (erase_range F part lf lt)
    (\<lambda>_ f. erase_refused (ERASE_SIZE F) part lf lt = None \<and>
       view f = erased V (pr_offset part + of_nat (unat lf)) (unat lt - unat lf))
    (\<lambda>e f. same_outside (region (pr_offset part + of_nat (unat lf)) (unat lt - unat lf)) V (view f) \<and>
       (case erase_refused (ERASE_SIZE F) part lf lt of Some e' \<Rightarrow> e = e' \<and> view f = V | None \<Rightarrow> e = PE_Flash))"
proof (rule tripleI)
  fix f assume V: "view f = V"
  let ?a = "pr_offset part + of_nat (unat lf)" and ?b = "pr_offset part + of_nat (unat lt)"
  have "unat (?b - ?a) = unat lt - unat lf" if "erase_refused (ERASE_SIZE F) part lf lt = None"
    using that by (intro erase_span) (auto simp: erase_refused_def split: if_splits)
  with tripleD [OF nor_eraseD [OF laws, of V ?a ?b] V]
  show "case erase_range F part lf lt f of
      (Ok _, f) \<Rightarrow> erase_refused (ERASE_SIZE F) part lf lt = None \<and> view f = erased V ?a (unat lt - unat lf)
    | (Err e, f) \<Rightarrow> same_outside (region ?a (unat lt - unat lf)) V (view f) \<and>
        (case erase_refused (ERASE_SIZE F) part lf lt of Some e' \<Rightarrow> e = e' \<and> view f = V | None \<Rightarrow> e = PE_Flash)
    | (Panic, f) \<Rightarrow> False"
    unfolding erase_range_cases [OF nor_sizes(2) [OF laws]]
    by (auto simp: V map_err_def split: option.splits prod.splits res.splits)
qed

text \<open>An accepted range lies in the partition.\<close>

lemma erase_accepted_inside:
  assumes "erase_refused es part lf lt = None"
  shows "region (pr_offset part + of_nat (unat lf)) (unat lt - unat lf) \<subseteq> region (pr_offset part) (pr_size part)"
proof (rule region_subset)
  have "lf \<le> lt" "unat lt < usize_limit" "unat lt \<le> pr_size part"
    using assms by (auto simp: erase_refused_def split: if_splits)
  moreover have "unat (of_nat (unat lf) :: u32) \<le> unat lf" by (rule unat_of_nat_le)
  ultimately show "unat (of_nat (unat lf) :: u32) + (unat lt - unat lf) \<le> pr_size part"
    by (simp add: word_le_nat_alt)
qed

lemma find_triple:
  assumes "idf_laws I view parse"
  shows "triple (\<lambda>f. view f = V) (find I kind)
    (\<lambda>r f. view f = V \<and> (\<exists>e. find_partition I (parse V) kind = Inr (Some e) \<and>
        r = \<lparr>pr_offset = pe_offset e, pr_size = unat (pe_len e)\<rparr>))
    (\<lambda>e f. view f = V \<and> (e = NotFound \<longrightarrow> find_partition I (parse V) kind = Inr None) \<and>
        (e = NotFound \<or> e = TableUnreadable))"
  unfolding find_def
  by (rule triple_andthen [where R = "\<lambda>t f. view f = V \<and> t = parse V"], rule triple_map_err,
      rule triple_conseq [OF idf_readD [OF assms]])
     (auto simp: triple_def return_def throw_def split: sum.splits option.splits)

end
