(* ===== verification/Ota_Storage.thy ===== *)
theory Ota_Storage
  imports Partitions
begin

text \<open>
  \<open>adapters/ota/src/lib.rs\<close>: the application slots, locating and erasing an application
  partition, and \<open>EspArtifactStorage\<close>, which writes an artifact into the partition one erase
  block at a time.  The file's unchecked additions on \<open>u64\<close> wrap (release profile).
\<close>

section \<open>Slots and partitions\<close>

datatype app_slot = Ota0 | Ota1

definition from_name :: "string \<Rightarrow> app_slot option" where
  "from_name name = (if name = ''ota_0'' then Some Ota0 else if name = ''ota_1'' then Some Ota1 else None)"

fun as_str :: "app_slot \<Rightarrow> string" where
  "as_str Ota0 = ''ota_0''"
| "as_str Ota1 = ''ota_1''"

fun other :: "app_slot \<Rightarrow> app_slot" where
  "other Ota0 = Ota1"
| "other Ota1 = Ota0"

fun subtype :: "app_slot \<Rightarrow> app_subtype" where
  "subtype Ota0 = Sub_Ota0"
| "subtype Ota1 = Sub_Ota1"

record app_partition =
  ap_slot :: app_slot
  ap_offset :: u32
  ap_size :: nat

datatype ota_partition_error = OPE_TableUnreadable | OPE_NotFound

definition find_app_partition :: "('f, 't) idf \<Rightarrow> app_slot \<Rightarrow> ('f, app_partition, ota_partition_error) comp" where
  "find_app_partition I slot =
     andthen (map_err (\<lambda>e. case e of NotFound \<Rightarrow> OPE_NotFound | _ \<Rightarrow> OPE_TableUnreadable)
       (find I (PT_App (subtype slot)))) (\<lambda>range.
     return \<lparr>ap_slot = slot, ap_offset = pr_offset range, ap_size = pr_size range\<rparr>)"

datatype flash_write_error = ScratchTooSmall | FW_AddressOverflow | FW_Unaligned | FW_Flash

definition erase_partition_range ::
  "('f, 'e) nor_flash \<Rightarrow> app_partition \<Rightarrow> u64 \<Rightarrow> u64 \<Rightarrow> ('f, unit, flash_write_error) comp" where
  "erase_partition_range F part logical_from logical_to =
     map_err (\<lambda>e. case e of PE_AddressOverflow \<Rightarrow> FW_AddressOverflow | PE_Unaligned \<Rightarrow> FW_Unaligned | _ \<Rightarrow> FW_Flash)
       (erase_range F \<lparr>pr_offset = ap_offset part, pr_size = ap_size part\<rparr> logical_from logical_to)"

section \<open>EspArtifactStorage\<close>

record 'f artifact_storage =
  as_flash :: 'f
  partition_offset :: u32
  partition_size :: nat
  scratch :: "u8 list"
  erase_before_write :: bool

definition new_with_erase_mode ::
  "('f, 'e) nor_flash \<Rightarrow> 'f \<Rightarrow> app_partition \<Rightarrow> u8 list \<Rightarrow> bool \<Rightarrow> flash_write_error + 'f artifact_storage" where
  "new_with_erase_mode F flash part buf mode =
     (if length buf < ERASE_SIZE F then Inl ScratchTooSmall
      else Inr \<lparr>as_flash = flash, partition_offset = ap_offset part, partition_size = ap_size part,
                scratch = buf, erase_before_write = mode\<rparr>)"

definition new :: "('f, 'e) nor_flash \<Rightarrow> 'f \<Rightarrow> app_partition \<Rightarrow> u8 list \<Rightarrow> flash_write_error + 'f artifact_storage" where
  "new F flash part buf = new_with_erase_mode F flash part buf True"

definition new_pre_erased :: "('f, 'e) nor_flash \<Rightarrow> 'f \<Rightarrow> app_partition \<Rightarrow> u8 list \<Rightarrow> flash_write_error + 'f artifact_storage" where
  "new_pre_erased F flash part buf = new_with_erase_mode F flash part buf False"

type_synonym ('f, 'a) store = "('f artifact_storage, 'a, flash_write_error) comp"

definition on_flash :: "('f, 'a, 'e) comp \<Rightarrow> ('f artifact_storage, 'a, 'e) comp" where
  "on_flash m = on_field as_flash (\<lambda>x s. s\<lparr>as_flash := x\<rparr>) m"

text \<open>The scratch buffer after the two copies: the bytes, zeros up to \<open>padded\<close>, the rest as it was.\<close>

definition fill_scratch :: "u8 list \<Rightarrow> nat \<Rightarrow> u8 list \<Rightarrow> u8 list" where
  "fill_scratch bytes padded buf = splice (splice buf 0 bytes) (length bytes) (replicate (padded - length bytes) 0)"

definition flush_block :: "('f, 'e) nor_flash \<Rightarrow> u64 \<Rightarrow> u8 list \<Rightarrow> ('f, unit) store" where
  "flush_block F logical bytes =
     andthen (reject_if (ERASE_SIZE F < length bytes) FW_Flash) (\<lambda>_.
     andthen (ok_or FW_AddressOverflow (usize_from_u64 logical)) (\<lambda>logical_offset.
     andthen (panic_if (ERASE_SIZE F = 0)) (\<lambda>_.
     andthen (reject_if (logical_offset mod ERASE_SIZE F \<noteq> 0) FW_Unaligned) (\<lambda>_.
     andthen (ok_or FW_AddressOverflow (usize_checked_add logical_offset (ERASE_SIZE F))) (\<lambda>erase_logical_end.
     andthen (gets partition_size) (\<lambda>part_size.
     andthen (reject_if (part_size < erase_logical_end) FW_AddressOverflow) (\<lambda>_.
     andthen (panic_if (WRITE_SIZE F = 0)) (\<lambda>_.
     let padded = div_ceil (length bytes) (WRITE_SIZE F) * WRITE_SIZE F mod usize_limit in
     andthen (gets (\<lambda>s. length (scratch s))) (\<lambda>room.
     andthen (reject_if (ERASE_SIZE F < padded \<or> room < padded) ScratchTooSmall) (\<lambda>_.
     andthen (panic_if (room < length bytes \<or> padded < length bytes)) (\<lambda>_.
     andthen (modify (\<lambda>s. s\<lparr>scratch := fill_scratch bytes padded (scratch s)\<rparr>)) (\<lambda>_.
     andthen (gets partition_offset) (\<lambda>part_offset.
     andthen (ok_or FW_AddressOverflow (usize_checked_add (unat part_offset) logical_offset)) (\<lambda>absolute.
     andthen (ok_or FW_AddressOverflow (usize_checked_add absolute (ERASE_SIZE F))) (\<lambda>erase_end.
     andthen (ok_or FW_AddressOverflow (u32_from_usize absolute)) (\<lambda>a.
     andthen (ok_or FW_AddressOverflow (u32_from_usize erase_end)) (\<lambda>b.
     andthen (gets erase_before_write) (\<lambda>mode.
     andthen (if mode then map_err (\<lambda>_. FW_Flash) (on_flash (nf_erase F a b)) else return ()) (\<lambda>_.
     andthen (gets scratch) (\<lambda>buf.
     map_err (\<lambda>_. FW_Flash) (on_flash (nf_write F a (take padded buf)))))))))))))))))))))))"

text \<open>
  The loop of \<open>write\<close>.  With an erase size of 0 the block's \<open>%\<close> panics, so the second branch
  of the inner test is never reached.
\<close>

function write_loop :: "('f, 'e) nor_flash \<Rightarrow> u64 \<Rightarrow> u8 list \<Rightarrow> nat \<Rightarrow> ('f, u64) store" where
  "write_loop F durable_offset pending consumed s =
     (if ERASE_SIZE F \<le> length pending - consumed then
        andthen (flush_block F (durable_offset + of_nat consumed) (take (ERASE_SIZE F) (drop consumed pending))) (\<lambda>_ s.
          if ERASE_SIZE F = 0 then (Panic, s)
          else write_loop F durable_offset pending (consumed + ERASE_SIZE F) s) s
      else (Ok (durable_offset + of_nat consumed), s))"
  by pat_completeness auto
termination
  by (relation "measure (\<lambda>(F, d, pending, consumed, s). length pending - consumed)") auto

declare write_loop.simps [simp del]

definition storage_write :: "('f, 'e) nor_flash \<Rightarrow> u64 \<Rightarrow> u8 list \<Rightarrow> ('f, u64) store" where
  "storage_write F durable_offset pending = write_loop F durable_offset pending 0"

definition storage_finish :: "('f, 'e) nor_flash \<Rightarrow> u64 \<Rightarrow> u8 list \<Rightarrow> ('f, u64) store" where
  "storage_finish F durable_offset pending =
     (if pending = [] then return durable_offset
      else andthen (reject_if (ERASE_SIZE F \<le> length pending) FW_Flash) (\<lambda>_.
           andthen (flush_block F durable_offset pending) (\<lambda>_.
           return (durable_offset + of_nat (length pending)))))"

section \<open>One block\<close>

lemma slots: "from_name (as_str s) = Some s" "other (other s) = s" "other s \<noteq> s"
  by (cases s; simp add: from_name_def)+

text \<open>The checks of \<open>flush_block\<close> in the model's terms: the first that fails.\<close>

definition block_refused :: "nat \<Rightarrow> u32 \<Rightarrow> nat \<Rightarrow> u64 \<Rightarrow> nat \<Rightarrow> flash_write_error option" where
  "block_refused es base part_size logical n =
     (if es < n then Some FW_Flash
      else if usize_limit \<le> unat logical then Some FW_AddressOverflow
      else if unat logical mod es \<noteq> 0 then Some FW_Unaligned
      else if usize_limit \<le> unat logical + es then Some FW_AddressOverflow
      else if part_size < unat logical + es then Some FW_AddressOverflow
      else if usize_limit \<le> unat base + unat logical + es then Some FW_AddressOverflow
      else None)"

definition padded_len :: "('f, 'e) nor_flash \<Rightarrow> nat \<Rightarrow> nat" where
  "padded_len F n = div_ceil n (WRITE_SIZE F) * WRITE_SIZE F"

lemma padded_len_bounds:
  assumes "nor_laws F view" and "n \<le> ERASE_SIZE F"
  shows "n \<le> padded_len F n" "padded_len F n \<le> ERASE_SIZE F" "padded_len F n < usize_limit"
proof -
  note sizes = nor_sizes [OF assms(1)]
  show "n \<le> padded_len F n" unfolding padded_len_def by (rule div_ceil_bounds(1) [OF sizes(1)])
  obtain k where "ERASE_SIZE F = k * WRITE_SIZE F" using sizes(3) by (metis dvdE mult.commute)
  then show le: "padded_len F n \<le> ERASE_SIZE F"
    using div_ceil_le_iff [OF sizes(1), of n k] assms(2) by (simp add: padded_len_def)
  show "padded_len F n < usize_limit" using le sizes(4) by simp
qed

text \<open>What the block is written as: the bytes and zeros up to the next write unit.\<close>

definition block_image :: "('f, 'e) nor_flash \<Rightarrow> u8 list \<Rightarrow> u8 list" where
  "block_image F bytes = bytes @ replicate (padded_len F (length bytes) - length bytes) 0"

lemma length_block_image [simp]:
  "length bytes \<le> padded_len F (length bytes) \<Longrightarrow> length (block_image F bytes) = padded_len F (length bytes)"
  by (simp add: block_image_def)

lemma take_fill_scratch:
  assumes "length bytes \<le> n" and "n \<le> length buf"
  shows "take n (fill_scratch bytes n buf) = bytes @ replicate (n - length bytes) 0"
    and "length (fill_scratch bytes n buf) = length buf"
proof -
  have len: "length (splice buf 0 bytes) = length buf" using assms by simp
  show "take n (fill_scratch bytes n buf) = bytes @ replicate (n - length bytes) 0"
    using take_splice [of "length bytes" "replicate (n - length bytes) 0" "splice buf 0 bytes"] assms len
      take_splice [of 0 bytes buf] by (simp add: fill_scratch_def)
  show "length (fill_scratch bytes n buf) = length buf"
    using assms len by (simp add: fill_scratch_def)
qed

text \<open>A storage over a partition: its geometry, its mode, and a scratch of at least one block.\<close>

definition opened :: "('f, 'e) nor_flash \<Rightarrow> u32 \<Rightarrow> nat \<Rightarrow> bool \<Rightarrow> 'f artifact_storage \<Rightarrow> bool" where
  "opened F base n mode s \<longleftrightarrow> partition_offset s = base \<and> partition_size s = n \<and>
     erase_before_write s = mode \<and> ERASE_SIZE F \<le> length (scratch s)"

lemma new_opened:
  "new_with_erase_mode F flash part buf mode = Inr s \<Longrightarrow>
   opened F (ap_offset part) (ap_size part) mode s \<and> as_flash s = flash"
  by (auto simp: new_with_erase_mode_def opened_def split: if_splits)

text \<open>An accepted block runs to the two flash commands, on a filled scratch buffer.\<close>

lemma flush_block_accepted:
  assumes laws: "nor_laws F view" and s: "opened F base n mode s"
    and ok: "block_refused (ERASE_SIZE F) base n logical (length bytes) = None"
  shows "flush_block F logical bytes s =
    (let a = base + of_nat (unat logical) in
     andthen (if mode then map_err (\<lambda>_. FW_Flash) (on_flash (nf_erase F a (a + of_nat (ERASE_SIZE F)))) else return ()) (\<lambda>_.
     andthen (gets scratch) (\<lambda>buf.
     map_err (\<lambda>_. FW_Flash) (on_flash (nf_write F a (take (padded_len F (length bytes)) buf)))))
       (s\<lparr>scratch := fill_scratch bytes (padded_len F (length bytes)) (scratch s)\<rparr>))"
proof -
  note sizes = nor_sizes [OF laws]
  have len: "length bytes \<le> ERASE_SIZE F" using ok by (simp add: block_refused_def split: if_splits)
  note pad = padded_len_bounds [OF laws len]
  have "div_ceil (length bytes) (WRITE_SIZE F) * WRITE_SIZE F mod usize_limit = padded_len F (length bytes)"
    using pad(3) by (simp add: padded_len_def)
  with sizes pad len s ok show ?thesis
    by (auto simp: flush_block_def block_refused_def opened_def Let_def andthen_def return_def reject_if_def
        ok_or_def panic_if_def gets_def modify_def usize_from_u64_def usize_checked_add_def u32_from_usize_def
        algebra_simps split: if_splits)
qed

lemma flush_block_refused:
  assumes laws: "nor_laws F view" and s: "opened F base n mode s"
    and ref: "block_refused (ERASE_SIZE F) base n logical (length bytes) = Some e"
  shows "\<exists>s'. flush_block F logical bytes s = (Err e, s') \<and> opened F base n mode s' \<and> as_flash s' = as_flash s"
proof (cases "ERASE_SIZE F < length bytes")
  case True
  with s ref show ?thesis by (simp add: flush_block_def block_refused_def combinator_defs)
next
  case False
  note sizes = nor_sizes [OF laws]
  have len: "length bytes \<le> ERASE_SIZE F" using False by simp
  note pad = padded_len_bounds [OF laws len]
  let ?p = "padded_len F (length bytes)"
  have mod: "div_ceil (length bytes) (WRITE_SIZE F) * WRITE_SIZE F mod usize_limit = ?p"
    using pad(3) by (simp add: padded_len_def)
  have fill: "opened F base n mode (s\<lparr>scratch := fill_scratch bytes ?p (scratch s)\<rparr>)"
    using s take_fill_scratch(2) [of bytes ?p "scratch s"] pad by (simp add: opened_def)
  show ?thesis
    using sizes pad len s ref fill mod
    by (auto simp: flush_block_def block_refused_def Let_def andthen_def return_def reject_if_def throw_def
        ok_or_def panic_if_def gets_def modify_def usize_from_u64_def usize_checked_add_def u32_from_usize_def
        opened_def split: if_splits)
qed

interpretation art: holder as_flash "\<lambda>x s. s\<lparr>as_flash := x\<rparr>"
  by unfold_locales simp_all

lemma keeps_on_flash [keep]:
  "keeps (\<lambda>s. (opened F base n mode s, scratch s)) (on_flash m)"
  unfolding on_flash_def by (rule keeps_on_field) (simp add: opened_def)

text \<open>A command on the flash of an opened storage: its scratch and settings stay.\<close>

lemma on_flash_triple:
  assumes "triple (\<lambda>f. view f = V) m (\<lambda>a f. Q a (view f)) (\<lambda>_ f. R (view f))"
  shows "triple (\<lambda>s. view (as_flash s) = V \<and> opened F base n mode s \<and> scratch s = buf) (map_err (\<lambda>_. FW_Flash) (on_flash m))
     (\<lambda>a s. Q a (view (as_flash s)) \<and> opened F base n mode s \<and> scratch s = buf)
     (\<lambda>e s. e = FW_Flash \<and> R (view (as_flash s)) \<and> opened F base n mode s)"
proof -
  have run: "triple (\<lambda>s. view (as_flash s) = V) (on_flash m)
      (\<lambda>a s. Q a (view (as_flash s))) (\<lambda>_ s. R (view (as_flash s)))"
    unfolding on_flash_def by (rule art.on_held [OF assms])
  show ?thesis
    by (rule triple_map_err, rule triple_conseq [OF triple_keeps
          [OF run keeps_on_flash [of F base n mode], where x = "(True, buf)"]]) auto
qed

definition block_written :: "('f, 'e) nor_flash \<Rightarrow> bool \<Rightarrow> mem \<Rightarrow> u32 \<Rightarrow> u8 list \<Rightarrow> mem" where
  "block_written F mode V a bytes =
     programmed (if mode then erased V a (ERASE_SIZE F) else V) a (block_image F bytes)"

lemma flush_block_triple:
  fixes logical :: u64
  assumes laws: "nor_laws F view"
  defines "a \<equiv> \<lambda>base. base + of_nat (unat logical) :: u32"
  shows "triple (\<lambda>s. view (as_flash s) = V \<and> opened F base n mode s) (flush_block F logical bytes)
    (\<lambda>_ s. view (as_flash s) = block_written F mode V (a base) bytes \<and> opened F base n mode s \<and>
       block_refused (ERASE_SIZE F) base n logical (length bytes) = None)
    (\<lambda>e s. opened F base n mode s \<and> (case block_refused (ERASE_SIZE F) base n logical (length bytes) of
       Some e' \<Rightarrow> e = e' \<and> view (as_flash s) = V
     | None \<Rightarrow> e = FW_Flash \<and> same_outside (region (a base) (ERASE_SIZE F)) V (view (as_flash s))))"
proof (rule tripleI)
  fix s assume s: "view (as_flash s) = V \<and> opened F base n mode s"
  show "case flush_block F logical bytes s of
      (Ok _, s) \<Rightarrow> view (as_flash s) = block_written F mode V (a base) bytes \<and> opened F base n mode s \<and>
        block_refused (ERASE_SIZE F) base n logical (length bytes) = None
    | (Err e, s) \<Rightarrow> opened F base n mode s \<and> (case block_refused (ERASE_SIZE F) base n logical (length bytes) of
         Some e' \<Rightarrow> e = e' \<and> view (as_flash s) = V
       | None \<Rightarrow> e = FW_Flash \<and> same_outside (region (a base) (ERASE_SIZE F)) V (view (as_flash s)))
    | (Panic, s) \<Rightarrow> False"
  proof (cases "block_refused (ERASE_SIZE F) base n logical (length bytes)")
    case (Some e)
    then obtain s' where "flush_block F logical bytes s = (Err e, s')" "opened F base n mode s'" "as_flash s' = as_flash s"
      using flush_block_refused [OF laws conjunct2 [OF s] Some] by blast
    with s Some show ?thesis by simp
  next
    case None
    let ?a = "a base" and ?es = "ERASE_SIZE F" and ?p = "padded_len F (length bytes)"
    let ?buf = "fill_scratch bytes ?p (scratch s)"
    have len: "length bytes \<le> ?es" using None by (simp add: block_refused_def split: if_splits)
    note pad = padded_len_bounds [OF laws len]
    have room: "?p \<le> length (scratch s)" using pad(2) s by (simp add: opened_def)
    have buf: "take ?p ?buf = block_image F bytes" "length ?buf = length (scratch s)"
      using take_fill_scratch [OF pad(1) room] by (simp_all add: block_image_def)
    have img: "length (block_image F bytes) = ?p" using pad(1) by simp
    have span: "unat (?a + of_nat ?es - ?a) = ?es" using nor_sizes(4) [OF laws] by (simp add: unat_of_nat_usize)
    define mid where "mid = (if mode then erased V ?a ?es else V)"
    let ?E = "\<lambda>e s. e = FW_Flash \<and> same_outside (region ?a ?es) V (view (as_flash s)) \<and> opened F base n mode s"
    have mid: "same_outside (region ?a ?es) V mid" by (simp add: mid_def same_outside_erased)
    have erase: "triple (\<lambda>s. view (as_flash s) = V \<and> opened F base n mode s \<and> scratch s = ?buf)
        (if mode then map_err (\<lambda>_. FW_Flash) (on_flash (nf_erase F ?a (?a + of_nat ?es))) else return ())
        (\<lambda>_ s. view (as_flash s) = mid \<and> opened F base n mode s \<and> scratch s = ?buf) ?E"
    proof (cases mode)
      case True
      have "triple (\<lambda>f. view f = V) (nf_erase F ?a (?a + of_nat ?es))
          (\<lambda>_ f. view f = erased V ?a ?es) (\<lambda>_ f. same_outside (region ?a ?es) V (view f))"
        by (rule triple_conseq [OF nor_eraseD [OF laws, of V ?a "?a + of_nat ?es", unfolded span]]) auto
      from True on_flash_triple [where Q = "\<lambda>_ W. W = erased V ?a ?es" and R = "same_outside (region ?a ?es) V",
          OF this, of F base n mode "?buf"]
      show ?thesis by (auto simp: mid_def elim!: triple_conseq)
    qed (simp add: mid_def triple_return)
    have prog: "triple (\<lambda>s. view (as_flash s) = mid \<and> opened F base n mode s \<and> scratch s = ?buf)
        (map_err (\<lambda>_. FW_Flash) (on_flash (nf_write F ?a (take ?p ?buf))))
        (\<lambda>_ s. view (as_flash s) = block_written F mode V ?a bytes \<and> opened F base n mode s) ?E"
    proof (rule triple_conseq [OF on_flash_triple [OF nor_writeD [OF laws], of mid F base n mode "?buf"]])
      fix e s assume "e = FW_Flash \<and> same_outside (region ?a (length (take ?p ?buf))) mid (view (as_flash s)) \<and>
          opened F base n mode s"
      then show "?E e s"
        using same_outside_step [OF mid _ region_mono [OF pad(2), of ?a]] buf(1) img by auto
    qed (auto simp: block_written_def mid_def [symmetric] buf(1))
    have tail: "triple (\<lambda>s. view (as_flash s) = mid \<and> opened F base n mode s \<and> scratch s = ?buf)
        (andthen (gets scratch) (\<lambda>buf. map_err (\<lambda>_. FW_Flash) (on_flash (nf_write F ?a (take ?p buf)))))
        (\<lambda>_ s. view (as_flash s) = block_written F mode V ?a bytes \<and> opened F base n mode s) ?E"
      by (rule tripleI) (use tripleD [OF prog] in \<open>auto simp: andthen_def gets_def\<close>)
    have "view (as_flash (s\<lparr>scratch := ?buf\<rparr>)) = V \<and> opened F base n mode (s\<lparr>scratch := ?buf\<rparr>) \<and>
        scratch (s\<lparr>scratch := ?buf\<rparr>) = ?buf"
      using s buf(2) by (simp add: opened_def)
    note run = tripleD [OF triple_andthen [OF erase tail] this]
    have eq: "flush_block F logical bytes s =
        andthen (if mode then map_err (\<lambda>_. FW_Flash) (on_flash (nf_erase F ?a (?a + of_nat ?es))) else return ())
          (\<lambda>_. andthen (gets scratch) (\<lambda>buf. map_err (\<lambda>_. FW_Flash) (on_flash (nf_write F ?a (take ?p buf)))))
          (s\<lparr>scratch := ?buf\<rparr>)"
      using flush_block_accepted [OF laws conjunct2 [OF s] None] by (simp only: Let_def a_def)
    obtain r s' where r: "flush_block F logical bytes s = (r, s')" by (cases "flush_block F logical bytes s")
    from run [folded eq, unfolded r] show ?thesis
      unfolding r by (cases r) (simp_all add: None)
  qed
qed

section \<open>Whole calls\<close>

text \<open>A range is prepared when the storage erases it itself or it is erased already.\<close>

definition prepared :: "bool \<Rightarrow> mem \<Rightarrow> u32 \<Rightarrow> nat \<Rightarrow> bool" where
  "prepared mode V a n \<longleftrightarrow> mode \<or> slice_at V a n = replicate n 0xFF"

lemma block_written_stored:
  assumes laws: "nor_laws F view" and len: "length bytes = ERASE_SIZE F"
    and prep: "prepared mode V a (ERASE_SIZE F)"
  shows "block_written F mode V a bytes = stored V a bytes"
proof -
  have "padded_len F (length bytes) = length bytes"
    using padded_len_bounds [OF laws, of "length bytes"] len by simp
  then have img: "block_image F bytes = bytes" by (simp add: block_image_def)
  show ?thesis
    using prep len programmed_erased_stored [of bytes "ERASE_SIZE F" V a] programmed_blank [of V a bytes]
    by (auto simp: block_written_def img prepared_def)
qed

lemma block_written_slice:
  assumes laws: "nor_laws F view" and len: "length bytes \<le> ERASE_SIZE F"
    and prep: "prepared mode V a (ERASE_SIZE F)"
  shows "slice_at (block_written F mode V a bytes) a (length bytes) = bytes"
    and "same_outside (region a (ERASE_SIZE F)) V (block_written F mode V a bytes)"
proof -
  note pad = padded_len_bounds [OF laws len]
  let ?img = "block_image F bytes"
  have img: "length ?img = padded_len F (length bytes)" using pad by simp
  have "slice_at V a (length ?img) = replicate (length ?img) 0xFF" if "\<not> mode"
    using prep that slice_at_blank_part [of V a "ERASE_SIZE F" _ 0 "length ?img"] pad img by (simp add: prepared_def)
  then have "block_written F mode V a bytes =
      stored V a (?img @ replicate (if mode then ERASE_SIZE F - length ?img else 0) 0xFF)"
    using programmed_erased_stored [of ?img "ERASE_SIZE F" V a] programmed_blank [of V a ?img] pad(2) img
    by (auto simp: block_written_def)
  moreover define rest where "rest = replicate (padded_len F (length bytes) - length bytes) 0 @
      replicate (if mode then ERASE_SIZE F - length ?img else 0) (0xFF :: u8)"
  ultimately have eq: "block_written F mode V a bytes = stored V a (bytes @ rest)" by (simp add: block_image_def)
  have size: "length (bytes @ rest) \<le> ERASE_SIZE F" using pad img by (auto simp: rest_def)
  then have lim: "length (bytes @ rest) \<le> 2 ^ 32" using nor_sizes(4) [OF laws] by (simp add: usize_limit_def)
  have "take (length bytes) (slice_at (stored V a (bytes @ rest)) a (length (bytes @ rest))) = bytes"
    unfolding slice_at_stored [OF lim] by simp
  then show "slice_at (block_written F mode V a bytes) a (length bytes) = bytes"
    by (simp add: eq take_slice_at)
  show "same_outside (region a (ERASE_SIZE F)) V (block_written F mode V a bytes)"
    unfolding eq using size by (intro same_outside_stored region_mono)
qed

text \<open>How far a call of \<open>write\<close> got: \<open>k\<close> bytes of whole blocks are stored at the durable offset.\<close>

definition stored_to :: "('f, 'e) nor_flash \<Rightarrow> u32 \<Rightarrow> nat \<Rightarrow> u64 \<Rightarrow> u8 list \<Rightarrow> mem \<Rightarrow> nat \<Rightarrow> mem \<Rightarrow> bool" where
  "stored_to F base n d pending V k W \<longleftrightarrow> k \<le> length pending \<and> k mod ERASE_SIZE F = 0 \<and>
     (0 < k \<longrightarrow> unat d + k \<le> n \<and> unat base + unat d + k < usize_limit) \<and>
     W = stored V (base + of_nat (unat d)) (take k pending)"

definition write_failed :: "('f, 'e) nor_flash \<Rightarrow> u32 \<Rightarrow> nat \<Rightarrow> u64 \<Rightarrow> u8 list \<Rightarrow> mem \<Rightarrow> flash_write_error \<Rightarrow> mem \<Rightarrow> bool" where
  "write_failed F base n d pending V e W \<longleftrightarrow>
     (\<exists>k U. stored_to F base n d pending V k U \<and>
        (W = U \<or> e = FW_Flash \<and> unat d + k + ERASE_SIZE F \<le> n \<and>
                 same_outside (region (base + of_nat (unat d + k)) (ERASE_SIZE F)) U W))"

lemma write_loop_step:
  "write_loop F d pending k =
     (if ERASE_SIZE F \<le> length pending - k then
        andthen (flush_block F (d + of_nat k) (take (ERASE_SIZE F) (drop k pending))) (\<lambda>_.
          if ERASE_SIZE F = 0 then panic else write_loop F d pending (k + ERASE_SIZE F))
      else return (d + of_nat k))"
  by (rule ext, subst write_loop.simps) (simp add: return_def panic_def fun_eq_iff cong: if_cong)

lemma consumed_offset:
  assumes "0 < k \<longrightarrow> unat base + unat d + k < usize_limit"
  shows "unat (d + of_nat k :: u64) = unat d + k"
proof (cases "k = 0")
  case False
  with assms have lim: "unat d + k < 2 ^ 32" by (simp add: usize_limit_def)
  then have "unat (of_nat k :: u64) = k" by (simp add: unat_of_nat)
  moreover have "unat d + unat (of_nat k :: u64) < 2 ^ 64" using lim calculation by simp
  ultimately show ?thesis using unat_add_small_64 [of d "of_nat k"] by simp
qed simp

lemma write_loop_triple:
  assumes laws: "nor_laws F view"
    and prep: "prepared mode V (base + of_nat (unat d)) (min (length pending div ERASE_SIZE F * ERASE_SIZE F) (n - unat d))"
  shows "triple (\<lambda>s. stored_to F base n d pending V k (view (as_flash s)) \<and> opened F base n mode s)
     (write_loop F d pending k)
     (\<lambda>r s. (\<exists>m. m = length pending div ERASE_SIZE F * ERASE_SIZE F \<and> r = d + of_nat m \<and>
        stored_to F base n d pending V m (view (as_flash s))) \<and> opened F base n mode s)
     (\<lambda>e s. write_failed F base n d pending V e (view (as_flash s)) \<and> opened F base n mode s)"
proof (induction "length pending - k" arbitrary: k rule: less_induct)
  case less
  let ?es = "ERASE_SIZE F" and ?a = "base + of_nat (unat d) :: u32"
  note sizes = nor_sizes [OF laws]
  show ?case
  proof (rule tripleI, cases "?es \<le> length pending - k")
    fix s assume s: "stored_to F base n d pending V k (view (as_flash s)) \<and> opened F base n mode s" and stop: "\<not> ?es \<le> length pending - k"
    then have "length pending div ?es = k div ?es"
      using sizes(2) by (auto simp: stored_to_def not_le elim!: dvdE
          intro!: div_nat_eqI simp: mod_eq_0_iff_dvd algebra_simps)
    then have "length pending div ?es * ?es = k" using s by (auto simp: stored_to_def mod_eq_0_iff_dvd)
    with s stop show "case write_loop F d pending k s of
        (Ok r, s) \<Rightarrow> (\<exists>m. m = length pending div ?es * ?es \<and> r = d + of_nat m \<and>
          stored_to F base n d pending V m (view (as_flash s))) \<and> opened F base n mode s
      | (Err e, s) \<Rightarrow> write_failed F base n d pending V e (view (as_flash s)) \<and> opened F base n mode s
      | (Panic, s) \<Rightarrow> False"
      by (simp add: write_loop_step [of F d pending k] return_def)
  next
    fix s assume s: "stored_to F base n d pending V k (view (as_flash s)) \<and> opened F base n mode s" and go: "?es \<le> length pending - k"
    define bytes where "bytes = take ?es (drop k pending)"
    have len: "length bytes = ?es" "k + ?es \<le> length pending" using go sizes(2) by (auto simp: bytes_def)
    define U where "U = view (as_flash s)"
    have U: "stored_to F base n d pending V k U" using s by (simp add: U_def)
    have off: "unat (d + of_nat k) = unat d + k" by (rule consumed_offset [where base = base]) (use U in \<open>simp add: stored_to_def\<close>)
    have at: "base + of_nat (unat (d + of_nat k)) = ?a + of_nat k" by (simp add: off add.assoc)
    have kes: "k + ?es \<le> length pending div ?es * ?es"
    proof -
      have "?es dvd k" using U by (simp add: stored_to_def mod_eq_0_iff_dvd)
      then obtain j where j: "k = j * ?es" by (metis dvdE mult.commute)
      have "(j + 1) * ?es \<le> length pending" using len(2) j by simp
      then have "j + 1 \<le> length pending div ?es" using sizes(2) by (simp add: less_eq_div_iff_mult_less_eq)
      then have "(j + 1) * ?es \<le> length pending div ?es * ?es" by (rule mult_le_mono1)
      then show ?thesis by (simp add: j)
    qed
    let ?post = "\<lambda>s. stored_to F base n d pending V (k + ?es) (view (as_flash s)) \<and> opened F base n mode s"
    let ?fail = "\<lambda>e s. write_failed F base n d pending V e (view (as_flash s)) \<and> opened F base n mode s"
    have next_block: "stored_to F base n d pending V (k + ?es) (block_written F mode U (?a + of_nat k) bytes)"
      if "block_refused ?es base n (d + of_nat k) (length bytes) = None"
    proof -
      have room: "unat d + (k + ?es) \<le> n" "unat base + unat d + (k + ?es) < usize_limit"
        using that by (auto simp: block_refused_def off split: if_splits)
      then have small: "length (take k pending) + ?es \<le> 2 ^ 32" "length (take k pending) = k"
        using len(2) by (simp_all add: usize_limit_def)
      have "prepared mode U (?a + of_nat k) ?es"
        using prep slice_at_blank_part [of V ?a _ _ k ?es] kes room(1) slice_at_stored_after [OF small(1), of V ?a] small(2) U
        by (auto simp: prepared_def stored_to_def)
      then have "block_written F mode U (?a + of_nat k) bytes = stored U (?a + of_nat k) bytes"
        by (rule block_written_stored [OF laws len(1)])
      also have "\<dots> = stored V ?a (take k pending @ bytes)"
        using stored_append [of "take k pending" bytes V ?a] small len(1) U by (simp add: stored_to_def)
      also have "take k pending @ bytes = take (k + ?es) pending" by (simp add: bytes_def take_add)
      finally show ?thesis
        using room len(2) U by (simp add: stored_to_def)
    qed
    have block: "triple (\<lambda>s. view (as_flash s) = U \<and> opened F base n mode s) (flush_block F (d + of_nat k) bytes)
        (\<lambda>_. ?post) ?fail"
    proof (rule triple_conseq [OF flush_block_triple [OF laws, where V = U and base = base and n = n and mode = mode]])
      fix e s assume e: "opened F base n mode s \<and> (case block_refused ?es base n (d + of_nat k) (length bytes) of
           Some e' \<Rightarrow> e = e' \<and> view (as_flash s) = U
         | None \<Rightarrow> e = FW_Flash \<and> same_outside (region (base + of_nat (unat (d + of_nat k))) ?es) U (view (as_flash s)))"
      have "unat d + k + ?es \<le> n" if "block_refused ?es base n (d + of_nat k) (length bytes) = None"
        using that by (auto simp: block_refused_def off split: if_splits)
      with e U show "?fail e s"
        unfolding write_failed_def by (intro conjI exI [of _ k] exI [of _ U]) (auto simp: off split: option.splits)
    qed (use next_block in \<open>auto simp: at [simplified] add.assoc\<close>)
    have rest: "triple ?post (write_loop F d pending (k + ?es))
       (\<lambda>r s. (\<exists>m. m = length pending div ?es * ?es \<and> r = d + of_nat m \<and>
          stored_to F base n d pending V m (view (as_flash s))) \<and> opened F base n mode s) ?fail"
      by (rule less.hyps) (use len(2) sizes(2) in simp)
    have "view (as_flash s) = U \<and> opened F base n mode s" using s by (simp add: U_def)
    from tripleD [OF triple_andthen [OF block rest] this]
    show "case write_loop F d pending k s of
        (Ok r, s) \<Rightarrow> (\<exists>m. m = length pending div ?es * ?es \<and> r = d + of_nat m \<and>
          stored_to F base n d pending V m (view (as_flash s))) \<and> opened F base n mode s
      | (Err e, s) \<Rightarrow> ?fail e s
      | (Panic, s) \<Rightarrow> False"
      using go sizes(2) by (simp add: write_loop_step [of F d pending k] bytes_def)
  qed
qed

text \<open>Whatever happens, only the partition changes.\<close>

lemma stored_to_outside:
  assumes "stored_to F base n d pending V k W"
  shows "same_outside (region base n) V W"
proof (cases "k = 0")
  case False
  with assms have k: "unat d + k \<le> n" "k \<le> length pending" by (simp_all add: stored_to_def)
  then have "unat (of_nat (unat d) :: u32) + length (take k pending) \<le> n"
    using unat_of_nat_le [of "unat d"] by simp
  then have "same_outside (region base n) V (stored V (base + of_nat (unat d)) (take k pending))"
    by (intro same_outside_stored region_subset)
  with assms show ?thesis by (simp add: stored_to_def)
qed (use assms in \<open>simp add: stored_to_def\<close>)

lemma write_failed_outside:
  assumes "write_failed F base n d pending V e W"
  shows "same_outside (region base n) V W"
proof -
  obtain k U where U: "stored_to F base n d pending V k U" and
    W: "W = U \<or> e = FW_Flash \<and> unat d + k + ERASE_SIZE F \<le> n \<and>
        same_outside (region (base + of_nat (unat d + k)) (ERASE_SIZE F)) U W"
    using assms by (auto simp: write_failed_def)
  have "region (base + of_nat (unat d + k)) (ERASE_SIZE F) \<subseteq> region base n" if "unat d + k + ERASE_SIZE F \<le> n"
    using that unat_of_nat_le [of "unat d + k"] by (intro region_subset) linarith
  with W stored_to_outside [OF U] show ?thesis by (auto intro: same_outside_step)
qed

lemma storage_write_triple:
  assumes laws: "nor_laws F view"
    and prep: "prepared mode V (base + of_nat (unat d)) (min (length pending div ERASE_SIZE F * ERASE_SIZE F) (n - unat d))"
  shows "triple (\<lambda>s. view (as_flash s) = V \<and> opened F base n mode s) (storage_write F d pending)
     (\<lambda>r s. (\<exists>m. m = length pending div ERASE_SIZE F * ERASE_SIZE F \<and> r = d + of_nat m \<and>
        stored_to F base n d pending V m (view (as_flash s))) \<and> opened F base n mode s)
     (\<lambda>e s. write_failed F base n d pending V e (view (as_flash s)) \<and> opened F base n mode s)"
  unfolding storage_write_def
  by (rule triple_pre [OF write_loop_triple [OF laws prep]]) (simp add: stored_to_def)

definition finished :: "('f, 'e) nor_flash \<Rightarrow> u32 \<Rightarrow> nat \<Rightarrow> u64 \<Rightarrow> u8 list \<Rightarrow> mem \<Rightarrow> mem \<Rightarrow> bool" where
  "finished F base n d pending V W \<longleftrightarrow>
     slice_at W (base + of_nat (unat d)) (length pending) = pending \<and>
     (pending = [] \<longrightarrow> W = V) \<and>
     (pending \<noteq> [] \<longrightarrow> unat d mod ERASE_SIZE F = 0 \<and> unat d + ERASE_SIZE F \<le> n \<and>
        unat base + unat d + ERASE_SIZE F < usize_limit) \<and>
     same_outside (region (base + of_nat (unat d)) (ERASE_SIZE F)) V W"

lemma storage_finish_triple:
  assumes laws: "nor_laws F view"
    and prep: "pending = [] \<or> n < unat d + ERASE_SIZE F \<or> prepared mode V (base + of_nat (unat d)) (ERASE_SIZE F)"
  shows "triple (\<lambda>s. view (as_flash s) = V \<and> opened F base n mode s) (storage_finish F d pending)
     (\<lambda>r s. r = d + of_nat (length pending) \<and> length pending < ERASE_SIZE F \<and>
        finished F base n d pending V (view (as_flash s)) \<and> opened F base n mode s)
     (\<lambda>e s. same_outside (region base n) V (view (as_flash s)) \<and> (e \<noteq> FW_Flash \<longrightarrow> view (as_flash s) = V) \<and>
        opened F base n mode s)"
proof (cases "pending = []")
  case True
  then show ?thesis
    using nor_sizes(2) [OF laws] by (auto simp: storage_finish_def finished_def intro!: triple_return)
next
  case False
  let ?a = "base + of_nat (unat d) :: u32" and ?es = "ERASE_SIZE F"
  let ?E = "\<lambda>e s. same_outside (region base n) V (view (as_flash s)) \<and> (e \<noteq> FW_Flash \<longrightarrow> view (as_flash s) = V) \<and>
        opened F base n mode s"
  have inside: "region ?a ?es \<subseteq> region base n" if "block_refused ?es base n d (length pending) = None"
    using that unat_of_nat_le [of "unat d"]
    by (intro region_subset) (auto simp: block_refused_def split: if_splits)
  have big: "triple (\<lambda>s. view (as_flash s) = V \<and> opened F base n mode s) (reject_if (?es \<le> length pending) FW_Flash)
      (\<lambda>_ s. length pending < ?es \<and> view (as_flash s) = V \<and> opened F base n mode s) ?E"
    by (rule triple_reject_if) auto
  have block: "triple (\<lambda>s. view (as_flash s) = V \<and> opened F base n mode s) (flush_block F d pending)
      (\<lambda>_ s. finished F base n d pending V (view (as_flash s)) \<and> opened F base n mode s) ?E"
    if small: "length pending < ?es"
  proof (rule triple_conseq [OF flush_block_triple [OF laws, where V = V and base = base and n = n and mode = mode]])
    fix s and u :: unit
    assume s: "view (as_flash s) = block_written F mode V ?a pending \<and> opened F base n mode s \<and>
        block_refused ?es base n d (length pending) = None"
    then have "unat d mod ?es = 0 \<and> unat d + ?es \<le> n \<and> unat base + unat d + ?es < usize_limit"
      by (auto simp: block_refused_def split: if_splits)
    with s show "finished F base n d pending V (view (as_flash s)) \<and> opened F base n mode s"
      using block_written_slice [OF laws, of pending mode V ?a] small prep False
      by (simp add: finished_def)
  next
    fix e s
    assume "opened F base n mode s \<and> (case block_refused ?es base n d (length pending) of
         Some e' \<Rightarrow> e = e' \<and> view (as_flash s) = V
       | None \<Rightarrow> e = FW_Flash \<and> same_outside (region ?a ?es) V (view (as_flash s)))"
    then show "?E e s" using inside by (auto intro: same_outside_mono split: option.splits)
  qed simp
  have last: "triple (\<lambda>s. finished F base n d pending V (view (as_flash s)) \<and> opened F base n mode s)
      (return (d + of_nat (length pending)))
      (\<lambda>r s. r = d + of_nat (length pending) \<and> length pending < ?es \<and>
        finished F base n d pending V (view (as_flash s)) \<and> opened F base n mode s) ?E"
    if "length pending < ?es" using that by (simp add: triple_return)
  show ?thesis
    unfolding storage_finish_def using False
    by (simp, intro triple_andthen [OF big] triple_pure triple_andthen [OF block last])
qed

end
