(* ===== verification/Otadata.thy ===== *)
theory Otadata
  imports Ota_Storage Entry_Commit
begin

text \<open>
  \<open>adapters/ota/src/otadata.rs\<close>: the boot entries in the \<open>otadata\<close> partition as the running
  firmware sees and changes them.  The decisions are fibewi's (parameter \<open>boot_core\<close>); this
  component reads the entries, derives the write target and the status, and executes an entry
  transition with the commit protocol of \<open>Entry_Commit\<close>.
\<close>

definition OTA_SLOT_COUNT :: u8 where "OTA_SLOT_COUNT = 2"
definition SECTOR_SIZE :: u32 where "SECTOR_SIZE = 0x1000"

datatype otadata_error = Unavailable | NoTransition | Verify

type_synonym ('f, 'a) ota = "('f, 'a, otadata_error) comp"

definition read_at :: "'e boot_core \<Rightarrow> ('f, 't) idf \<Rightarrow> ('f, 'x) nor_flash \<Rightarrow> ('f, u32 \<times> u8 list list) ota" where
  "read_at core I F =
     andthen (map_err (\<lambda>_. Unavailable) (read_partition_table I)) (\<lambda>t.
     case find_partition I t PT_Data_Ota of
       Inl _ \<Rightarrow> throw Unavailable
     | Inr None \<Rightarrow> throw Unavailable
     | Inr (Some p) \<Rightarrow>
         andthen (collect [0, 1] (\<lambda>i. map_err (\<lambda>_. Unavailable)
           (nf_read_into F (pe_offset p + of_nat i * SECTOR_SIZE) (BLANK core)))) (\<lambda>entries.
         return (pe_offset p, entries)))"

definition read_entries :: "'e boot_core \<Rightarrow> ('f, 't) idf \<Rightarrow> ('f, 'x) nor_flash \<Rightarrow> ('f, u8 list list) ota" where
  "read_entries core I F = andthen (read_at core I F) (\<lambda>(base, entries). return entries)"

definition booted_slot :: "('f, 't) idf \<Rightarrow> ('f, string) ota" where
  "booted_slot I =
     andthen (map_err (\<lambda>_. Unavailable) (read_partition_table I)) (\<lambda>t.
     case booted_partition I t of
       Inl _ \<Rightarrow> throw Unavailable
     | Inr None \<Rightarrow> throw Unavailable
     | Inr (Some e) \<Rightarrow>
         (if pe_label e = ''ota_0'' then return ''ota_0''
          else if pe_label e = ''ota_1'' then return ''ota_1''
          else if pe_label e = ''factory'' then return ''factory''
          else throw Unavailable))"

section \<open>What the entries say\<close>

definition decoded_entries :: "'e boot_core \<Rightarrow> u8 list list \<Rightarrow> 'e list" where
  "decoded_entries core raws =
     List.map_filter (\<lambda>raw. case entry_decode core raw of Decoded_Ok e \<Rightarrow> Some e | Decoded_Other \<Rightarrow> None) raws"

definition usable_seqs :: "'e boot_core \<Rightarrow> u8 list list \<Rightarrow> u32 list" where
  "usable_seqs core raws =
     List.map_filter (\<lambda>raw. case entry_decode core raw of
       Decoded_Ok e \<Rightarrow> if entry_state core e = state_VALID core \<or> entry_state core e = state_PENDING_VERIFY core
                       then Some (entry_seq core e) else None
     | Decoded_Other \<Rightarrow> None) raws"

text \<open>\<open>Iterator::max\<close> and \<open>max_by_key\<close>: of equal maxima the last.\<close>

fun max_seq :: "u32 list \<Rightarrow> u32 option" where
  "max_seq [] = None"
| "max_seq (x # xs) = Some (fold max xs x)"

definition later :: "('e \<Rightarrow> u32) \<Rightarrow> 'e \<Rightarrow> 'e \<Rightarrow> 'e" where
  "later key y x = (if key y < key x then x else y)"

fun max_by_key :: "('e \<Rightarrow> u32) \<Rightarrow> 'e list \<Rightarrow> 'e option" where
  "max_by_key key [] = None"
| "max_by_key key (x # xs) = Some (fold (later key) xs x)"

definition write_target :: "'e boot_core \<Rightarrow> ('f, 't) idf \<Rightarrow> ('f, 'x) nor_flash \<Rightarrow> ('f, app_partition) ota" where
  "write_target core I F =
     andthen (read_entries core I F) (\<lambda>entries.
     andthen (ok_or Unavailable (max_seq (usable_seqs core entries))) (\<lambda>sq.
     andthen (if slot_of core sq OTA_SLOT_COUNT = 0 then return Ota1
              else if slot_of core sq OTA_SLOT_COUNT = 1 then return Ota0
              else throw Unavailable) (\<lambda>target.
     map_err (\<lambda>_. Unavailable) (find_app_partition I target))))"

datatype backend_outcome = PendingConfirmation | Confirmed | Outcome_Other

definition has_state :: "'e boot_core \<Rightarrow> u8 list list \<Rightarrow> u32 \<Rightarrow> bool" where
  "has_state core entries wanted =
     list_ex (\<lambda>raw. case entry_decode core raw of Decoded_Ok e \<Rightarrow> entry_state core e = wanted | Decoded_Other \<Rightarrow> False) entries"

definition image_outcome :: "'e boot_core \<Rightarrow> u8 list list \<Rightarrow> backend_outcome" where
  "image_outcome core entries =
     (if has_state core entries (state_PENDING_VERIFY core) then PendingConfirmation
      else if has_state core entries (state_VALID core) then Confirmed
      else Outcome_Other)"

record boot_entry_info =
  be_slot :: string
  be_seq :: u32
  be_state :: string

definition state_name :: "'e boot_core \<Rightarrow> u32 \<Rightarrow> string" where
  "state_name core st =
     (if st = state_NEW core then ''new''
      else if st = state_PENDING_VERIFY core then ''pending_verify''
      else if st = state_VALID core then ''valid''
      else if st = state_INVALID core then ''invalid''
      else if st = state_ABORTED core then ''aborted''
      else ''unknown'')"

definition slot_name :: "u8 \<Rightarrow> string" where
  "slot_name n = (if n = 0 then ''ota_0'' else if n = 1 then ''ota_1'' else '''')"

definition boot_entry :: "'e boot_core \<Rightarrow> u8 list list \<Rightarrow> boot_entry_info option" where
  "boot_entry core entries =
     map_option (\<lambda>e. \<lparr>be_slot = slot_name (slot_of core (entry_seq core e) OTA_SLOT_COUNT),
                      be_seq = entry_seq core e, be_state = state_name core (entry_state core e)\<rparr>)
       (max_by_key (entry_seq core) (decoded_entries core entries))"

section \<open>Transitions\<close>

text \<open>As in the bootloader, every read-back fills the whole buffer, so each gets a fresh one.\<close>

definition ota_execute ::
  "'e boot_core \<Rightarrow> ('f, 't) idf \<Rightarrow> ('f, 'x) nor_flash \<Rightarrow> 'e boot_write \<Rightarrow> ('f, unit) ota" where
  "ota_execute core I F wr =
     andthen (read_at core I F) (\<lambda>(partition_base, _).
     let base = partition_base + ucast (write_sector wr) * SECTOR_SIZE;
         read_back = map_err (\<lambda>_. Verify) (nf_read_into F base (replicate (ENTRY_SIZE core) 0))
     in case write_ops core wr of (erase, body, commit) \<Rightarrow>
     andthen (reject_if (erase \<noteq> Op_Erase) Verify) (\<lambda>_.
     andthen (map_err (\<lambda>_. Verify) (nf_erase F base (base + SECTOR_SIZE))) (\<lambda>_.
     andthen read_back (\<lambda>back.
     andthen (reject_if (back \<noteq> BLANK core) Verify) (\<lambda>_.
     andthen (case body of Op_Erase \<Rightarrow> throw Verify
       | Op_Program offset len data \<Rightarrow>
           andthen (panic_if (length data < unat len)) (\<lambda>_.
           map_err (\<lambda>_. Verify) (nf_write F (base + ucast offset) (take (unat len) data)))) (\<lambda>_.
     andthen read_back (\<lambda>back.
     andthen (reject_if (back \<noteq> entry_body core (write_entry wr)) Verify) (\<lambda>_.
     andthen (case commit of Op_Erase \<Rightarrow> throw Verify
       | Op_Program offset len data \<Rightarrow>
           andthen (panic_if (length data < unat len)) (\<lambda>_.
           map_err (\<lambda>_. Verify) (nf_write F (base + ucast offset) (take (unat len) data)))) (\<lambda>_.
     andthen read_back (\<lambda>back.
     reject_if (back \<noteq> entry_encode core (write_entry wr) \<or>
                entry_decode core back \<noteq> Decoded_Ok (write_entry wr)) Verify))))))))))"

definition confirm :: "'e boot_core \<Rightarrow> ('f, 't) idf \<Rightarrow> ('f, 'x) nor_flash \<Rightarrow> ('f, unit) ota" where
  "confirm core I F =
     andthen (read_entries core I F) (\<lambda>entries.
     andthen (ok_or NoTransition (core_confirm core entries)) (\<lambda>wr.
     ota_execute core I F wr))"

definition reject :: "'e boot_core \<Rightarrow> ('f, 't) idf \<Rightarrow> ('f, 'x) nor_flash \<Rightarrow> ('f, unit) ota" where
  "reject core I F =
     andthen (read_entries core I F) (\<lambda>entries.
     andthen (ok_or NoTransition (core_reject core entries)) (\<lambda>wr.
     ota_execute core I F wr))"

definition activate :: "'e boot_core \<Rightarrow> ('f, 't) idf \<Rightarrow> ('f, 'x) nor_flash \<Rightarrow> app_slot \<Rightarrow> ('f, unit) ota" where
  "activate core I F target =
     andthen (read_entries core I F) (\<lambda>entries.
     let index = (case target of Ota0 \<Rightarrow> 0 | Ota1 \<Rightarrow> 1) in
     andthen (ok_or NoTransition (core_activate core entries OTA_SLOT_COUNT index)) (\<lambda>wr.
     ota_execute core I F wr))"

section \<open>The driver as an entry device\<close>

definition ota_erase :: "('f, 'x) nor_flash \<Rightarrow> u32 \<Rightarrow> ('f, unit, 'x) comp" where
  "ota_erase F base = nf_erase F base (base + SECTOR_SIZE)"

definition ota_read :: "('f, 'x) nor_flash \<Rightarrow> u32 \<Rightarrow> nat \<Rightarrow> ('f, u8 list, 'x) comp" where
  "ota_read F a n = nf_read_into F a (replicate n 0)"

interpretation ota_dev: entry_device ota_erase nf_write ota_read nor_laws "\<lambda>_. True"
proof
  fix F :: "('f, 'x) nor_flash" and view V and base :: u32
  assume laws: "nor_laws F view"
  have "unat (base + SECTOR_SIZE - base) = 0x1000" by (simp add: SECTOR_SIZE_def)
  from nor_eraseD [OF laws, of V base "base + SECTOR_SIZE", unfolded this]
  show "triple (\<lambda>s. view s = V) (ota_erase F base)
      (\<lambda>_ s. view s = erased V base 0x1000) (\<lambda>_ s. same_outside (region base 0x1000) V (view s))"
    unfolding ota_erase_def by (rule triple_conseq) auto
next
  fix F :: "('f, 'x) nor_flash" and view V and bs :: "u8 list" and a
  assume "nor_laws F view"
  then show "triple (\<lambda>s. view s = V) (nf_write F a bs)
      (\<lambda>_ s. view s = programmed V a bs) (\<lambda>_ s. same_outside (region a (length bs)) V (view s))"
    by (rule nor_writeD)
next
  fix F :: "('f, 'x) nor_flash" and view V a n
  assume "nor_laws F view"
  then show "triple (\<lambda>s. view s = V) (ota_read F a n)
      (\<lambda>out s. view s = V \<and> out = slice_at V a n) (\<lambda>e s. view s = V \<and> True)"
    unfolding ota_read_def by (auto elim!: nor_readD [THEN triple_conseq])
qed

text \<open>\<open>execute\<close> is the commit protocol on the driver, with every error reported as \<open>Verify\<close>.\<close>

lemma ota_execute_refines_commit:
  "ota_execute core I F wr =
     andthen (read_at core I F) (\<lambda>(partition_base, _).
     map_err (\<lambda>_. Verify)
       (commit_entry core (ota_erase F) (nf_write F) (ota_read F) wr
          (partition_base + ucast (write_sector wr) * SECTOR_SIZE)))"
proof -
  obtain e b c where ops: "write_ops core wr = (e, b, c)" by (metis prod_cases3)
  have eq: "(x \<noteq> y \<or> d x \<noteq> z) = (\<not> (x = y \<and> d x = z))" for x :: "u8 list" and y d and z :: "'a decoded"
    by blast
  show ?thesis
    unfolding ota_execute_def
    by (cases b; cases c)
       (simp_all add: commit_entry_def program_op_def check_read_def ops Let_def monad
          ota_erase_def ota_read_def eq split_def)
qed

section \<open>Reading the entries\<close>

definition otadata_base :: "('f, 't) idf \<Rightarrow> 't \<Rightarrow> u32 option" where
  "otadata_base I t = (case find_partition I t PT_Data_Ota of Inr (Some p) \<Rightarrow> Some (pe_offset p) | _ \<Rightarrow> None)"

definition entry_base :: "u32 \<Rightarrow> nat \<Rightarrow> u32" where
  "entry_base base i = base + of_nat i * SECTOR_SIZE"

definition entries_at :: "'e boot_core \<Rightarrow> mem \<Rightarrow> u32 \<Rightarrow> u8 list list" where
  "entries_at core V base = map (\<lambda>i. slice_at V (entry_base base i) (length (BLANK core))) [0, 1]"

lemma read_at_triple:
  fixes F :: "('f, 'x) nor_flash"
  assumes I: "idf_laws I view parse" and F: "nor_laws F view"
  shows "triple (\<lambda>f. view f = V) (read_at core I F)
    (\<lambda>r f. view f = V \<and> otadata_base I (parse V) = Some (fst r) \<and> snd r = entries_at core V (fst r))
    (\<lambda>e f. e = Unavailable \<and> view f = V)"
proof -
  let ?E = "\<lambda>e f. e = Unavailable \<and> view f = V"
  have table: "triple (\<lambda>f. view f = V) (map_err (\<lambda>_. Unavailable) (read_partition_table I))
      (\<lambda>t f. t = parse V \<and> view f = V) ?E"
    by (rule triple_map_err, rule triple_conseq [OF idf_readD [OF I]]) auto
  have entry: "triple (\<lambda>f. view f = V) (map_err (\<lambda>_. Unavailable) (nf_read_into F a (BLANK core)))
      (\<lambda>out f. out = slice_at V a (length (BLANK core)) \<and> view f = V) ?E" for a
    by (rule triple_map_err, rule triple_conseq [OF nor_readD [OF F]]) auto
  have both: "triple (\<lambda>f. view f = V) (collect [0, 1] (\<lambda>i. map_err (\<lambda>_. Unavailable)
        (nf_read_into F (b + of_nat i * SECTOR_SIZE) (BLANK core))))
      (\<lambda>es f. es = entries_at core V b \<and> view f = V) ?E" for b
    unfolding collect.simps
    by (rule triple_andthen [OF entry], rule triple_pure,
        rule triple_andthen [where R = "\<lambda>as f. as = [slice_at V (b + of_nat 1 * SECTOR_SIZE) (length (BLANK core))] \<and> view f = V"],
        rule triple_andthen [OF entry], rule triple_pure)
       (auto simp: entries_at_def entry_base_def monad intro!: triple_return)
  have found: "triple (\<lambda>f. view f = V) (andthen (collect [0, 1] (\<lambda>i. map_err (\<lambda>_. Unavailable)
        (nf_read_into F (pe_offset p + of_nat i * SECTOR_SIZE) (BLANK core)))) (\<lambda>entries. return (pe_offset p, entries)))
      (\<lambda>r f. view f = V \<and> otadata_base I (parse V) = Some (fst r) \<and> snd r = entries_at core V (fst r)) ?E"
    if "find_partition I (parse V) PT_Data_Ota = Inr (Some p)" for p
    by (rule triple_andthen [OF both], rule triple_return) (auto simp: otadata_base_def that)
  have none: "triple (\<lambda>f. view f = V) (throw Unavailable) Q ?E" for Q :: "u32 \<times> u8 list list \<Rightarrow> 'f \<Rightarrow> bool"
    by (rule triple_throw) simp
  show ?thesis
    unfolding read_at_def
  proof (rule triple_andthen [OF table], rule triple_pure)
    fix t assume t: "t = parse V"
    consider x where "find_partition I t PT_Data_Ota = Inl x" | "find_partition I t PT_Data_Ota = Inr None"
      | p where "find_partition I t PT_Data_Ota = Inr (Some p)"
      by (metis not_Some_eq old.sum.exhaust)
    then show "triple (\<lambda>f. view f = V) (case find_partition I t PT_Data_Ota of
         Inl _ \<Rightarrow> throw Unavailable
       | Inr None \<Rightarrow> throw Unavailable
       | Inr (Some p) \<Rightarrow> andthen (collect [0, 1] (\<lambda>i. map_err (\<lambda>_. Unavailable)
             (nf_read_into F (pe_offset p + of_nat i * SECTOR_SIZE) (BLANK core)))) (\<lambda>entries.
           return (pe_offset p, entries)))
      (\<lambda>r f. view f = V \<and> otadata_base I (parse V) = Some (fst r) \<and> snd r = entries_at core V (fst r)) ?E"
    proof cases
      case (3 p)
      then show ?thesis using found [of p] by (simp only: t sum.case option.case)
    qed (use none in \<open>simp_all only: sum.case option.case\<close>)
  qed
qed

lemma read_entries_triple:
  assumes "idf_laws I view parse" and "nor_laws F view"
  shows "triple (\<lambda>f. view f = V) (read_entries core I F)
    (\<lambda>es f. view f = V \<and> (\<exists>b. otadata_base I (parse V) = Some b \<and> es = entries_at core V b))
    (\<lambda>e f. e = Unavailable \<and> view f = V)"
  unfolding read_entries_def
  by (rule triple_andthen [OF read_at_triple [OF assms]]) (auto simp: split_def intro!: triple_return)

section \<open>What a transition guarantees\<close>

definition transition ::
  "'e boot_core \<Rightarrow> ('f, 't) idf \<Rightarrow> ('f, 'x) nor_flash \<Rightarrow> (u8 list list \<Rightarrow> 'e boot_write option) \<Rightarrow> ('f, unit) ota" where
  "transition core I F pick =
     andthen (read_entries core I F) (\<lambda>entries.
     andthen (ok_or NoTransition (pick entries)) (\<lambda>wr. ota_execute core I F wr))"

lemma transitions:
  "confirm core I F = transition core I F (core_confirm core)"
  "reject core I F = transition core I F (core_reject core)"
  "activate core I F target =
     transition core I F (\<lambda>es. core_activate core es OTA_SLOT_COUNT (case target of Ota0 \<Rightarrow> 0 | Ota1 \<Rightarrow> 1))"
  by (simp_all add: transition_def confirm_def reject_def activate_def Let_def)

text \<open>What a choice of fibewi must be: one of the two sectors, operations that fit it.\<close>

definition sound_choice :: "'e boot_core \<Rightarrow> (u8 list list \<Rightarrow> 'e boot_write option) \<Rightarrow> bool" where
  "sound_choice core pick \<longleftrightarrow>
     (\<forall>es wr. pick es = Some wr \<longrightarrow> unat (write_sector wr) < 2 \<and> write_fits core wr)"

definition transition_ok :: "'e boot_core \<Rightarrow> u32 option \<Rightarrow> (u8 list list \<Rightarrow> 'e boot_write option) \<Rightarrow> mem \<Rightarrow> mem \<Rightarrow> bool" where
  "transition_ok core base pick V W \<longleftrightarrow> (\<exists>b wr. base = Some b \<and> pick (entries_at core V b) = Some wr \<and>
     committed core wr (entry_base b (unat (write_sector wr))) V W)"

definition transition_failed ::
  "'e boot_core \<Rightarrow> u32 option \<Rightarrow> (u8 list list \<Rightarrow> 'e boot_write option) \<Rightarrow> mem \<Rightarrow> otadata_error \<Rightarrow> mem \<Rightarrow> bool" where
  "transition_failed core base pick V e W \<longleftrightarrow> (case e of
     Unavailable \<Rightarrow> W = V
   | NoTransition \<Rightarrow> W = V \<and> (\<exists>b. base = Some b \<and> pick (entries_at core V b) = None)
   | Verify \<Rightarrow> (\<exists>b wr k. base = Some b \<and> pick (entries_at core V b) = Some wr \<and>
       failed_at core wr (entry_base b (unat (write_sector wr))) V k W))"

lemma entry_base_aligned: "b AND 0xFFF = 0 \<Longrightarrow> entry_base b i AND 0xFFF = 0"
  using sector_aligned_add [of b "i * 0x1000"] by (simp add: entry_base_def SECTOR_SIZE_def)

lemma entry_base_ucast: "b + ucast (sec :: u8) * SECTOR_SIZE = entry_base b (unat sec)"
  by (simp add: entry_base_def)

lemma transition_triple:
  assumes I: "idf_laws I view parse" and F: "nor_laws F view" and sound: "sound_choice core pick"
    and al: "\<And>b. otadata_base I (parse V) = Some b \<Longrightarrow> b AND 0xFFF = 0"
  shows "triple (\<lambda>f. view f = V) (transition core I F pick)
    (\<lambda>_ f. transition_ok core (otadata_base I (parse V)) pick V (view f))
    (\<lambda>e f. transition_failed core (otadata_base I (parse V)) pick V e (view f))"
proof -
  let ?B = "otadata_base I (parse V)"
  let ?Q = "\<lambda>_ f. transition_ok core ?B pick V (view f)" and ?E = "\<lambda>e f. transition_failed core ?B pick V e (view f)"
  have exec: "triple (\<lambda>f. view f = V) (ota_execute core I F wr) ?Q ?E"
    if b: "?B = Some b" and wr: "pick (entries_at core V b) = Some wr" for b wr
  proof -
    from sound wr have fits: "write_fits core wr" by (simp add: sound_choice_def)
    have base: "triple (\<lambda>f. view f = V) (read_at core I F) (\<lambda>r f. fst r = b \<and> view f = V) ?E"
      by (rule triple_conseq [OF read_at_triple [OF I F]]) (auto simp: transition_failed_def b)
    have commit: "triple (\<lambda>f. view f = V) (map_err (\<lambda>_. Verify)
        (commit_entry core (ota_erase F) (nf_write F) (ota_read F) wr (entry_base b (unat (write_sector wr))))) ?Q ?E"
      by (rule triple_map_err, rule triple_conseq
            [OF ota_dev.commit_law [OF F entry_base_aligned [OF al [OF b]] fits]])
         (auto simp: transition_ok_def transition_failed_def b wr)
    show ?thesis
      unfolding ota_execute_refines_commit split_def
      by (rule triple_andthen [OF base], rule triple_pure) (use commit in \<open>simp add: entry_base_ucast\<close>)
  qed
  have entries: "triple (\<lambda>f. view f = V) (read_entries core I F)
      (\<lambda>es f. (\<exists>b. ?B = Some b \<and> es = entries_at core V b) \<and> view f = V) ?E"
    by (rule triple_conseq [OF read_entries_triple [OF I F]]) (auto simp: transition_failed_def)
  have choice: "triple (\<lambda>f. view f = V) (ok_or NoTransition (pick es)) (\<lambda>wr f. pick es = Some wr \<and> view f = V) ?E"
    if "\<exists>b. ?B = Some b \<and> es = entries_at core V b" for es
    by (rule triple_ok_or) (use that in \<open>auto simp: transition_failed_def\<close>)
  show ?thesis
    unfolding transition_def
    by (rule triple_andthen [OF entries], rule triple_pure, rule triple_andthen [OF choice], assumption, rule triple_pure)
       (use exec in blast)
qed

text \<open>Nothing but one entry's sector changes, and an applied transition is what is read afterwards.\<close>

lemma transition_outside:
  assumes "sound_choice core pick" and "transition_ok core (Some b) pick V W \<or> transition_failed core (Some b) pick V e W"
  shows "same_outside (region b 0x2000) V W"
proof -
  have sector: "region (entry_base b (unat (write_sector wr))) 0x1000 \<subseteq> region b 0x2000"
    if "pick es = Some wr" for es wr
  proof -
    from assms(1) that have "unat (write_sector wr) < 2" by (simp add: sound_choice_def)
    then have "unat (of_nat (unat (write_sector wr)) * SECTOR_SIZE :: u32) + 0x1000 \<le> 0x2000"
      by (simp add: SECTOR_SIZE_def unat_word_ariths)
    then show ?thesis unfolding entry_base_def by (rule region_subset)
  qed
  from assms(2) show ?thesis
  proof
    assume "transition_ok core (Some b) pick V W"
    then obtain wr where wr: "pick (entries_at core V b) = Some wr"
      "committed core wr (entry_base b (unat (write_sector wr))) V W" by (auto simp: transition_ok_def)
    then show ?thesis
      using assms(1) committed_outside sector [OF wr(1)] same_outside_mono by (fastforce simp: sound_choice_def)
  next
    assume "transition_failed core (Some b) pick V e W"
    then show ?thesis
      using assms(1) failed_at_outside sector same_outside_mono
      by (fastforce simp: transition_failed_def sound_choice_def split: otadata_error.splits)
  qed
qed

lemma other_sector_apart:
  assumes "i < 2" and "j < 2" and "i \<noteq> j"
  shows "region (entry_base b i) 0x1000 \<inter> region (entry_base b j) 0x1000 = {}"
proof -
  have "region b 0x1000 \<inter> region (b + of_nat 0x1000) 0x1000 = {}" by (rule region_apart) simp
  moreover have "(i = 0 \<and> j = 1) \<or> (i = 1 \<and> j = 0)" using assms by auto
  ultimately show ?thesis by (auto simp: entry_base_def SECTOR_SIZE_def)
qed

lemma committed_entries:
  assumes size: "length (BLANK core) = ENTRY_SIZE core" "ENTRY_SIZE core \<le> 0x1000"
    and wr: "unat (write_sector wr) < 2" "write_fits core wr"
    and ok: "committed core wr (entry_base b (unat (write_sector wr))) V W"
  shows "entries_at core W b = (entries_at core V b)[unat (write_sector wr) := entry_encode core (write_entry wr)]"
proof -
  let ?k = "unat (write_sector wr)"
  have keep: "slice_at W (entry_base b j) (ENTRY_SIZE core) = slice_at V (entry_base b j) (ENTRY_SIZE core)"
    if "j < 2" "j \<noteq> ?k" for j
  proof (rule same_outside_slice [OF committed_outside [OF wr(2) ok]])
    show "region (entry_base b ?k) 0x1000 \<inter> region (entry_base b j) (ENTRY_SIZE core) = {}"
      using other_sector_apart [OF wr(1) that(1)] that(2) region_mono [OF size(2)] by blast
  qed
  have new: "slice_at W (entry_base b ?k) (ENTRY_SIZE core) = entry_encode core (write_entry wr)"
    using ok unfolding committed_def by blast
  consider "?k = 0" | "?k = 1" using wr(1) by linarith
  then show ?thesis
    using new keep [of 0] keep [of 1] by cases (simp_all add: entries_at_def size(1))
qed

section \<open>What is read from the entries\<close>

lemma max_seq_spec: "max_seq xs = Some m \<longleftrightarrow> m \<in> set xs \<and> (\<forall>x \<in> set xs. x \<le> m)"
proof (cases xs)
  case (Cons y ys)
  have "fold max ys y = Max (set (y # ys))" by (rule Max.set_eq_fold [symmetric])
  then have "max_seq xs = Some (Max (set xs))" by (simp add: Cons)
  moreover have "set xs \<noteq> {}" by (simp add: Cons)
  then have "Max (set xs) \<in> set xs" "\<forall>x \<in> set xs. x \<le> Max (set xs)" by (simp_all del: Cons)
  ultimately show ?thesis by (auto intro: order_antisym)
qed simp

lemma max_seq_None: "max_seq xs = None \<longleftrightarrow> xs = []"
  by (cases xs) simp_all

lemma later_key: "key y \<le> key (later key y x)" "key x \<le> key (later key y x)" "later key y x \<in> {x, y}"
  by (auto simp: later_def)

lemma fold_later:
  "fold (later key) xs x \<in> insert x (set xs) \<and> (\<forall>y \<in> insert x (set xs). key y \<le> key (fold (later key) xs x))"
proof (induction xs arbitrary: x)
  case (Cons y ys)
  let ?m = "later key y x"
  let ?r = "fold (later key) ys ?m"
  have IH: "?r \<in> insert ?m (set ys)" "\<And>z. z \<in> insert ?m (set ys) \<Longrightarrow> key z \<le> key ?r"
    using Cons.IH [of ?m] by blast+
  have "key x \<le> key ?r" "key y \<le> key ?r"
    using IH(2) [of ?m] later_key(1,2) [of key] by (blast intro: order_trans)+
  moreover have "?r \<in> insert x (insert y (set ys))" using IH(1) later_key(3) [of key y x] by (metis insert_iff singletonD)
  ultimately show ?case using IH(2) by simp
qed simp

lemma max_by_key_spec:
  "max_by_key key xs = Some e \<Longrightarrow> e \<in> set xs \<and> (\<forall>x \<in> set xs. key x \<le> key e)"
proof (cases xs)
  case (Cons y ys)
  then show "max_by_key key xs = Some e \<Longrightarrow> e \<in> set xs \<and> (\<forall>x \<in> set xs. key x \<le> key e)"
    using fold_later [of key ys y] by auto
qed simp

lemma max_by_key_None: "max_by_key key xs = None \<longleftrightarrow> xs = []"
  by (cases xs) simp_all

lemma in_set_map_filter: "y \<in> set (List.map_filter f xs) \<longleftrightarrow> (\<exists>x \<in> set xs. f x = Some y)"
  by (induction xs) (auto simp: List.map_filter_simps split: option.splits)

lemma decoded_Some:
  "(case d of Decoded_Ok e \<Rightarrow> Some e | Decoded_Other \<Rightarrow> None) = Some e \<longleftrightarrow> d = Decoded_Ok e"
  "(case d of Decoded_Ok e \<Rightarrow> if P e then Some (f e) else None | Decoded_Other \<Rightarrow> None) = Some x \<longleftrightarrow>
     (\<exists>e. d = Decoded_Ok e \<and> P e \<and> f e = x)"
  by (cases d; simp)+

lemma set_decoded_entries: "e \<in> set (decoded_entries core raws) \<longleftrightarrow> (\<exists>raw \<in> set raws. entry_decode core raw = Decoded_Ok e)"
  by (simp only: decoded_entries_def in_set_map_filter decoded_Some)

lemma set_usable_seqs:
  "sq \<in> set (usable_seqs core raws) \<longleftrightarrow> (\<exists>e \<in> set (decoded_entries core raws). entry_seq core e = sq \<and>
     (entry_state core e = state_VALID core \<or> entry_state core e = state_PENDING_VERIFY core))"
  unfolding usable_seqs_def in_set_map_filter decoded_Some Bex_def set_decoded_entries by blast

text \<open>The entry of the newest usable image decides: the target is the other slot.\<close>

definition target_of :: "'e boot_core \<Rightarrow> u8 list list \<Rightarrow> app_slot option" where
  "target_of core raws =
     (let used = {sq. \<exists>e \<in> set (decoded_entries core raws). entry_seq core e = sq \<and>
            (entry_state core e = state_VALID core \<or> entry_state core e = state_PENDING_VERIFY core)} in
      if used = {} then None
      else if slot_of core (Max used) OTA_SLOT_COUNT = 0 then Some Ota1
      else if slot_of core (Max used) OTA_SLOT_COUNT = 1 then Some Ota0
      else None)"

lemma target_of_max:
  "target_of core raws = (case max_seq (usable_seqs core raws) of None \<Rightarrow> None
     | Some sq \<Rightarrow> if slot_of core sq OTA_SLOT_COUNT = 0 then Some Ota1
                  else if slot_of core sq OTA_SLOT_COUNT = 1 then Some Ota0 else None)"
proof -
  have used: "{sq. \<exists>e \<in> set (decoded_entries core raws). entry_seq core e = sq \<and>
      (entry_state core e = state_VALID core \<or> entry_state core e = state_PENDING_VERIFY core)} = set (usable_seqs core raws)"
    by (simp only: set_usable_seqs [symmetric] Collect_mem_eq)
  show ?thesis
  proof (cases "max_seq (usable_seqs core raws)")
    case None
    then show ?thesis unfolding target_of_def used by (simp add: max_seq_None)
  next
    case (Some m)
    then have "Max (set (usable_seqs core raws)) = m" "set (usable_seqs core raws) \<noteq> {}"
      by (auto simp: max_seq_spec intro: Max_eqI)
    with Some show ?thesis unfolding target_of_def used by (simp add: Let_def)
  qed
qed

lemma find_app_partition_triple:
  assumes "idf_laws I view parse"
  shows "triple (\<lambda>f. view f = V) (find_app_partition I slot)
    (\<lambda>p f. view f = V \<and> (\<exists>e. find_partition I (parse V) (PT_App (subtype slot)) = Inr (Some e) \<and>
        p = \<lparr>ap_slot = slot, ap_offset = pe_offset e, ap_size = unat (pe_len e)\<rparr>))
    (\<lambda>e f. view f = V)"
  unfolding find_app_partition_def
  by (rule triple_andthen [where R = "\<lambda>r f. view f = V \<and>
        (\<exists>e. find_partition I (parse V) (PT_App (subtype slot)) = Inr (Some e) \<and>
             r = \<lparr>pr_offset = pe_offset e, pr_size = unat (pe_len e)\<rparr>)"],
      rule triple_map_err, rule triple_conseq [OF find_triple [OF assms]])
     (auto intro!: triple_return)

lemma write_target_triple:
  assumes I: "idf_laws I view parse" and F: "nor_laws F view"
  shows "triple (\<lambda>f. view f = V) (write_target core I F)
    (\<lambda>p f. view f = V \<and> (\<exists>b e. otadata_base I (parse V) = Some b \<and>
        target_of core (entries_at core V b) = Some (ap_slot p) \<and>
        find_partition I (parse V) (PT_App (subtype (ap_slot p))) = Inr (Some e) \<and>
        ap_offset p = pe_offset e \<and> ap_size p = unat (pe_len e)))
    (\<lambda>e f. e = Unavailable \<and> view f = V)"
proof -
  let ?E = "\<lambda>e f. e = Unavailable \<and> view f = V"
  have entries: "triple (\<lambda>f. view f = V) (read_entries core I F)
      (\<lambda>es f. (\<exists>b. otadata_base I (parse V) = Some b \<and> es = entries_at core V b) \<and> view f = V) ?E"
    by (rule triple_conseq [OF read_entries_triple [OF I F]]) auto
  have newest: "triple (\<lambda>f. view f = V) (ok_or Unavailable (max_seq (usable_seqs core es)))
      (\<lambda>sq f. max_seq (usable_seqs core es) = Some sq \<and> view f = V) ?E" for es
    by (rule triple_ok_or) auto
  have slot: "triple (\<lambda>f. view f = V) (if slot_of core sq OTA_SLOT_COUNT = 0 then return Ota1
        else if slot_of core sq OTA_SLOT_COUNT = 1 then return Ota0 else throw Unavailable)
      (\<lambda>target f. target_of core es = Some target \<and> view f = V) ?E"
    if "max_seq (usable_seqs core es) = Some sq" for sq es
    using that by (auto simp: target_of_max intro!: triple_return triple_throw)
  have part: "triple (\<lambda>f. view f = V) (map_err (\<lambda>_. Unavailable) (find_app_partition I target))
      (\<lambda>p f. view f = V \<and> ap_slot p = target \<and> (\<exists>e. find_partition I (parse V) (PT_App (subtype target)) = Inr (Some e) \<and>
        ap_offset p = pe_offset e \<and> ap_size p = unat (pe_len e))) ?E" for target
    by (rule triple_map_err, rule triple_conseq [OF find_app_partition_triple [OF I]]) auto
  show ?thesis
    unfolding write_target_def
    by (rule triple_andthen [OF entries], rule triple_pure, rule triple_andthen [OF newest], rule triple_pure,
        rule triple_andthen [OF slot], assumption, rule triple_pure, rule triple_conseq [OF part]) auto
qed

end
