(* ===== verification/Shared_Flash.thy ===== *)
theory Shared_Flash
  imports Otadata
begin

text \<open>
  \<open>adapters/ota/src/shared_flash.rs\<close>: the OTA operations on the process-wide flash owner, the hash of
  a preloaded image, and \<open>ArtifactWriter\<close>, which erases ahead and feeds the storage of
  \<open>Ota_Storage\<close> to fibewi's write session.  The mutex is held for the whole of each operation, so an
  operation is a function on the owned flash.  The session (parameter \<open>write_session\<close>) and the hash
  (parameter \<open>sha256\<close>) are libraries.
\<close>

section \<open>Operations that only lock\<close>

definition with_storage :: "('d, 'a, 'e) comp \<Rightarrow> ('d esp_flash, 'a, 'e) comp" where
  "with_storage m = on_field storage (\<lambda>x s. s\<lparr>storage := x\<rparr>) m"

definition write_target_locked :: "'e boot_core \<Rightarrow> ('d, 't) idf \<Rightarrow> ('d, 'x) nor_flash \<Rightarrow> ('d esp_flash, app_partition) ota" where
  "write_target_locked core I F = with_storage (write_target core I F)"

definition shared_confirm :: "'e boot_core \<Rightarrow> ('d, 't) idf \<Rightarrow> ('d, 'x) nor_flash \<Rightarrow> ('d esp_flash, unit) ota" where
  "shared_confirm core I F = with_storage (confirm core I F)"

definition shared_reject :: "'e boot_core \<Rightarrow> ('d, 't) idf \<Rightarrow> ('d, 'x) nor_flash \<Rightarrow> ('d esp_flash, unit) ota" where
  "shared_reject core I F = with_storage (reject core I F)"

definition shared_activate :: "'e boot_core \<Rightarrow> ('d, 't) idf \<Rightarrow> ('d, 'x) nor_flash \<Rightarrow> app_slot \<Rightarrow> ('d esp_flash, unit) ota" where
  "shared_activate core I F target = with_storage (activate core I F target)"

definition active_slot :: "('d, 't) idf \<Rightarrow> ('d esp_flash, string) ota" where
  "active_slot I =
     andthen (attempt (with_storage (booted_slot I))) (\<lambda>r.
     return (case r of Inl _ \<Rightarrow> '''' | Inr name \<Rightarrow> name))"

definition shared_image_outcome :: "'e boot_core \<Rightarrow> ('d, 't) idf \<Rightarrow> ('d, 'x) nor_flash \<Rightarrow> ('d esp_flash, backend_outcome) ota" where
  "shared_image_outcome core I F =
     andthen (attempt (with_storage (read_entries core I F))) (\<lambda>r.
     return (case r of Inl _ \<Rightarrow> Outcome_Other | Inr entries \<Rightarrow> image_outcome core entries))"

definition boot_info :: "'e boot_core \<Rightarrow> ('d, 't) idf \<Rightarrow> ('d, 'x) nor_flash \<Rightarrow> ('d esp_flash, boot_entry_info) ota" where
  "boot_info core I F =
     (let unknown = \<lparr>be_slot = '''', be_seq = 0, be_state = ''unknown''\<rparr> in
     andthen (attempt (with_storage (read_entries core I F))) (\<lambda>r.
     return (case r of Inl _ \<Rightarrow> unknown
       | Inr entries \<Rightarrow> (case boot_entry core entries of None \<Rightarrow> unknown | Some e \<Rightarrow> e))))"

definition erase_batch_size :: u64 where
  "erase_batch_size = 64 * 1024"

definition erase_size :: "('d, 'x) nor_flash \<Rightarrow> nat" where
  "erase_size F = ERASE_SIZE (esp_flash_nor F)"

section \<open>The preloaded image\<close>

datatype preloaded_error = NoTarget | TooLarge | PL_Flash

record 'h sha256 =
  sha_new :: 'h
  sha_update :: "'h \<Rightarrow> u8 list \<Rightarrow> 'h"
  sha_finalize :: "'h \<Rightarrow> u8 list"

lemma chunk_advances:
  fixes offset sz :: u32
  assumes "offset < sz" and "n \<le> unat (sz - offset)"
  shows "unat (offset + of_nat n) = unat offset + n" and "unat sz - unat offset = unat (sz - offset)"
proof -
  have le: "unat offset \<le> unat sz" using assms(1) by (simp add: word_less_nat_alt)
  then show diff: "unat sz - unat offset = unat (sz - offset)" by (simp add: unat_sub_if')
  have "unat offset + n < 2 ^ 32" using assms(2) diff le unat_lt_usize_limit [of sz] by (simp add: usize_limit_def)
  moreover from this have "unat (of_nat n :: u32) = n" by (simp add: unat_of_nat)
  ultimately show "unat (offset + of_nat n) = unat offset + n"
    using unat_add_small [of offset "of_nat n"] by simp
qed

text \<open>The loop variable \<open>offset\<close> is a \<open>u32\<close>; a chunk never runs past \<open>sz\<close>, so it does not wrap.\<close>

function hash_loop :: "('f, 'x) nor_flash \<Rightarrow> 'h sha256 \<Rightarrow> u32 \<Rightarrow> u32 \<Rightarrow> u32 \<Rightarrow> 'h \<Rightarrow> ('f, 'h, preloaded_error) comp" where
  "hash_loop F H base sz offset h f =
     (if offset < sz then
        let n = min (unat (sz - offset)) 4096 in
        andthen (map_err (\<lambda>_. PL_Flash) (nf_read_into F (base + offset) (replicate n 0))) (\<lambda>chunk f.
          hash_loop F H base sz (offset + of_nat n) (sha_update H h chunk) f) f
      else (Ok h, f))"
  by pat_completeness auto

termination
proof (relation "measure (\<lambda>(F, H, base, sz, offset, h, f). unat sz - unat offset)")
  fix F :: "('f, 'x) nor_flash" and H :: "'h sha256" and base sz offset :: u32 and h :: 'h and f :: 'f
    and n chunk and g :: 'f
  assume lt: "offset < sz" and n: "n = min (unat (sz - offset)) 4096"
  then have "n \<le> unat (sz - offset)" by simp
  note adv = chunk_advances [OF lt this]
  have "unat offset < unat sz" using lt by (simp add: word_less_nat_alt)
  with adv(2) n have "0 < n" by simp
  with adv \<open>unat offset < unat sz\<close>
  show "((F, H, base, sz, offset + of_nat n, sha_update H h chunk, g), F, H, base, sz, offset, h, f)
      \<in> measure (\<lambda>(F, H, base, sz, offset, h, f). unat sz - unat offset)" by simp
qed simp

declare hash_loop.simps [simp del]

definition hash_preloaded ::
  "'e boot_core \<Rightarrow> ('d, 't) idf \<Rightarrow> ('d, 'x) nor_flash \<Rightarrow> 'h sha256 \<Rightarrow> u32 \<Rightarrow>
   ('d esp_flash, app_slot \<times> u8 list, preloaded_error) comp" where
  "hash_preloaded core I F H sz =
     andthen (map_err (\<lambda>_. NoTarget) (write_target_locked core I F)) (\<lambda>target.
     andthen (reject_if (ap_size target < unat sz) TooLarge) (\<lambda>_.
     andthen (with_storage (hash_loop F H (ap_offset target) sz 0 (sha_new H))) (\<lambda>h.
     return (ap_slot target, sha_finalize H h))))"

section \<open>ArtifactWriter\<close>

record artifact_writer =
  aw_partition :: app_partition
  aw_scratch :: "u8 list"
  erased_through :: u64
  sectors_flushed :: u32
  erase_batches :: u32

definition aw_new :: "('d, 'x) nor_flash \<Rightarrow> app_partition \<Rightarrow> artifact_writer" where
  "aw_new F part = \<lparr>aw_partition = part, aw_scratch = replicate (erase_size F) 0,
     erased_through = 0, sectors_flushed = 0, erase_batches = 0\<rparr>"

text \<open>fibewi's \<open>WriteSession\<close> with backend \<open>'b\<close>: it is handed the operations of \<open>ArtifactStorage\<close>.\<close>

record 'b artifact_ops =
  op_write :: "u64 \<Rightarrow> u8 list \<Rightarrow> ('b, u64, flash_write_error) comp"
  op_finish :: "u64 \<Rightarrow> u8 list \<Rightarrow> ('b, u64, flash_write_error) comp"

record committed_info =
  committed_size :: u64
  committed_digest :: "u8 list"

datatype session_error = Incomplete u64 | Backend flash_write_error | Session_Other

record ('g, 'b) write_session =
  can_append :: "'g \<Rightarrow> nat \<Rightarrow> bool"
  received :: "'g \<Rightarrow> u64"
  durable :: "'g \<Rightarrow> u64"
  ws_append :: "'b artifact_ops \<Rightarrow> u8 list \<Rightarrow> ('g \<times> 'b, unit, session_error) comp"
  ws_finish :: "'b artifact_ops \<Rightarrow> 'g \<Rightarrow> ('b, committed_info, session_error) comp"

text \<open>The writer, the session it is given, and the driver of the locked flash.\<close>

record ('g, 'f) upload =
  up_writer :: artifact_writer
  up_engine :: 'g
  up_flash :: 'f

definition storage_ops :: "('f, 'x) nor_flash \<Rightarrow> 'f artifact_storage artifact_ops" where
  "storage_ops F = \<lparr>op_write = storage_write F, op_finish = storage_finish F\<rparr>"

type_synonym ('g, 'f, 'a) uploading = "(('g, 'f) upload, 'a, session_error) comp"

definition put_backend :: "'f artifact_storage \<Rightarrow> ('g, 'f) upload \<Rightarrow> ('g, 'f) upload" where
  "put_backend b s = s\<lparr>up_flash := as_flash b, up_writer := (up_writer s)\<lparr>aw_scratch := scratch b\<rparr>\<rparr>"

definition engine_append :: "('g, 'f artifact_storage) write_session \<Rightarrow> ('f, 'x) nor_flash \<Rightarrow> u8 list \<Rightarrow> ('g, 'f, bool) uploading" where
  "engine_append E F data s =
     (case new_pre_erased F (up_flash s) (aw_partition (up_writer s)) (aw_scratch (up_writer s)) of
        Inl _ \<Rightarrow> (Ok False, s)
      | Inr b \<Rightarrow> (case ws_append E (storage_ops F) data (up_engine s, b) of
            (Ok _, (g, b')) \<Rightarrow> (Ok True, (put_backend b' s)\<lparr>up_engine := g\<rparr>)
          | (Err _, (g, b')) \<Rightarrow> (Ok False, (put_backend b' s)\<lparr>up_engine := g\<rparr>)
          | (Panic, (g, b')) \<Rightarrow> (Panic, (put_backend b' s)\<lparr>up_engine := g\<rparr>)))"

definition erase_ahead :: "('f, 'x) nor_flash \<Rightarrow> u64 \<Rightarrow> ('g, 'f, bool) uploading" where
  "erase_ahead F desired =
     andthen (gets up_writer) (\<lambda>w.
     andthen (attempt (on_field up_flash (\<lambda>x s. s\<lparr>up_flash := x\<rparr>)
       (erase_partition_range F (aw_partition w) (erased_through w) desired))) (\<lambda>r.
     case r of
       Inl _ \<Rightarrow> return False
     | Inr _ \<Rightarrow>
         andthen (modify (\<lambda>s. s\<lparr>up_writer := w\<lparr>
           erase_batches := erase_batches w + ucast ((desired - erased_through w) div erase_batch_size),
           erased_through := desired\<rparr>\<rparr>)) (\<lambda>_. return True)))"

definition count_flushed :: "('g, 'b) write_session \<Rightarrow> ('f, 'x) nor_flash \<Rightarrow> u64 \<Rightarrow> u64 \<Rightarrow> ('g, 'f, unit) uploading" where
  "count_flushed E F before after =
     andthen (panic_if (ERASE_SIZE F = 0)) (\<lambda>_.
     modify (\<lambda>s. s\<lparr>up_writer := (up_writer s)\<lparr>sectors_flushed := sectors_flushed (up_writer s) +
       ucast (word_div_ceil (after - before) (of_nat (ERASE_SIZE F)))\<rparr>\<rparr>))"

definition desired_erased :: "u64 \<Rightarrow> nat \<Rightarrow> u64" where
  "desired_erased end_received part_size =
     min (u64_saturating_mul (word_div_ceil end_received erase_batch_size) erase_batch_size) (of_nat part_size)"

definition aw_append :: "('g, 'f artifact_storage) write_session \<Rightarrow> ('f, 'x) nor_flash \<Rightarrow> u8 list \<Rightarrow> ('g, 'f, bool) uploading" where
  "aw_append E F data =
     andthen (gets (\<lambda>s. can_append E (up_engine s) (length data))) (\<lambda>can.
     if \<not> can then return False
     else
       andthen (gets (\<lambda>s. desired_erased (received E (up_engine s) + of_nat (length data))
                            (ap_size (aw_partition (up_writer s))))) (\<lambda>desired.
       andthen (gets (\<lambda>s. durable E (up_engine s))) (\<lambda>before.
       andthen (gets (\<lambda>s. erased_through (up_writer s))) (\<lambda>through.
       andthen (if through < desired then
                  andthen (erase_ahead F desired) (\<lambda>erased.
                  if erased then engine_append E F data else return False)
                else engine_append E F data) (\<lambda>ok.
       andthen (gets (\<lambda>s. durable E (up_engine s))) (\<lambda>after.
       andthen (count_flushed E F before after) (\<lambda>_.
       return ok)))))))"

text \<open>\<open>finish\<close> consumes the session.\<close>

definition aw_finish :: "('g, 'f artifact_storage) write_session \<Rightarrow> ('f, 'x) nor_flash \<Rightarrow> ('g, 'f, committed_info) uploading" where
  "aw_finish E F =
     andthen (gets up_engine) (\<lambda>g.
     andthen (gets (\<lambda>s. erased_through (up_writer s))) (\<lambda>through.
     andthen (reject_if (through < received E g) (Incomplete (durable E g))) (\<lambda>_.
     andthen (\<lambda>s. case new_pre_erased F (up_flash s) (aw_partition (up_writer s)) (aw_scratch (up_writer s)) of
         Inl e \<Rightarrow> (Err (Backend e), s)
       | Inr b \<Rightarrow> (case ws_finish E (storage_ops F) g b of (r, b') \<Rightarrow> (r, put_backend b' s))) (\<lambda>committed.
     andthen (count_flushed E F (durable E g) (committed_size committed)) (\<lambda>_.
     return committed)))))"

end
