(* ===== verification/Ota_Upload.thy ===== *)
theory Ota_Upload
  imports Shared_Flash
begin

text \<open>
  What the operations of \<open>Shared_Flash\<close> guarantee: the hash of a preloaded image is the hash of the
  flash contents of the write target, and an upload leaves exactly the accepted bytes in the
  partition.  The contract between the write session and the storage is the locale
  \<open>artifact_store\<close>; \<open>EspArtifactStorage\<close> over pre-erased flash is an interpretation of it.
\<close>

section \<open>The preloaded image\<close>

definition sha_laws :: "'h sha256 \<Rightarrow> bool" where
  "sha_laws H \<longleftrightarrow> (\<forall>h a b. sha_update H (sha_update H h a) b = sha_update H h (a @ b)) \<and> (\<forall>h. sha_update H h [] = h)"

lemma hash_loop_step:
  "hash_loop F H base sz offset h =
     (if offset < sz then
        let n = min (unat (sz - offset)) 4096 in
        andthen (map_err (\<lambda>_. PL_Flash) (nf_read_into F (base + offset) (replicate n 0))) (\<lambda>chunk.
          hash_loop F H base sz (offset + of_nat n) (sha_update H h chunk))
      else return h)"
  by (rule ext, subst hash_loop.simps) (simp add: Let_def return_def)

lemma hash_loop_triple:
  assumes laws: "nor_laws F view" and sha: "sha_laws H"
  shows "offset \<le> sz \<Longrightarrow> triple (\<lambda>f. view f = V) (hash_loop F H base sz offset h)
    (\<lambda>r f. view f = V \<and> r = sha_update H h (slice_at V (base + offset) (unat sz - unat offset)))
    (\<lambda>e f. e = PL_Flash \<and> view f = V)"
proof (induction "unat sz - unat offset" arbitrary: offset h rule: less_induct)
  case less
  show ?case
  proof (cases "offset < sz")
    case True
    define n where "n = min (unat (sz - offset)) 4096"
    note adv = chunk_advances [OF True, of n]
    have lt: "unat offset < unat sz" using True by (simp add: word_less_nat_alt)
    have n: "n \<le> unat (sz - offset)" "0 < n" using adv(2) lt by (simp_all add: n_def)
    have off: "unat (offset + of_nat n) = unat offset + n" and span: "unat sz - unat offset = unat (sz - offset)"
      using adv n(1) by simp_all
    have le: "offset + of_nat n \<le> sz" using off span n lt by (simp add: word_le_nat_alt)
    have split: "slice_at V (base + offset) (unat sz - unat offset) =
        slice_at V (base + offset) n @ slice_at V (base + (offset + of_nat n)) (unat sz - unat (offset + of_nat n))"
      using slice_at_add [of V "base + offset" n "unat sz - unat offset - n"] span n
      by (simp add: add.assoc off diff_diff_left [symmetric])
    show ?thesis
      unfolding hash_loop_step [of F H base sz offset h] using True
    proof (simp only: if_True Let_def n_def [symmetric], intro triple_andthen)
      show "triple (\<lambda>f. view f = V) (map_err (\<lambda>_. PL_Flash) (nf_read_into F (base + offset) (replicate n 0)))
          (\<lambda>chunk f. chunk = slice_at V (base + offset) n \<and> view f = V) (\<lambda>e f. e = PL_Flash \<and> view f = V)"
        by (rule triple_map_err, rule triple_conseq [OF nor_readD [OF laws]]) auto
      show "triple (\<lambda>f. chunk = slice_at V (base + offset) n \<and> view f = V)
          (hash_loop F H base sz (offset + of_nat n) (sha_update H h chunk))
          (\<lambda>r f. view f = V \<and> r = sha_update H h (slice_at V (base + offset) (unat sz - unat offset)))
          (\<lambda>e f. e = PL_Flash \<and> view f = V)" for chunk
      proof (rule triple_pure, rule triple_conseq [OF less.hyps])
        show "unat sz - unat (offset + of_nat n) < unat sz - unat offset" using off n lt by simp
        show "offset + of_nat n \<le> sz" by (rule le)
      qed (use sha split in \<open>auto simp: sha_laws_def\<close>)
    qed
  next
    case False
    with less.prems have "offset = sz" by simp
    with sha show ?thesis
      by (subst hash_loop_step) (auto simp: sha_laws_def intro!: triple_return)
  qed
qed

lemma triple_with_storage:
  assumes "triple (\<lambda>f. view f = V) m (\<lambda>a f. Q a (view f)) (\<lambda>e f. E e (view f))"
  shows "triple (\<lambda>s. view (storage s) = V) (with_storage m) (\<lambda>a s. Q a (view (storage s))) (\<lambda>e s. E e (view (storage s)))"
  unfolding with_storage_def by (rule esp.on_held [OF assms])

definition target_at :: "'e boot_core \<Rightarrow> ('f, 't) idf \<Rightarrow> 't \<Rightarrow> mem \<Rightarrow> app_partition \<Rightarrow> bool" where
  "target_at core I t V p \<longleftrightarrow> (\<exists>b e. otadata_base I t = Some b \<and>
     target_of core (entries_at core V b) = Some (ap_slot p) \<and>
     find_partition I t (PT_App (subtype (ap_slot p))) = Inr (Some e) \<and>
     ap_offset p = pe_offset e \<and> ap_size p = unat (pe_len e))"

lemma hash_preloaded_triple:
  assumes I: "idf_laws I view parse" and F: "nor_laws F view" and H: "sha_laws H"
  shows "triple (\<lambda>s. view (storage s) = V) (hash_preloaded core I F H sz)
    (\<lambda>r s. view (storage s) = V \<and> (\<exists>p. target_at core I (parse V) V p \<and> fst r = ap_slot p \<and> unat sz \<le> ap_size p \<and>
        snd r = sha_finalize H (sha_update H (sha_new H) (slice_at V (ap_offset p) (unat sz)))))
    (\<lambda>e s. view (storage s) = V)"
proof -
  let ?E = "\<lambda>(_ :: preloaded_error) s. view (storage s) = V"
  have target: "triple (\<lambda>s. view (storage s) = V) (map_err (\<lambda>_. NoTarget) (write_target_locked core I F))
      (\<lambda>p s. target_at core I (parse V) V p \<and> view (storage s) = V) ?E"
    unfolding write_target_locked_def target_at_def
    by (rule triple_map_err, rule triple_conseq [OF triple_with_storage
          [where Q = "\<lambda>p W. W = V \<and> (\<exists>b e. otadata_base I (parse V) = Some b \<and>
              target_of core (entries_at core V b) = Some (ap_slot p) \<and>
              find_partition I (parse V) (PT_App (subtype (ap_slot p))) = Inr (Some e) \<and>
              ap_offset p = pe_offset e \<and> ap_size p = unat (pe_len e))" and E = "\<lambda>e W. e = Unavailable \<and> W = V",
           OF write_target_triple [OF I F]]]) auto
  have fits: "triple (\<lambda>s. view (storage s) = V) (reject_if (ap_size p < unat sz) TooLarge)
      (\<lambda>_ s. unat sz \<le> ap_size p \<and> view (storage s) = V) ?E" for p
    by (rule triple_reject_if) auto
  have hash: "triple (\<lambda>s. view (storage s) = V) (with_storage (hash_loop F H a sz 0 (sha_new H)))
      (\<lambda>h s. h = sha_update H (sha_new H) (slice_at V a (unat sz)) \<and> view (storage s) = V) ?E" for a
    using triple_with_storage [where Q = "\<lambda>h W. W = V \<and> h = sha_update H (sha_new H) (slice_at V (a + 0) (unat sz - unat (0 :: u32)))"
        and E = "\<lambda>e W. e = PL_Flash \<and> W = V", OF hash_loop_triple [OF F H, of 0 sz]]
    by (auto elim!: triple_conseq)
  show ?thesis
    unfolding hash_preloaded_def
    by (rule triple_andthen [OF target], rule triple_pure, rule triple_andthen [OF fits], rule triple_pure,
        rule triple_andthen [OF hash], rule triple_pure, rule triple_return) auto
qed

section \<open>The contract between session and storage\<close>

text \<open>
  \<open>ready done b\<close>: the bytes \<open>done\<close> are durable and the storage can take more up to what
  \<open>covered\<close> allows; \<open>holds data b\<close>: the artifact \<open>data\<close> is stored; \<open>safe b\<close>: what is promised after a failure.
\<close>

definition store_contract ::
  "(u8 list \<Rightarrow> 'b \<Rightarrow> bool) \<Rightarrow> (u8 list \<Rightarrow> 'b \<Rightarrow> bool) \<Rightarrow> ('b \<Rightarrow> bool) \<Rightarrow> (nat \<Rightarrow> bool) \<Rightarrow> 'b artifact_ops \<Rightarrow> bool" where
  "store_contract ready holds safe covered ops \<longleftrightarrow>
     (\<forall>done pending. covered (length done + length pending) \<longrightarrow>
        triple (ready done) (op_write ops (of_nat (length done)) pending)
          (\<lambda>r b. \<exists>k \<le> length pending. r = of_nat (length done + k) \<and> ready (done @ take k pending) b) (\<lambda>_. safe)) \<and>
     (\<forall>done pending. covered (length done + length pending) \<longrightarrow>
        triple (ready done) (op_finish ops (of_nat (length done)) pending)
          (\<lambda>r b. r = of_nat (length done + length pending) \<and> holds (done @ pending) b) (\<lambda>_. safe)) \<and>
     (\<forall>done b. ready done b \<longrightarrow> safe b) \<and> (\<forall>data b. holds data b \<longrightarrow> safe b)"

lemma store_contractD:
  assumes "store_contract ready holds safe covered ops" and "covered (length ds + length pending)"
  shows "triple (ready ds) (op_write ops (of_nat (length ds)) pending)
      (\<lambda>r b. \<exists>k \<le> length pending. r = of_nat (length ds + k) \<and> ready (ds @ take k pending) b) (\<lambda>_. safe)"
    and "triple (ready ds) (op_finish ops (of_nat (length ds)) pending)
      (\<lambda>r b. r = of_nat (length ds + length pending) \<and> holds (ds @ pending) b) (\<lambda>_. safe)"
  using assms(1) [unfolded store_contract_def, THEN conjunct1, rule_format, OF assms(2)]
    assms(1) [unfolded store_contract_def, THEN conjunct2, THEN conjunct1, rule_format, OF assms(2)] .

text \<open>
  What the session promises a backend that keeps the contract.  \<open>acc g\<close> are the bytes it has accepted,
  \<open>ok g\<close> its own invariant: \<open>append\<close> accepts the data and keeps its durable watermark on the
  storage's prefix, \<open>finish\<close> stores everything accepted.
\<close>

definition session_laws :: "('g, 'b) write_session \<Rightarrow> ('g \<Rightarrow> u8 list) \<Rightarrow> ('g \<Rightarrow> bool) \<Rightarrow> bool" where
  "session_laws E acc ok \<longleftrightarrow>
     (\<forall>g. ok g \<longrightarrow> received E g = of_nat (length (acc g)) \<and> unat (durable E g) \<le> length (acc g) \<and> length (acc g) < 2 ^ 63) \<and>
     (\<forall>g n. ok g \<longrightarrow> can_append E g n \<longrightarrow> length (acc g) + n < 2 ^ 63) \<and>
     (\<forall>ready holds safe covered ops data A. store_contract ready holds safe covered ops \<longrightarrow>
        (\<forall>n \<le> length A + length data. covered n) \<longrightarrow>
        triple (\<lambda>(g, b). ok g \<and> can_append E g (length data) \<and> acc g = A \<and> ready (take (unat (durable E g)) A) b)
          (ws_append E ops data)
          (\<lambda>_ (g, b). ok g \<and> acc g = A @ data \<and> ready (take (unat (durable E g)) (A @ data)) b)
          (\<lambda>_ (g, b). ok g \<and> safe b)) \<and>
     (\<forall>ready holds safe covered ops g. store_contract ready holds safe covered ops \<longrightarrow> ok g \<longrightarrow>
        (\<forall>n \<le> length (acc g). covered n) \<longrightarrow>
        triple (ready (take (unat (durable E g)) (acc g))) (ws_finish E ops g)
          (\<lambda>c b. committed_size c = of_nat (length (acc g)) \<and> holds (acc g) b) (\<lambda>_. safe))"

lemma session_facts:
  assumes "session_laws E acc ok" and "ok g"
  shows "received E g = of_nat (length (acc g))" "unat (durable E g) \<le> length (acc g)" "length (acc g) < 2 ^ 63"
    "can_append E g n \<Longrightarrow> length (acc g) + n < 2 ^ 63"
  using assms unfolding session_laws_def by blast+

lemma session_append:
  assumes "session_laws E acc ok" and "store_contract ready holds safe covered ops"
    and "\<And>n. n \<le> length A + length data \<Longrightarrow> covered n"
  shows "triple (\<lambda>(g, b). ok g \<and> can_append E g (length data) \<and> acc g = A \<and> ready (take (unat (durable E g)) A) b)
          (ws_append E ops data)
          (\<lambda>_ (g, b). ok g \<and> acc g = A @ data \<and> ready (take (unat (durable E g)) (A @ data)) b)
          (\<lambda>_ (g, b). ok g \<and> safe b)"
  using assms unfolding session_laws_def by blast

lemma session_finish:
  assumes "session_laws E acc ok" and "store_contract ready holds safe covered ops" and "ok g"
    and "\<And>n. n \<le> length (acc g) \<Longrightarrow> covered n"
  shows "triple (ready (take (unat (durable E g)) (acc g))) (ws_finish E ops g)
          (\<lambda>c b. committed_size c = of_nat (length (acc g)) \<and> holds (acc g) b) (\<lambda>_. safe)"
  using assms unfolding session_laws_def by blast

locale artifact_store =
  fixes ops :: "'d \<Rightarrow> 'b artifact_ops"
    and good :: "'d \<Rightarrow> bool"
    and ready :: "'d \<Rightarrow> u8 list \<Rightarrow> 'b \<Rightarrow> bool"
    and holds :: "'d \<Rightarrow> u8 list \<Rightarrow> 'b \<Rightarrow> bool"
    and safe :: "'d \<Rightarrow> 'b \<Rightarrow> bool"
    and covered :: "'d \<Rightarrow> nat \<Rightarrow> bool"
  assumes write_law: "good d \<Longrightarrow> covered d (length done + length pending) \<Longrightarrow>
      triple (ready d done) (op_write (ops d) (of_nat (length done)) pending)
        (\<lambda>r b. \<exists>k \<le> length pending. r = of_nat (length done + k) \<and> ready d (done @ take k pending) b) (\<lambda>_. safe d)"
    and finish_law: "good d \<Longrightarrow> covered d (length done + length pending) \<Longrightarrow>
      triple (ready d done) (op_finish (ops d) (of_nat (length done)) pending)
        (\<lambda>r b. r = of_nat (length done + length pending) \<and> holds d (done @ pending) b) (\<lambda>_. safe d)"
    and ready_safe: "ready d done b \<Longrightarrow> safe d b"
    and holds_safe: "holds d data b \<Longrightarrow> safe d b"
    and covered_mono: "covered d n \<Longrightarrow> m \<le> n \<Longrightarrow> covered d m"
begin

lemma contract: "good d \<Longrightarrow> store_contract (ready d) (holds d) (safe d) (covered d) (ops d)"
  unfolding store_contract_def by (intro conjI allI impI write_law finish_law ready_safe holds_safe) auto

lemma append_law:
  assumes "session_laws E acc ok" and "good d" and "covered d (length A + length data)"
  shows "triple (\<lambda>(g, b). ok g \<and> can_append E g (length data) \<and> acc g = A \<and> ready d (take (unat (durable E g)) A) b)
          (ws_append E (ops d) data)
          (\<lambda>_ (g, b). ok g \<and> acc g = A @ data \<and> ready d (take (unat (durable E g)) (A @ data)) b)
          (\<lambda>_ (g, b). ok g \<and> safe d b)"
  by (rule session_append [OF assms(1) contract [OF assms(2)]]) (rule covered_mono [OF assms(3)])

lemma session_finish_law:
  assumes "session_laws E acc ok" and "good d" and "ok g" and "covered d (length (acc g))"
  shows "triple (ready d (take (unat (durable E g)) (acc g))) (ws_finish E (ops d) g)
          (\<lambda>c b. committed_size c = of_nat (length (acc g)) \<and> holds d (acc g) b) (\<lambda>_. safe d)"
  by (rule session_finish [OF assms(1) contract [OF assms(2)] assms(3)]) (rule covered_mono [OF assms(4)])

end

section \<open>EspArtifactStorage keeps the contract\<close>

text \<open>
  A storage over a partition at \<open>x_base\<close> of \<open>x_size\<close> bytes, erased up to \<open>x_lim\<close>; \<open>x_before\<close> is the flash when
  the upload started.
\<close>

record ('f, 'x) upload_ctx =
  x_nor :: "('f, 'x) nor_flash"
  x_view :: "'f \<Rightarrow> mem"
  x_base :: u32
  x_size :: nat
  x_lim :: nat
  x_before :: mem

definition x_good :: "('f, 'x) upload_ctx \<Rightarrow> bool" where
  "x_good x \<longleftrightarrow> nor_laws (x_nor x) (x_view x) \<and> x_lim x \<le> x_size x \<and> x_size x < usize_limit"

definition x_covered :: "('f, 'x) upload_ctx \<Rightarrow> nat \<Rightarrow> bool" where
  "x_covered x n \<longleftrightarrow> n \<le> x_lim x \<or> x_lim x = x_size x"

definition x_ready_mem :: "('f, 'x) upload_ctx \<Rightarrow> u8 list \<Rightarrow> mem \<Rightarrow> bool" where
  "x_ready_mem x done W \<longleftrightarrow> length done mod ERASE_SIZE (x_nor x) = 0 \<and> length done \<le> x_lim x \<and>
     x_lim x mod ERASE_SIZE (x_nor x) = 0 \<and> slice_at W (x_base x) (length done) = done \<and>
     slice_at W (x_base x + of_nat (length done)) (x_lim x - length done) = replicate (x_lim x - length done) 0xFF \<and>
     same_outside (region (x_base x) (x_size x)) (x_before x) W"

definition x_opened :: "('f, 'x) upload_ctx \<Rightarrow> 'f artifact_storage \<Rightarrow> bool" where
  "x_opened x b \<longleftrightarrow> opened (x_nor x) (x_base x) (x_size x) False b"

definition x_ready :: "('f, 'x) upload_ctx \<Rightarrow> u8 list \<Rightarrow> 'f artifact_storage \<Rightarrow> bool" where
  "x_ready x done b \<longleftrightarrow> x_opened x b \<and> x_ready_mem x done (x_view x (as_flash b))"

definition x_safe :: "('f, 'x) upload_ctx \<Rightarrow> 'f artifact_storage \<Rightarrow> bool" where
  "x_safe x b \<longleftrightarrow> x_opened x b \<and> same_outside (region (x_base x) (x_size x)) (x_before x) (x_view x (as_flash b))"

definition x_holds :: "('f, 'x) upload_ctx \<Rightarrow> u8 list \<Rightarrow> 'f artifact_storage \<Rightarrow> bool" where
  "x_holds x data b \<longleftrightarrow> x_safe x b \<and> slice_at (x_view x (as_flash b)) (x_base x) (length data) = data"

definition x_ops :: "('f, 'x) upload_ctx \<Rightarrow> 'f artifact_storage artifact_ops" where
  "x_ops x = storage_ops (x_nor x)"

lemma x_small: "x_good x \<Longrightarrow> n \<le> x_size x \<Longrightarrow> unat (of_nat n :: u64) = n \<and> n < 2 ^ 32"
  by (simp add: x_good_def usize_limit_def unat_of_nat)

text \<open>Storing at the end of the durable bytes extends them.\<close>

lemma slice_at_extend:
  assumes "slice_at W base (length xs) = xs" and "length xs + length ys \<le> 2 ^ 32"
  shows "slice_at (stored W (base + of_nat (length xs)) ys) base (length xs + length ys) = xs @ ys"
proof -
  let ?W = "stored W (base + of_nat (length xs)) ys"
  have "slice_at ?W base (length xs) = xs"
  proof -
    have "slice_at ?W base (length xs) = slice_at W base (length xs)"
      by (rule same_outside_slice [OF same_outside_stored [OF order_refl]])
         (use region_apart [OF assms(2), of base] in blast)
    then show ?thesis by (simp add: assms(1))
  qed
  moreover have "slice_at ?W (base + of_nat (length xs)) (length ys) = ys"
    by (rule slice_at_stored) (use assms(2) in simp)
  ultimately show ?thesis by (simp add: slice_at_add)
qed

lemma x_stored:
  assumes good: "x_good x" and W: "x_ready_mem x done W" and k: "k \<le> length pending"
    and lim: "length done + k \<le> x_lim x" and es: "k mod ERASE_SIZE (x_nor x) = 0"
  shows "x_ready_mem x (done @ take k pending) (stored W (x_base x + of_nat (length done)) (take k pending))"
proof -
  let ?n = "length done" and ?a = "x_base x" and ?ys = "take k pending"
  have sum: "?n + k \<le> x_size x" "x_lim x \<le> x_size x" using lim good by (simp_all add: x_good_def)
  have big: "x_size x < 2 ^ 32" using good by (simp add: x_good_def usize_limit_def)
  have len: "length ?ys = k" using k by simp
  have rest: "slice_at (stored W (?a + of_nat ?n) ?ys) (?a + of_nat (?n + k)) (x_lim x - (?n + k)) =
      replicate (x_lim x - (?n + k)) 0xFF"
  proof -
    have "slice_at (stored W (?a + of_nat ?n) ?ys) (?a + of_nat ?n + of_nat (length ?ys)) (x_lim x - (?n + k)) =
        slice_at W (?a + of_nat ?n + of_nat (length ?ys)) (x_lim x - (?n + k))"
      by (rule slice_at_stored_after) (use len lim sum big in linarith)
    also have "\<dots> = replicate (x_lim x - (?n + k)) 0xFF"
      using W slice_at_blank_part [of W "?a + of_nat ?n" "x_lim x - ?n" _ k "x_lim x - (?n + k)"] lim len
      by (simp add: x_ready_mem_def)
    finally show ?thesis unfolding len by (simp add: add.assoc)
  qed
  have "same_outside (region ?a (x_size x)) W (stored W (?a + of_nat ?n) ?ys)"
    using unat_of_nat_le [of ?n] len sum(1) by (intro same_outside_stored region_subset) linarith
  moreover have "slice_at (stored W (?a + of_nat ?n) ?ys) ?a (?n + length ?ys) = done @ ?ys"
    by (rule slice_at_extend) (use W len sum big in \<open>auto simp: x_ready_mem_def\<close>)
  ultimately show ?thesis
    using W rest lim es len by (auto simp: x_ready_mem_def mod_eq_0_iff_dvd intro: same_outside_trans)
qed

lemma x_write_law:
  assumes good: "x_good x" and cov: "x_covered x (length done + length pending)"
  shows "triple (x_ready x done) (storage_write (x_nor x) (of_nat (length done)) pending)
    (\<lambda>r b. \<exists>k \<le> length pending. r = of_nat (length done + k) \<and> x_ready x (done @ take k pending) b) (\<lambda>_. x_safe x)"
proof (rule tripleI)
  fix b assume ready: "x_ready x done b"
  define W where "W = x_view x (as_flash b)"
  let ?n = "length done" and ?a = "x_base x" and ?es = "ERASE_SIZE (x_nor x)"
  let ?m = "length pending div ?es * ?es"
  have laws: "nor_laws (x_nor x) (x_view x)" using good by (simp add: x_good_def)
  have W: "x_ready_mem x done W" using ready by (simp add: x_ready_def W_def)
  have n: "?n \<le> x_lim x" "x_lim x \<le> x_size x" using W good by (simp_all add: x_ready_mem_def x_good_def)
  have off: "unat (of_nat ?n :: u64) = ?n" using x_small [OF good, of ?n] n by simp
  have m: "?m \<le> length pending" "?m mod ?es = 0" by (simp_all add: div_times_less_eq_dividend)
  have "min ?m (x_size x - ?n) \<le> x_lim x - ?n"
    using cov unfolding x_covered_def by (elim disjE) (use m(1) n in linarith)+
  then have prep: "prepared False W (?a + of_nat (unat (of_nat ?n :: u64))) (min ?m (x_size x - unat (of_nat ?n :: u64)))"
    using W slice_at_blank_part [of W "?a + of_nat ?n" "x_lim x - ?n" _ 0]
    by (simp only: off) (simp add: prepared_def x_ready_mem_def)
  have "x_view x (as_flash b) = W \<and> opened (x_nor x) ?a (x_size x) False b"
    using ready by (simp add: W_def x_ready_def x_opened_def)
  note run = tripleD [OF storage_write_triple [OF laws prep] this]
  show "case storage_write (x_nor x) (of_nat ?n) pending b of
      (Ok r, b) \<Rightarrow> \<exists>k \<le> length pending. r = of_nat (?n + k) \<and> x_ready x (done @ take k pending) b
    | (Err e, b) \<Rightarrow> x_safe x b | (Panic, b) \<Rightarrow> False"
  proof (cases "storage_write (x_nor x) (of_nat ?n) pending b")
    case (Pair r b')
    have outside: "same_outside (region ?a (x_size x)) (x_before x) W" using W by (simp add: x_ready_mem_def)
    show ?thesis
    proof (cases r)
      case (Ok v)
      with run Pair have ok: "v = of_nat ?n + of_nat ?m" "opened (x_nor x) ?a (x_size x) False b'"
        "stored_to (x_nor x) ?a (x_size x) (of_nat ?n) pending W ?m (x_view x (as_flash b'))" by auto
      have "?n + ?m \<le> x_size x" using ok(3) n off by (cases "?m = 0") (linarith, simp add: stored_to_def)
      then have "?n + ?m \<le> x_lim x"
        using cov unfolding x_covered_def by (elim disjE) (use m(1) in linarith)+
      from x_stored [OF good W m(1) this m(2)] ok(2,3)
      have "x_ready x (done @ take ?m pending) b'" by (simp add: x_ready_def x_opened_def stored_to_def off)
      with Pair Ok ok(1) m(1) show ?thesis by (auto intro!: exI [of _ ?m])
    next
      case (Err e)
      with run Pair have "write_failed (x_nor x) ?a (x_size x) (of_nat ?n) pending W e (x_view x (as_flash b'))"
        "opened (x_nor x) ?a (x_size x) False b'" by auto
      then have "x_safe x b'"
        using same_outside_trans [OF outside write_failed_outside] by (simp add: x_safe_def x_opened_def)
      with Pair Err show ?thesis by simp
    next
      case Panic
      with run Pair show ?thesis by simp
    qed
  qed
qed

lemma x_finish_law:
  assumes good: "x_good x" and cov: "x_covered x (length done + length pending)"
  shows "triple (x_ready x done) (storage_finish (x_nor x) (of_nat (length done)) pending)
    (\<lambda>r b. r = of_nat (length done + length pending) \<and> x_holds x (done @ pending) b) (\<lambda>_. x_safe x)"
proof (rule tripleI)
  fix b assume ready: "x_ready x done b"
  define W where "W = x_view x (as_flash b)"
  let ?n = "length done" and ?a = "x_base x" and ?es = "ERASE_SIZE (x_nor x)"
  have laws: "nor_laws (x_nor x) (x_view x)" using good by (simp add: x_good_def)
  have W: "x_ready_mem x done W" using ready by (simp add: x_ready_def W_def)
  have n: "?n \<le> x_lim x" "x_lim x \<le> x_size x" using W good by (simp_all add: x_ready_mem_def x_good_def)
  have off: "unat (of_nat ?n :: u64) = ?n" using x_small [OF good, of ?n] n by simp
  have room: "pending = [] \<or> x_size x < ?n + ?es \<or> ?n + ?es \<le> x_lim x"
  proof (cases "pending = [] \<or> x_size x < ?n + ?es")
    case False
    show ?thesis
    proof (cases "x_lim x = x_size x")
      case False
      with cov \<open>\<not> (pending = [] \<or> x_size x < ?n + ?es)\<close> have "?n < x_lim x"
        by (cases pending) (auto simp: x_covered_def)
      moreover have "?es dvd ?n" "?es dvd x_lim x" using W by (simp_all add: x_ready_mem_def mod_eq_0_iff_dvd)
      then have "?es dvd x_lim x - ?n" by simp
      ultimately have "?es \<le> x_lim x - ?n" by (simp add: dvd_imp_le)
      then have "?n + ?es \<le> x_lim x" using n(1) by linarith
      then show ?thesis by blast
    qed (use False in simp)
  qed blast
  have prep: "pending = [] \<or> x_size x < unat (of_nat ?n :: u64) + ?es \<or>
      prepared False W (?a + of_nat (unat (of_nat ?n :: u64))) ?es"
    using room W slice_at_blank_part [of W "?a + of_nat ?n" "x_lim x - ?n" _ 0 ?es] n
    unfolding off by (auto simp: prepared_def x_ready_mem_def)
  have "x_view x (as_flash b) = W \<and> opened (x_nor x) ?a (x_size x) False b"
    using ready by (simp add: W_def x_ready_def x_opened_def)
  note run = tripleD [OF storage_finish_triple [OF laws prep] this]
  have outside: "same_outside (region ?a (x_size x)) (x_before x) W" using W by (simp add: x_ready_mem_def)
  have done_kept: "finished (x_nor x) ?a (x_size x) (of_nat ?n) pending W U \<Longrightarrow>
      slice_at U ?a (?n + length pending) = done @ pending \<and> same_outside (region ?a (x_size x)) (x_before x) U" for U
  proof -
    assume fin: "finished (x_nor x) ?a (x_size x) (of_nat ?n) pending W U"
    show ?thesis
    proof (cases "pending = []")
      case True
      with fin W outside show ?thesis by (simp add: finished_def x_ready_mem_def)
    next
      case False
      with fin have es: "?n + ?es \<le> x_size x" "?n + ?es \<le> 2 ^ 32"
        and out: "same_outside (region (?a + of_nat ?n) ?es) W U"
        using good by (auto simp: finished_def off x_good_def usize_limit_def)
      have "slice_at U ?a ?n = slice_at W ?a ?n"
        by (rule same_outside_slice [OF out]) (use region_apart [OF es(2), of ?a] in blast)
      moreover have "region (?a + of_nat ?n) ?es \<subseteq> region ?a (x_size x)"
        using unat_of_nat_le [of ?n] es(1) by (intro region_subset) linarith
      ultimately show ?thesis
        using fin W outside out same_outside_step by (fastforce simp: finished_def off x_ready_mem_def slice_at_add)
    qed
  qed
  show "case storage_finish (x_nor x) (of_nat ?n) pending b of
      (Ok r, b) \<Rightarrow> r = of_nat (?n + length pending) \<and> x_holds x (done @ pending) b
    | (Err e, b) \<Rightarrow> x_safe x b | (Panic, b) \<Rightarrow> False"
    using run done_kept same_outside_trans [OF outside]
    by (auto simp: x_holds_def x_safe_def x_opened_def split: prod.splits res.splits)
qed

interpretation esp_store: artifact_store x_ops x_good x_ready x_holds x_safe x_covered
proof
  fix x :: "('f, 'x) upload_ctx" and ds pending :: "u8 list"
  assume good: "x_good x" and cov: "x_covered x (length ds + length pending)"
  show "triple (x_ready x ds) (op_write (x_ops x) (of_nat (length ds)) pending)
      (\<lambda>r b. \<exists>k \<le> length pending. r = of_nat (length ds + k) \<and> x_ready x (ds @ take k pending) b) (\<lambda>_. x_safe x)"
    using x_write_law [OF good cov] by (simp add: x_ops_def storage_ops_def)
  show "triple (x_ready x ds) (op_finish (x_ops x) (of_nat (length ds)) pending)
      (\<lambda>r b. r = of_nat (length ds + length pending) \<and> x_holds x (ds @ pending) b) (\<lambda>_. x_safe x)"
    using x_finish_law [OF good cov] by (simp add: x_ops_def storage_ops_def)
next
  fix x :: "('f, 'x) upload_ctx" and ds data :: "u8 list" and b and m n :: nat
  show "x_ready x ds b \<Longrightarrow> x_safe x b" by (simp add: x_ready_def x_safe_def x_ready_mem_def)
  show "x_holds x data b \<Longrightarrow> x_safe x b" by (simp add: x_holds_def)
  show "x_covered x n \<Longrightarrow> m \<le> n \<Longrightarrow> x_covered x m" by (auto simp: x_covered_def)
qed

end
