(* ===== verification/Ota_Writer.thy ===== *)
theory Ota_Writer
  imports Ota_Upload
begin

text \<open>
  The invariant of \<open>ArtifactWriter\<close> and what its operations guarantee: the durable bytes are the
  prefix of what the session accepted, everything from there to \<open>erased_through\<close> is erased, and flash
  outside the partition is untouched, whatever fails.
\<close>

section \<open>The invariant\<close>

definition upload_of :: "('f, 'x) nor_flash \<Rightarrow> ('f \<Rightarrow> mem) \<Rightarrow> app_partition \<Rightarrow> mem \<Rightarrow> nat \<Rightarrow> ('f, 'x) upload_ctx" where
  "upload_of F view part V0 lim = \<lparr>x_nor = F, x_view = view, x_base = ap_offset part, x_size = ap_size part,
     x_lim = lim, x_before = V0\<rparr>"

definition writer_ok :: "('f, 'x) nor_flash \<Rightarrow> app_partition \<Rightarrow> artifact_writer \<Rightarrow> bool" where
  "writer_ok F part w \<longleftrightarrow> aw_partition w = part \<and> ERASE_SIZE F \<le> length (aw_scratch w)"

definition up_safe :: "('f, 'x) nor_flash \<Rightarrow> ('f \<Rightarrow> mem) \<Rightarrow> app_partition \<Rightarrow> mem \<Rightarrow> ('g, 'f) upload \<Rightarrow> bool" where
  "up_safe F view part V0 s \<longleftrightarrow> writer_ok F part (up_writer s) \<and>
     same_outside (region (ap_offset part) (ap_size part)) V0 (view (up_flash s))"

definition up_inv ::
  "('g, 'f artifact_storage) write_session \<Rightarrow> ('g \<Rightarrow> u8 list) \<Rightarrow> ('g \<Rightarrow> bool) \<Rightarrow>
   ('f, 'x) nor_flash \<Rightarrow> ('f \<Rightarrow> mem) \<Rightarrow> app_partition \<Rightarrow> mem \<Rightarrow> u8 list \<Rightarrow> ('g, 'f) upload \<Rightarrow> bool" where
  "up_inv E acc ok F view part V0 A s \<longleftrightarrow> writer_ok F part (up_writer s) \<and> ok (up_engine s) \<and> acc (up_engine s) = A \<and>
     unat (erased_through (up_writer s)) \<le> ap_size part \<and>
     x_ready_mem (upload_of F view part V0 (unat (erased_through (up_writer s))))
       (take (unat (durable E (up_engine s))) A) (view (up_flash s))"

lemma upload_of_sel [simp]:
  "x_nor (upload_of F view part V0 lim) = F" "x_view (upload_of F view part V0 lim) = view"
  "x_base (upload_of F view part V0 lim) = ap_offset part" "x_size (upload_of F view part V0 lim) = ap_size part"
  "x_lim (upload_of F view part V0 lim) = lim" "x_before (upload_of F view part V0 lim) = V0"
  by (simp_all add: upload_of_def)

lemma up_inv_safe: "up_inv E acc ok F view part V0 A s \<Longrightarrow> up_safe F view part V0 s"
  by (simp add: up_inv_def up_safe_def x_ready_mem_def)

section \<open>Erasing ahead\<close>

lemma erase_partition_range_triple:
  assumes laws: "nor_laws F view"
  defines "res \<equiv> \<lambda>part lf lt. erase_refused (ERASE_SIZE F) \<lparr>pr_offset = ap_offset part, pr_size = ap_size part\<rparr> lf lt"
  shows "triple (\<lambda>f. view f = V) (erase_partition_range F part lf lt)
    (\<lambda>_ f. res part lf lt = None \<and> view f = erased V (ap_offset part + of_nat (unat lf)) (unat lt - unat lf))
    (\<lambda>e f. same_outside (region (ap_offset part + of_nat (unat lf)) (unat lt - unat lf)) V (view f) \<and>
       (e \<noteq> FW_Flash \<longrightarrow> view f = V))"
  unfolding erase_partition_range_def res_def
  by (rule triple_map_err, rule triple_conseq [OF erase_range_triple [OF laws, of V "\<lparr>pr_offset = ap_offset part, pr_size = ap_size part\<rparr>"]])
     (auto split: option.splits partition_error.splits)

text \<open>What lies below the erased range is untouched; an erase extends the erased range.\<close>

lemma ready_below:
  assumes W: "x_ready_mem (upload_of F view part V0 lim) ds W" and part: "ap_size part < usize_limit"
    and le: "lim \<le> hi" "hi \<le> ap_size part"
    and out: "same_outside (region (ap_offset part + of_nat lim) (hi - lim)) W U"
  shows "x_ready_mem (upload_of F view part V0 lim) ds U"
    and "slice_at U (ap_offset part + of_nat (length ds)) (lim - length ds) = replicate (lim - length ds) 0xFF"
proof -
  let ?a = "ap_offset part"
  have n: "length ds \<le> lim" using W by (simp add: x_ready_mem_def)
  have apart: "region (?a + of_nat lim) (hi - lim) \<inter> region ?a lim = {}"
    using region_apart [of lim "hi - lim" ?a] le part by (auto simp: usize_limit_def)
  have low: "slice_at U ?a lim = slice_at W ?a lim" by (rule same_outside_slice [OF out apart])
  have "take (length ds) (slice_at U ?a lim) = take (length ds) (slice_at W ?a lim)" by (simp add: low)
  then have done_kept: "slice_at U ?a (length ds) = ds" using n W by (simp add: take_slice_at x_ready_mem_def)
  have "drop (length ds) (slice_at U ?a lim) = drop (length ds) (slice_at W ?a lim)" by (simp add: low)
  then show rest: "slice_at U (?a + of_nat (length ds)) (lim - length ds) = replicate (lim - length ds) 0xFF"
    using n W by (simp add: drop_slice_at x_ready_mem_def)
  have "region (?a + of_nat lim) (hi - lim) \<subseteq> region ?a (ap_size part)"
    using unat_of_nat_le [of lim] le by (intro region_subset) linarith
  with out have "same_outside (region ?a (ap_size part)) V0 U"
    using W same_outside_step by (fastforce simp: x_ready_mem_def)
  with done_kept rest W show "x_ready_mem (upload_of F view part V0 lim) ds U" by (simp add: x_ready_mem_def)
qed

lemma ready_erased:
  assumes W: "x_ready_mem (upload_of F view part V0 lim) ds W" and part: "ap_size part < usize_limit"
    and le: "lim \<le> hi" "hi \<le> ap_size part" and al: "hi mod ERASE_SIZE F = 0"
  shows "x_ready_mem (upload_of F view part V0 hi) ds (erased W (ap_offset part + of_nat lim) (hi - lim))"
proof -
  let ?a = "ap_offset part" and ?n = "length ds"
  let ?U = "erased W (?a + of_nat lim) (hi - lim)"
  have out: "same_outside (region (?a + of_nat lim) (hi - lim)) W ?U" by (rule same_outside_erased) simp
  note below = ready_below [OF W part le out]
  have n: "?n \<le> lim" using W by (simp add: x_ready_mem_def)
  then have at: "?a + of_nat ?n + of_nat (lim - ?n) = ?a + of_nat lim"
    by (simp add: of_nat_diff)
  have "hi - ?n = (lim - ?n) + (hi - lim)" using n le(1) by simp
  then have "slice_at ?U (?a + of_nat ?n) (hi - ?n) =
      slice_at ?U (?a + of_nat ?n) (lim - ?n) @ slice_at ?U (?a + of_nat ?n + of_nat (lim - ?n)) (hi - lim)"
    by (simp only: slice_at_add)
  also have "\<dots> = replicate (lim - ?n) 0xFF @ replicate (hi - lim) 0xFF"
    unfolding at using below(2) slice_at_erased [of "hi - lim" "hi - lim" W "?a + of_nat lim"] by simp
  also have "\<dots> = replicate (hi - ?n) 0xFF" using n le(1) by (simp add: replicate_add [symmetric])
  finally show ?thesis using below(1) n le al by (simp add: x_ready_mem_def)
qed

text \<open>The unsuccessful erase leaves the invariant in place, too.\<close>

lemma erase_ahead_triple:
  fixes F :: "('f, 'x) nor_flash" and E :: "('g, 'f artifact_storage) write_session"
  assumes F: "nor_laws F view" and part: "ap_size part < usize_limit" and desired: "unat desired \<le> ap_size part"
  shows "triple (\<lambda>s. up_inv E acc ok F view part V0 A s \<and> P (up_engine s) \<and> erased_through (up_writer s) < desired)
    (erase_ahead F desired)
    (\<lambda>r s. up_inv E acc ok F view part V0 A s \<and> P (up_engine s) \<and> (r \<longrightarrow> erased_through (up_writer s) = desired))
    (\<lambda>_ _. False)"
proof (rule tripleI)
  fix s :: "('g, 'f) upload"
  assume s: "up_inv E acc ok F view part V0 A s \<and> P (up_engine s) \<and> erased_through (up_writer s) < desired"
  let ?w = "up_writer s" and ?V = "view (up_flash s)" and ?through = "erased_through (up_writer s)"
  let ?ds = "take (unat (durable E (up_engine s))) A"
  have inv: "writer_ok F part ?w" "x_ready_mem (upload_of F view part V0 (unat ?through)) ?ds ?V" "aw_partition ?w = part"
    using s by (simp_all add: up_inv_def writer_ok_def)
  have le: "unat ?through \<le> unat desired" using s by (simp add: word_less_nat_alt)
  obtain r f' where run: "erase_partition_range F part ?through desired (up_flash s) = (r, f')"
    by (cases "erase_partition_range F part ?through desired (up_flash s)")
  note post = tripleD [OF erase_partition_range_triple [OF F, of ?V part ?through desired] refl, unfolded run]
  show "case erase_ahead F desired s of
      (Ok r, s) \<Rightarrow> up_inv E acc ok F view part V0 A s \<and> P (up_engine s) \<and> (r \<longrightarrow> erased_through (up_writer s) = desired)
    | (Err e, s) \<Rightarrow> False | (Panic, s) \<Rightarrow> False"
  proof (cases r)
    case (Ok u)
    with post have V': "view f' = erased ?V (ap_offset part + of_nat (unat ?through)) (unat desired - unat ?through)"
      and acc: "erase_refused (ERASE_SIZE F) \<lparr>pr_offset = ap_offset part, pr_size = ap_size part\<rparr> ?through desired = None"
      by simp_all
    from acc have "unat desired mod ERASE_SIZE F = 0" by (simp add: erase_refused_def split: if_splits)
    from ready_erased [OF inv(2) part le desired this] V' s run Ok inv desired
    show ?thesis
      by (simp add: erase_ahead_def combinator_defs up_inv_def writer_ok_def)
  next
    case (Err e)
    with post have "same_outside (region (ap_offset part + of_nat (unat ?through)) (unat desired - unat ?through)) ?V (view f')"
      by simp
    from ready_below(1) [OF inv(2) part le desired this] s run Err inv
    show ?thesis by (simp add: erase_ahead_def combinator_defs up_inv_def writer_ok_def)
  next
    case Panic
    with post show ?thesis by simp
  qed
qed

section \<open>Handing data to the session\<close>

text \<open>After an operation that reports success the invariant holds for all data so far, else safety.\<close>

definition up_after where
  "up_after E acc ok F view part V0 A r s =
     (if r then up_inv E acc ok F view part V0 A s else up_safe F view part V0 s)"

lemma up_after_simps [simp]:
  "up_after E acc ok F view part V0 A True = up_inv E acc ok F view part V0 A"
  "up_after E acc ok F view part V0 A False = up_safe F view part V0"
  by (simp_all add: up_after_def fun_eq_iff)

lemma new_pre_erased_ok:
  assumes "writer_ok F part w"
  shows "new_pre_erased F flash (aw_partition w) (aw_scratch w) =
    Inr \<lparr>as_flash = flash, partition_offset = ap_offset part, partition_size = ap_size part,
         scratch = aw_scratch w, erase_before_write = False\<rparr>"
  using assms by (simp add: new_pre_erased_def new_with_erase_mode_def writer_ok_def)

lemma engine_append_triple:
  fixes F :: "('f, 'x) nor_flash" and E :: "('g, 'f artifact_storage) write_session"
  assumes F: "nor_laws F view" and E: "session_laws E acc ok" and part: "ap_size part < usize_limit"
  shows "triple (\<lambda>s. up_inv E acc ok F view part V0 A s \<and> can_append E (up_engine s) (length data) \<and>
       (length A + length data \<le> unat (erased_through (up_writer s)) \<or> unat (erased_through (up_writer s)) = ap_size part))
    (engine_append E F data)
    (\<lambda>r s. up_after E acc ok F view part V0 (A @ data) r s) (\<lambda>_ _. False)"
proof (rule tripleI)
  fix s :: "('g, 'f) upload"
  assume s: "up_inv E acc ok F view part V0 A s \<and> can_append E (up_engine s) (length data) \<and>
       (length A + length data \<le> unat (erased_through (up_writer s)) \<or> unat (erased_through (up_writer s)) = ap_size part)"
  let ?w = "up_writer s"
  let ?x = "upload_of F view part V0 (unat (erased_through ?w))"
  let ?b = "\<lparr>as_flash = up_flash s, partition_offset = ap_offset part, partition_size = ap_size part,
     scratch = aw_scratch ?w, erase_before_write = False\<rparr>"
  have good: "x_good ?x" using F part s by (simp add: x_good_def up_inv_def)
  have cov: "x_covered ?x (length A + length data)" using s by (simp add: x_covered_def)
  have w: "writer_ok F part ?w" using s by (simp add: up_inv_def)
  have ready: "x_ready ?x (take (unat (durable E (up_engine s))) A) ?b"
    using s by (simp add: x_ready_def x_opened_def opened_def up_inv_def writer_ok_def)
  obtain r g b where run: "ws_append E (storage_ops F) data (up_engine s, ?b) = (r, (g, b))"
    by (metis prod.collapse)
  have pre: "case (up_engine s, ?b) of (g, b) \<Rightarrow> ok g \<and> can_append E g (length data) \<and> acc g = A \<and>
      x_ready ?x (take (unat (durable E g)) A) b"
    using s ready by (simp add: up_inv_def)
  have ops: "x_ops ?x = storage_ops F" by (simp add: x_ops_def)
  note post = tripleD [OF esp_store.append_law [OF E good cov] pre, unfolded ops run]
  have eq: "engine_append E F data s = (case r of
      Ok _ \<Rightarrow> (Ok True, (put_backend b s)\<lparr>up_engine := g\<rparr>)
    | Err _ \<Rightarrow> (Ok False, (put_backend b s)\<lparr>up_engine := g\<rparr>)
    | Panic \<Rightarrow> (Panic, (put_backend b s)\<lparr>up_engine := g\<rparr>))"
    by (cases r) (simp_all add: engine_append_def new_pre_erased_ok [OF w] run)
  show "case engine_append E F data s of
      (Ok r, s) \<Rightarrow> up_after E acc ok F view part V0 (A @ data) r s
    | (Err e, s) \<Rightarrow> False | (Panic, s) \<Rightarrow> False"
    using post w s
    by (cases r) (auto simp: up_after_def eq put_backend_def up_inv_def up_safe_def writer_ok_def x_ready_def x_safe_def x_opened_def opened_def)
qed

section \<open>append\<close>

lemma desired_erased_value:
  assumes "L < 2 ^ 63" and "n < usize_limit"
  shows "unat (desired_erased (of_nat L) n) = min (div_ceil L 65536 * 65536) n"
proof -
  let ?q = "word_div_ceil (of_nat L :: u64) erase_batch_size"
  have L: "unat (of_nat L :: u64) = L" using assms(1) by (simp add: unat_of_nat)
  have n: "unat (of_nat n :: u64) = n" using assms(2) by (simp add: unat_of_nat usize_limit_def)
  have q: "unat ?q = div_ceil L 65536" by (simp add: unat_word_div_ceil L erase_batch_size_def)
  have "div_ceil L 65536 * 65536 < 2 ^ 64" using div_ceil_bounds(2) [of 65536 L] assms(1) by simp
  then have "unat (u64_saturating_mul ?q erase_batch_size) = div_ceil L 65536 * 65536"
    by (simp add: u64_saturating_mul_def q unat_word_ariths) (simp add: erase_batch_size_def q unat_word_ariths)
  with n show ?thesis by (simp add: desired_erased_def min_def word_le_nat_alt)
qed

lemma desired_covers:
  assumes "L < 2 ^ 63" and "n < usize_limit"
  shows "unat (desired_erased (of_nat L) n) \<le> n"
    and "L \<le> unat (desired_erased (of_nat L) n) \<or> unat (desired_erased (of_nat L) n) = n"
  using desired_erased_value [OF assms] div_ceil_bounds(1) [of 65536 L] by (auto simp: min_def)

lemma count_flushed_triple:
  assumes "0 < ERASE_SIZE F" and "\<And>s n. I s \<Longrightarrow> I (s\<lparr>up_writer := (up_writer s)\<lparr>sectors_flushed := n\<rparr>\<rparr>)"
  shows "triple I (count_flushed E F a b) (\<lambda>_. I) X"
  unfolding count_flushed_def
  by (rule triple_andthen [where R = "\<lambda>_. I"]) (auto intro!: triple_panic_if triple_modify assms)

lemma counters_irrelevant:
  "up_inv E acc ok F view part V0 A (s\<lparr>up_writer := (up_writer s)\<lparr>sectors_flushed := n\<rparr>\<rparr>) = up_inv E acc ok F view part V0 A s"
  "up_safe F view part V0 (s\<lparr>up_writer := (up_writer s)\<lparr>sectors_flushed := n\<rparr>\<rparr>) = up_safe F view part V0 s"
  by (simp_all add: up_inv_def up_safe_def writer_ok_def)

lemma append_triple:
  fixes F :: "('f, 'x) nor_flash" and E :: "('g, 'f artifact_storage) write_session"
  assumes F: "nor_laws F view" and E: "session_laws E acc ok" and part: "ap_size part < usize_limit"
  shows "triple (up_inv E acc ok F view part V0 A) (aw_append E F data)
    (\<lambda>r s. up_after E acc ok F view part V0 (A @ data) r s) (\<lambda>_ _. False)"
proof (rule tripleI)
  fix s :: "('g, 'f) upload" assume s: "up_inv E acc ok F view part V0 A s"
  let ?post = "\<lambda>r s. up_after E acc ok F view part V0 (A @ data) r s"
  let ?can = "can_append E (up_engine s) (length data)" and ?through = "erased_through (up_writer s)"
  let ?desired = "desired_erased (received E (up_engine s) + of_nat (length data)) (ap_size (aw_partition (up_writer s)))"
  let ?I = "\<lambda>s. up_inv E acc ok F view part V0 A s \<and> can_append E (up_engine s) (length data)"
  note F0 = nor_sizes(2) [OF F]
  show "case aw_append E F data s of (Ok r, s) \<Rightarrow> ?post r s | (Err e, s) \<Rightarrow> False | (Panic, s) \<Rightarrow> False"
  proof (cases ?can)
    case False
    with s show ?thesis by (simp add: aw_append_def combinator_defs up_inv_safe)
  next
    case True
    have g: "ok (up_engine s)" "acc (up_engine s) = A" using s by (simp_all add: up_inv_def)
    have len: "length A + length data < 2 ^ 63" using session_facts(4) [OF E g(1) True] g(2) by simp
    have "received E (up_engine s) + of_nat (length data) = of_nat (length A + length data)"
      using session_facts(1) [OF E g(1)] g(2) by simp
    moreover have "ap_size (aw_partition (up_writer s)) = ap_size part" using s by (simp add: up_inv_def writer_ok_def)
    ultimately have eq: "?desired = desired_erased (of_nat (length A + length data)) (ap_size part)" by simp
    note desired = desired_covers [OF len part, folded eq]
    have append: "triple (\<lambda>s. ?I s \<and> (length A + length data \<le> unat (erased_through (up_writer s)) \<or>
          unat (erased_through (up_writer s)) = ap_size part)) (engine_append E F data) ?post (\<lambda>_ _. False)"
      by (rule triple_pre [OF engine_append_triple [OF F E part]]) auto
    have ahead: "triple (\<lambda>t. ?I t \<and> t = s) (if ?through < ?desired then
          andthen (erase_ahead F ?desired) (\<lambda>erased. if erased then engine_append E F data else return False)
        else engine_append E F data) ?post (\<lambda>_ _. False)"
    proof (cases "?through < ?desired")
      case lt: True
      have erase: "triple (\<lambda>t. ?I t \<and> t = s) (erase_ahead F ?desired)
          (\<lambda>r t. ?I t \<and> (r \<longrightarrow> erased_through (up_writer t) = ?desired)) (\<lambda>_ _. False)"
        by (rule triple_conseq [OF erase_ahead_triple [OF F part desired(1), where P = "\<lambda>g. can_append E g (length data)"]])
           (use lt in auto)
      have rest: "triple (\<lambda>t. ?I t \<and> (r \<longrightarrow> erased_through (up_writer t) = ?desired))
          (if r then engine_append E F data else return False) ?post (\<lambda>_ _. False)" for r
      proof (cases r)
        case True
        then show ?thesis by (simp, intro triple_pre [OF append]) (use desired(2) in auto)
      qed (auto intro!: triple_return simp: up_inv_safe)
      show ?thesis using lt triple_andthen [OF erase rest] by simp
    next
      case False
      then have "unat ?desired \<le> unat ?through" by (simp add: word_le_nat_alt not_less)
      moreover have "unat ?through \<le> ap_size part" using s by (simp add: up_inv_def)
      ultimately have "length A + length data \<le> unat ?through \<or> unat ?through = ap_size part"
        using desired(2) by linarith
      with False show ?thesis by (simp, intro triple_pre [OF append]) auto
    qed
    have tail: "triple (?post r) (andthen (gets (\<lambda>s. durable E (up_engine s))) (\<lambda>after.
        andthen (count_flushed E F before after) (\<lambda>_. return r))) ?post (\<lambda>_ _. False)" for r before
      by (rule triple_andthen [OF triple_gets [where Q = "\<lambda>_. ?post r"]], assumption,
          rule triple_andthen [OF count_flushed_triple [OF F0]])
         (auto intro!: triple_return simp: counters_irrelevant up_after_def)
    have "?I s \<and> s = s" using s True by simp
    from tripleD [OF triple_andthen [OF ahead tail] this] True show ?thesis
      by (simp add: aw_append_def gets_def andthen_def)
  qed
qed

section \<open>finish\<close>

lemma finish_triple:
  fixes F :: "('f, 'x) nor_flash" and E :: "('g, 'f artifact_storage) write_session"
  assumes F: "nor_laws F view" and E: "session_laws E acc ok" and part: "ap_size part < usize_limit"
  shows "triple (up_inv E acc ok F view part V0 A) (aw_finish E F)
    (\<lambda>c s. up_safe F view part V0 s \<and> slice_at (view (up_flash s)) (ap_offset part) (length A) = A \<and>
       committed_size c = of_nat (length A))
    (\<lambda>_. up_safe F view part V0)"
proof (rule tripleI)
  fix s :: "('g, 'f) upload" assume s: "up_inv E acc ok F view part V0 A s"
  let ?w = "up_writer s" and ?g = "up_engine s"
  let ?x = "upload_of F view part V0 (unat (erased_through ?w))"
  let ?Q = "\<lambda>c s. up_safe F view part V0 s \<and> slice_at (view (up_flash s)) (ap_offset part) (length A) = A \<and>
       committed_size c = of_nat (length A)"
  let ?b = "\<lparr>as_flash = up_flash s, partition_offset = ap_offset part, partition_size = ap_size part,
     scratch = aw_scratch ?w, erase_before_write = False\<rparr>"
  have w: "writer_ok F part ?w" and g: "ok ?g" "acc ?g = A" using s by (simp_all add: up_inv_def)
  have len: "unat (received E ?g) = length A"
    using session_facts(1,3) [OF E g(1)] g(2) by (simp add: unat_of_nat)
  show "case aw_finish E F s of (Ok c, s) \<Rightarrow> ?Q c s | (Err e, s) \<Rightarrow> up_safe F view part V0 s | (Panic, s) \<Rightarrow> False"
  proof (cases "erased_through ?w < received E ?g")
    case True
    with s show ?thesis by (simp add: aw_finish_def combinator_defs up_inv_safe)
  next
    case False
    have good: "x_good ?x" using F part s by (simp add: x_good_def up_inv_def)
    have cov: "x_covered ?x (length (acc ?g))"
      using False len g(2) by (simp add: x_covered_def not_less word_le_nat_alt)
    have ready: "x_ready ?x (take (unat (durable E ?g)) (acc ?g)) ?b"
      using s by (simp add: x_ready_def x_opened_def opened_def up_inv_def writer_ok_def)
    obtain r b where run: "ws_finish E (storage_ops F) ?g ?b = (r, b)" by (cases "ws_finish E (storage_ops F) ?g ?b")
    have ops: "x_ops ?x = storage_ops F" by (simp add: x_ops_def)
    note post = tripleD [OF esp_store.session_finish_law [OF E good g(1) cov] ready, unfolded ops run g(2)]
    have safe: "up_safe F view part V0 (put_backend b s)"
      "up_safe F view part V0 (s\<lparr>up_flash := as_flash b, up_writer := ?w\<lparr>aw_scratch := scratch b, sectors_flushed := n\<rparr>\<rparr>)"
      if "x_safe ?x b" for n
      using that w by (simp_all add: up_safe_def put_backend_def writer_ok_def x_safe_def x_opened_def opened_def)
    show ?thesis
      using post safe False nor_sizes(2) [OF F]
      by (cases r) (auto simp: aw_finish_def new_pre_erased_ok [OF w] run combinator_defs count_flushed_def
          x_holds_def put_backend_def)
  qed
qed

text \<open>A finished artifact fits its partition.\<close>

lemma finish_covered:
  assumes E: "session_laws E acc ok" and s: "up_inv E acc ok F view part V0 A s" and run: "aw_finish E F s = (Ok c, t)"
  shows "length A \<le> ap_size part"
proof -
  let ?g = "up_engine s" and ?w = "up_writer s"
  have g: "ok ?g" "acc ?g = A" "unat (erased_through ?w) \<le> ap_size part" using s by (simp_all add: up_inv_def)
  have "unat (received E ?g) = length A"
    using session_facts(1,3) [OF E g(1)] g(2) by (simp add: unat_of_nat)
  moreover have "\<not> erased_through ?w < received E ?g"
    using run by (auto simp: aw_finish_def combinator_defs)
  ultimately show ?thesis using g(3) by (simp add: not_less word_le_nat_alt)
qed

section \<open>A whole upload\<close>

definition started :: "('g, 'b) write_session \<Rightarrow> ('g \<Rightarrow> u8 list) \<Rightarrow> ('g \<Rightarrow> bool) \<Rightarrow> 'g \<Rightarrow> bool" where
  "started E acc ok g \<longleftrightarrow> ok g \<and> acc g = [] \<and> durable E g = 0"

lemma new_writer_inv:
  assumes "started E acc ok g"
  shows "up_inv E acc ok F view part (view f) [] \<lparr>up_writer = aw_new F part, up_engine = g, up_flash = f\<rparr>"
  using assms by (simp add: up_inv_def started_def aw_new_def writer_ok_def erase_size_def esp_flash_nor_def
      forward_def x_ready_mem_def)

text \<open>The caller's loop: append the chunks until one is refused, then finish.\<close>

fun append_all :: "('g, 'f artifact_storage) write_session \<Rightarrow> ('f, 'x) nor_flash \<Rightarrow> u8 list list \<Rightarrow> ('g, 'f, bool) uploading" where
  "append_all E F [] = return True"
| "append_all E F (c # cs) = andthen (aw_append E F c) (\<lambda>ok. if ok then append_all E F cs else return False)"

lemma append_all_triple:
  assumes F: "nor_laws F view" and E: "session_laws E acc ok" and part: "ap_size part < usize_limit"
  shows "triple (up_inv E acc ok F view part V0 A) (append_all E F chunks)
    (\<lambda>r s. up_after E acc ok F view part V0 (A @ concat chunks) r s) (\<lambda>_ _. False)"
proof (induction chunks arbitrary: A)
  case (Cons c cs)
  have "triple (\<lambda>s. up_after E acc ok F view part V0 (A @ c) r s)
      (if r then append_all E F cs else return False)
      (\<lambda>r s. up_after E acc ok F view part V0 (A @ concat (c # cs)) r s)
      (\<lambda>_ _. False)" for r
    using Cons.IH [of "A @ c"] by (cases r) (simp_all add: triple_return)
  from triple_andthen [OF append_triple [OF F E part] this] show ?case by simp
qed (auto intro!: triple_return)

end
