(* ===== verification/Ota_Theorems.thy ===== *)
theory Ota_Theorems
  imports Ota_Writer
begin

text \<open>
  What the OTA adapter guarantees, over any driver that keeps \<open>nor_laws\<close>, any table parser that keeps
  \<open>idf_laws\<close> and any write session that keeps \<open>session_laws\<close>.  The witnesses run on a 4 MiB
  reference flash, a fixed partition table and a session that buffers what it has not yet made durable.
\<close>

section \<open>Reference parameters\<close>

definition ref_idf :: "(mem, unit) idf" where
  "ref_idf = \<lparr>read_partition_table = return (),
     find_partition = (\<lambda>_ kind. case kind of
         PT_Data_Ota \<Rightarrow> Inr (Some \<lparr>pe_offset = 0xF000, pe_len = 0x2000, pe_label = ''otadata''\<rparr>)
       | PT_App Sub_Ota0 \<Rightarrow> Inr (Some \<lparr>pe_offset = 0x20000, pe_len = 0x100000, pe_label = ''ota_0''\<rparr>)
       | PT_App Sub_Ota1 \<Rightarrow> Inr (Some \<lparr>pe_offset = 0x120000, pe_len = 0x100000, pe_label = ''ota_1''\<rparr>)),
     booted_partition = (\<lambda>_. Inr (Some \<lparr>pe_offset = 0x20000, pe_len = 0x100000, pe_label = ''ota_0''\<rparr>))\<rparr>"

lemma ref_idf_laws: "idf_laws ref_idf (\<lambda>V. V) (\<lambda>_. ())"
  by (simp add: idf_laws_def ref_idf_def triple_return)

text \<open>A boot core over entries that are single words: a state word, filler, a commit word.\<close>

definition word_core :: "u32 boot_core" where
  "word_core = \<lparr>
     ENTRY_SIZE = 32, BLANK = replicate 32 0xFF, entry_seq = (\<lambda>e. 1), entry_state = (\<lambda>e. e),
     entry_body = (\<lambda>e. to_le 4 e @ replicate 28 0xFF),
     entry_encode = (\<lambda>e. to_le 4 e @ replicate 24 0xFF @ [0, 0, 0, 0]),
     entry_decode = (\<lambda>bs. if drop 4 bs = replicate 24 0xFF @ [0, 0, 0, 0] then Decoded_Ok (from_le (take 4 bs)) else Decoded_Other),
     write_ops = (\<lambda>wr. (Op_Erase, Op_Program 0 28 (to_le 4 (write_entry wr) @ replicate 28 0xFF),
                        Op_Program 28 4 (replicate 32 0))),
     state_NEW = 0, state_PENDING_VERIFY = 1, state_VALID = 2, state_INVALID = 3, state_ABORTED = 4,
     slot_of = (\<lambda>sq n. 0),
     core_confirm = (\<lambda>es. Some \<lparr>write_sector = 0, write_entry = 2\<rparr>),
     core_reject = (\<lambda>es. None),
     core_activate = (\<lambda>es n i. Some \<lparr>write_sector = 1, write_entry = 0\<rparr>)\<rparr>"

lemma word_core_sound:
  "sound_choice word_core (core_confirm word_core)" "sound_choice word_core (core_reject word_core)"
  "sound_choice word_core (\<lambda>es. core_activate word_core es n i)"
  by (auto simp: sound_choice_def word_core_def write_fits_def)

record ref_session_state =
  rs_acc :: "u8 list"
  rs_dur :: nat

definition ref_session :: "(ref_session_state, 'b) write_session" where
  "ref_session = \<lparr>
     can_append = (\<lambda>g n. length (rs_acc g) + n < 2 ^ 32),
     received = (\<lambda>g. of_nat (length (rs_acc g))),
     durable = (\<lambda>g. of_nat (rs_dur g)),
     ws_append = (\<lambda>ops data (g, b). case op_write ops (of_nat (rs_dur g)) (drop (rs_dur g) (rs_acc g @ data)) b of
         (Ok r, b') \<Rightarrow> (Ok (), (\<lparr>rs_acc = rs_acc g @ data, rs_dur = unat r\<rparr>, b'))
       | (Err e, b') \<Rightarrow> (Err (Backend e), (g, b'))
       | (Panic, b') \<Rightarrow> (Panic, (g, b'))),
     ws_finish = (\<lambda>ops g b. case op_finish ops (of_nat (rs_dur g)) (drop (rs_dur g) (rs_acc g)) b of
         (Ok r, b') \<Rightarrow> (Ok \<lparr>committed_size = r, committed_digest = []\<rparr>, b')
       | (Err e, b') \<Rightarrow> (Err (Backend e), b')
       | (Panic, b') \<Rightarrow> (Panic, b'))\<rparr>"

definition rs_ok :: "ref_session_state \<Rightarrow> bool" where
  "rs_ok g \<longleftrightarrow> rs_dur g \<le> length (rs_acc g) \<and> length (rs_acc g) < 2 ^ 32"

lemma ref_session_laws: "session_laws (ref_session :: (ref_session_state, 'b) write_session) rs_acc rs_ok"
  unfolding session_laws_def
proof (intro conjI allI impI)
  fix g :: ref_session_state and n assume ok: "rs_ok g"
  show "received (ref_session :: (ref_session_state, 'b) write_session) g = of_nat (length (rs_acc g))"
    by (simp add: ref_session_def)
  show "unat (durable (ref_session :: (ref_session_state, 'b) write_session) g) \<le> length (rs_acc g)"
    using ok by (simp add: ref_session_def rs_ok_def unat_of_nat)
  show "length (rs_acc g) < 2 ^ 63" using ok by (simp add: rs_ok_def)
  show "can_append (ref_session :: (ref_session_state, 'b) write_session) g n \<Longrightarrow> length (rs_acc g) + n < 2 ^ 63"
    by (simp add: ref_session_def)
next
  fix ready holds safe covered and ops :: "'b artifact_ops" and data A :: "u8 list"
  assume con: "store_contract ready holds safe covered ops" and cov: "\<forall>n \<le> length A + length data. covered n"
  show "triple (\<lambda>(g, b). rs_ok g \<and> can_append (ref_session :: (ref_session_state, 'b) write_session) g (length data) \<and> rs_acc g = A \<and>
        ready (take (unat (durable (ref_session :: (ref_session_state, 'b) write_session) g)) A) b)
      (ws_append ref_session ops data)
      (\<lambda>_ (g, b). rs_ok g \<and> rs_acc g = A @ data \<and>
        ready (take (unat (durable (ref_session :: (ref_session_state, 'b) write_session) g)) (A @ data)) b)
      (\<lambda>_ (g, b). rs_ok g \<and> safe b)"
  proof (rule tripleI)
    fix s :: "ref_session_state \<times> 'b"
    obtain g b where s: "s = (g, b)" by (cases s)
    let ?d = "rs_dur g" and ?E = "ref_session :: (ref_session_state, 'b) write_session"
    let ?pend = "drop ?d (rs_acc g @ data)"
    assume "case s of (g, b) \<Rightarrow> rs_ok g \<and> can_append ?E g (length data) \<and> rs_acc g = A \<and>
        ready (take (unat (durable ?E g)) A) b"
    then have ok: "rs_ok g" and can: "can_append ?E g (length data)" and A: "A = rs_acc g"
      and ready: "ready (take (unat (durable ?E g)) (rs_acc g)) b" by (auto simp: s)
    have d: "unat (durable ?E g) = ?d" "?d \<le> length (rs_acc g)" "length (rs_acc g) + length data < 2 ^ 32"
      using ok can by (simp_all add: ref_session_def rs_ok_def unat_of_nat)
    let ?front = "take ?d (rs_acc g)"
    have len: "length ?front = ?d" "length ?front + length ?pend = length (rs_acc g) + length data" using d by simp_all
    have "triple (ready ?front) (op_write ops (of_nat (length ?front)) ?pend)
        (\<lambda>r b. \<exists>k \<le> length ?pend. r = of_nat (length ?front + k) \<and> ready (?front @ take k ?pend) b) (\<lambda>_. safe)"
      by (rule store_contractD(1) [OF con]) (use cov len(2) A in simp)
    moreover have "ready ?front b" using ready d(1) by simp
    ultimately have post: "case op_write ops (of_nat ?d) ?pend b of
        (Ok r, b) \<Rightarrow> \<exists>k \<le> length ?pend. r = of_nat (?d + k) \<and> ready (?front @ take k ?pend) b
      | (Err e, b) \<Rightarrow> safe b | (Panic, b) \<Rightarrow> False"
      unfolding len(1) by (rule tripleD)
    have joined: "?front @ take k ?pend = take (?d + k) (rs_acc g @ data)" for k
    proof -
      have "?front = take ?d (rs_acc g @ data)" using d(2) by simp
      then show ?thesis by (simp only: take_add)
    qed
    have unat_k: "unat (of_nat (?d + k) :: u64) = ?d + k" if "k \<le> length ?pend" for k
    proof -
      have "?d + k < 2 ^ 64" using that d(2,3) by simp
      then show ?thesis by (simp only: unat_of_nat take_bit_eq_mod) simp
    qed
    show "case ws_append ?E ops data s of
        (Ok _, s) \<Rightarrow> (case s of (g', b) \<Rightarrow> rs_ok g' \<and> rs_acc g' = A @ data \<and>
            ready (take (unat (durable ?E g')) (A @ data)) b)
      | (Err e, s) \<Rightarrow> (case s of (g, b) \<Rightarrow> rs_ok g \<and> safe b) | (Panic, s) \<Rightarrow> False"
    proof (cases "op_write ops (of_nat ?d) ?pend b")
      case (Pair r b')
      show ?thesis
      proof (cases r)
        case (Ok v)
        with post Pair obtain k where k: "k \<le> length ?pend" "v = of_nat (?d + k)" "ready (?front @ take k ?pend) b'" by auto
        have v: "unat v = ?d + k" using unat_k [OF k(1)] k(2) by simp
        have "?d + k \<le> length (rs_acc g) + length data" using k(1) d(2) by simp
        moreover have "ready (take (?d + k) (rs_acc g @ data)) b'" using k(3) unfolding joined .
        ultimately show ?thesis using Ok Pair k(2) v d A s by (simp add: ref_session_def rs_ok_def)
      qed (use post Pair ok s in \<open>simp_all add: ref_session_def\<close>)
    qed
  qed
next
  fix ready holds safe covered and ops :: "'b artifact_ops" and g :: ref_session_state
  assume con: "store_contract ready holds safe covered ops" and ok: "rs_ok g"
    and cov: "\<forall>n \<le> length (rs_acc g). covered n"
  let ?d = "rs_dur g"
  let ?front = "take ?d (rs_acc g)" and ?pend = "drop ?d (rs_acc g)"
  have d: "unat (durable (ref_session :: (ref_session_state, 'b) write_session) g) = ?d" "?d \<le> length (rs_acc g)"
    using ok by (simp_all add: ref_session_def rs_ok_def unat_of_nat)
  have len: "length ?front = ?d" "length ?front + length ?pend = length (rs_acc g)" using d by simp_all
  have "triple (ready ?front) (op_finish ops (of_nat (length ?front)) ?pend)
      (\<lambda>r b. r = of_nat (length ?front + length ?pend) \<and> holds (?front @ ?pend) b) (\<lambda>_. safe)"
    by (rule store_contractD(2) [OF con]) (use cov len(2) in simp)
  then have "triple (ready ?front) (op_finish ops (of_nat ?d) ?pend)
      (\<lambda>r b. r = of_nat (length (rs_acc g)) \<and> holds (rs_acc g) b) (\<lambda>_. safe)"
    using len by simp
  then show "triple (ready (take (unat (durable (ref_session :: (ref_session_state, 'b) write_session) g)) (rs_acc g)))
      (ws_finish ref_session ops g)
      (\<lambda>c b. committed_size c = of_nat (length (rs_acc g)) \<and> holds (rs_acc g) b) (\<lambda>_. safe)"
    unfolding d(1) by (auto simp: ref_session_def triple_def split: prod.splits res.splits)
qed

section \<open>Uploading an artifact\<close>

definition upload_start :: "('f, 'x) nor_flash \<Rightarrow> app_partition \<Rightarrow> 'g \<Rightarrow> 'f \<Rightarrow> ('g, 'f) upload" where
  "upload_start F part g f = \<lparr>up_writer = aw_new F part, up_engine = g, up_flash = f\<rparr>"

text \<open>C15: an upload session, whatever chunks it is handed and whatever flash commands fail, never
  panics and never changes a flash byte outside its partition.  When every append succeeded and
  \<open>finish\<close> succeeds, the partition begins with exactly the concatenation of the chunks, in
  order, and the committed size is its length.\<close>

theorem upload_stores_chunks:
  assumes "nor_laws F view" and "session_laws E acc ok" and "started E acc ok g" and "ap_size part < usize_limit"
  shows "case append_all E F chunks (upload_start F part g f) of
      (Ok True, s) \<Rightarrow> (case aw_finish E F s of
          (Ok c, t) \<Rightarrow> slice_at (view (up_flash t)) (ap_offset part) (length (concat chunks)) = concat chunks \<and>
             committed_size c = of_nat (length (concat chunks)) \<and>
             same_outside (region (ap_offset part) (ap_size part)) (view f) (view (up_flash t))
        | (Err e, t) \<Rightarrow> same_outside (region (ap_offset part) (ap_size part)) (view f) (view (up_flash t))
        | (Panic, t) \<Rightarrow> False)
    | (Ok False, s) \<Rightarrow> same_outside (region (ap_offset part) (ap_size part)) (view f) (view (up_flash s))
    | (Err e, s) \<Rightarrow> False
    | (Panic, s) \<Rightarrow> False"
proof -
  have "up_inv E acc ok F view part (view f) [] (upload_start F part g f)"
    unfolding upload_start_def by (rule new_writer_inv) (rule assms(3))
  from tripleD [OF append_all_triple [OF assms(1,2,4), of "view f" "[]" chunks] this]
  show ?thesis
    using tripleD [OF finish_triple [OF assms(1,2,4), of "view f" "concat chunks"]]
    by (fastforce simp: up_safe_def split: prod.splits res.splits bool.splits)
qed

definition ref_part :: app_partition where
  "ref_part = \<lparr>ap_slot = Ota1, ap_offset = 0x120000, ap_size = 0x100000\<rparr>"

theorem upload_stores_chunks_witness:
  "case append_all ref_session sim_nor [[1, 2, 3], [4]] (upload_start sim_nor ref_part \<lparr>rs_acc = [], rs_dur = 0\<rparr> (\<lambda>_. 7)) of
      (Ok True, s) \<Rightarrow> (case aw_finish ref_session sim_nor s of
          (Ok c, t) \<Rightarrow> slice_at (up_flash t) 0x120000 4 = [1, 2, 3, 4] \<and> committed_size c = 4 \<and>
             same_outside (region 0x120000 0x100000) (\<lambda>_. 7) (up_flash t)
        | (Err e, t) \<Rightarrow> same_outside (region 0x120000 0x100000) (\<lambda>_. 7) (up_flash t)
        | (Panic, t) \<Rightarrow> False)
    | (Ok False, s) \<Rightarrow> same_outside (region 0x120000 0x100000) (\<lambda>_. 7) (up_flash s)
    | (Err e, s) \<Rightarrow> False
    | (Panic, s) \<Rightarrow> False"
proof -
  let ?g = "\<lparr>rs_acc = [], rs_dur = 0\<rparr>"
  have st: "started (ref_session :: (ref_session_state, mem artifact_storage) write_session) rs_acc rs_ok ?g"
    by (simp add: started_def rs_ok_def ref_session_def)
  have part: "ap_size ref_part < usize_limit" "ap_offset ref_part = 0x120000" "ap_size ref_part = 0x100000"
    by (simp_all add: ref_part_def usize_limit_def)
  have data: "concat [[1, 2, 3], [4 :: u8]] = [1, 2, 3, 4]" by simp
  have len: "length [1, 2, 3, 4 :: u8] = 4" "(of_nat 4 :: u64) = 4" by simp_all
  show ?thesis
    using upload_stores_chunks [OF sim_nor_laws ref_session_laws st part(1), where f = "\<lambda>_. 7" and chunks = "[[1, 2, 3], [4]]"]
    unfolding part(2,3) data len .
qed

section \<open>Changing the boot entries\<close>

text \<open>
  The result of a transition from contents \<open>V\<close>, the entries being at \<open>b\<close>: a transition that is applied
  replaces one entry by the encoding of the chosen one; one that fails leaves the other entry as it was.
\<close>

definition transition_outcome ::
  "'e boot_core \<Rightarrow> u32 option \<Rightarrow> (u8 list list \<Rightarrow> 'e boot_write option) \<Rightarrow> mem \<Rightarrow> (unit, otadata_error) res \<Rightarrow> mem \<Rightarrow> bool" where
  "transition_outcome core base pick V r W = (case r of
     Ok _ \<Rightarrow> (\<exists>b wr. base = Some b \<and> pick (entries_at core V b) = Some wr \<and>
         entries_at core W b = (entries_at core V b)[unat (write_sector wr) := entry_encode core (write_entry wr)] \<and>
         entry_decode core (entry_encode core (write_entry wr)) = Decoded_Ok (write_entry wr) \<and>
         same_outside (region (entry_base b (unat (write_sector wr))) 0x1000) V W)
   | Err Unavailable \<Rightarrow> W = V
   | Err NoTransition \<Rightarrow> W = V \<and> (\<exists>b. base = Some b \<and> pick (entries_at core V b) = None)
   | Err Verify \<Rightarrow> (\<exists>b wr. base = Some b \<and> pick (entries_at core V b) = Some wr \<and>
         entries_at core W b ! (1 - unat (write_sector wr)) = entries_at core V b ! (1 - unat (write_sector wr)) \<and>
         same_outside (region (entry_base b (unat (write_sector wr))) 0x1000) V W)
   | Panic \<Rightarrow> False)"

lemma other_entry_kept:
  assumes "length (BLANK core) \<le> 0x1000" and "i < 2" and "same_outside (region (entry_base b i) 0x1000) V W"
  shows "entries_at core W b ! (1 - i) = entries_at core V b ! (1 - i)"
proof -
  have i: "1 - i < 2" "i \<noteq> 1 - i" using assms(2) by arith+
  have "region (entry_base b i) 0x1000 \<inter> region (entry_base b (1 - i)) (length (BLANK core)) = {}"
    using other_sector_apart [OF assms(2) i] region_mono [OF assms(1)] by blast
  from same_outside_slice [OF assms(3) this] have
    "slice_at W (entry_base b (1 - i)) (length (BLANK core)) = slice_at V (entry_base b (1 - i)) (length (BLANK core))" .
  moreover have "i = 0 \<or> i = 1" using assms(2) by auto
  ultimately show ?thesis by (auto simp: entries_at_def)
qed

lemma transition_outcomes:
  assumes I: "idf_laws I view parse" and F: "nor_laws F view" and sound: "sound_choice core pick"
    and al: "\<And>b. otadata_base I (parse (view f)) = Some b \<Longrightarrow> b AND 0xFFF = 0"
    and size: "length (BLANK core) = ENTRY_SIZE core" "ENTRY_SIZE core \<le> 0x1000"
  shows "case transition core I F pick f of (r, f') \<Rightarrow>
     transition_outcome core (otadata_base I (parse (view f))) pick (view f) r (view f')"
proof -
  note run = tripleD [OF transition_triple [OF I F sound, of "view f"], of f]
  obtain r f' where rf: "transition core I F pick f = (r, f')" by (cases "transition core I F pick f")
  have "transition_outcome core (otadata_base I (parse (view f))) pick (view f) r (view f')"
  proof (cases r)
    case (Ok u)
    with run al rf have "transition_ok core (otadata_base I (parse (view f))) pick (view f) (view f')" by auto
    then obtain b wr where wr: "otadata_base I (parse (view f)) = Some b" "pick (entries_at core (view f) b) = Some wr"
      and c: "committed core wr (entry_base b (unat (write_sector wr))) (view f) (view f')"
      unfolding transition_ok_def by blast
    have fits: "unat (write_sector wr) < 2" "write_fits core wr" using sound wr(2) unfolding sound_choice_def by blast+
    have "entry_decode core (entry_encode core (write_entry wr)) = Decoded_Ok (write_entry wr)"
      using c unfolding committed_def by metis
    then show ?thesis
      using wr committed_entries [OF size fits c] committed_outside [OF fits(2) c] Ok by (auto simp: transition_outcome_def)
  next
    case (Err e)
    with run al rf have failed: "transition_failed core (otadata_base I (parse (view f))) pick (view f) e (view f')" by auto
    show ?thesis
    proof (cases e)
      case Verify
      with failed obtain b wr k where wr: "otadata_base I (parse (view f)) = Some b" "pick (entries_at core (view f) b) = Some wr"
        and c: "failed_at core wr (entry_base b (unat (write_sector wr))) (view f) k (view f')"
        by (auto simp: transition_failed_def)
      have fits: "unat (write_sector wr) < 2" "write_fits core wr" using sound wr(2) unfolding sound_choice_def by blast+
      have "length (BLANK core) \<le> 0x1000" using size by simp
      from other_entry_kept [OF this fits(1) failed_at_outside [OF fits(2) c]] failed_at_outside [OF fits(2) c]
      show ?thesis using wr Err Verify by (auto simp: transition_outcome_def)
    qed (use failed Err in \<open>auto simp: transition_outcome_def transition_failed_def\<close>)
  qed (use run al rf in auto)
  then show ?thesis by (simp add: rf)
qed

text \<open>C16: confirming, rejecting and activating an image each replace at most one boot entry.  When the
  operation returns, the entries read back are the old ones with the chosen one replaced by its
  encoding, which decodes to it, and no byte outside that entry's sector changed.  When it reports
  that there is no transition or that otadata is unavailable, flash is untouched; when a flash
  command or a read-back fails, the other entry is still what it was.  None of them panics.\<close>

theorem transitions_replace_one_entry:
  assumes I: "idf_laws I view parse" and F: "nor_laws F view"
    and al: "\<And>b. otadata_base I (parse (view f)) = Some b \<Longrightarrow> b AND 0xFFF = 0"
    and size: "length (BLANK core) = ENTRY_SIZE core" "ENTRY_SIZE core \<le> 0x1000"
    and confirm_choice: "sound_choice core (core_confirm core)"
    and reject_choice: "sound_choice core (core_reject core)"
    and activate_choice: "\<And>i. sound_choice core (\<lambda>es. core_activate core es 2 i)"
  defines "outcome \<equiv> transition_outcome core (otadata_base I (parse (view f)))"
  shows "(case confirm core I F f of (r, f') \<Rightarrow> outcome (core_confirm core) (view f) r (view f')) \<and>
    (case reject core I F f of (r, f') \<Rightarrow> outcome (core_reject core) (view f) r (view f')) \<and>
    (case activate core I F slot f of (r, f') \<Rightarrow>
       outcome (\<lambda>es. core_activate core es 2 (case slot of Ota0 \<Rightarrow> 0 | Ota1 \<Rightarrow> 1)) (view f) r (view f'))"
  unfolding outcome_def transitions OTA_SLOT_COUNT_def
  by (intro conjI transition_outcomes [OF I F _ al size] assms(6-8))

theorem transitions_replace_one_entry_witness:
  "(case confirm word_core ref_idf sim_nor (\<lambda>_. 7) of (r, f') \<Rightarrow>
      transition_outcome word_core (Some 0xF000) (\<lambda>_. Some \<lparr>write_sector = 0, write_entry = 2\<rparr>) (\<lambda>_. 7) r f') \<and>
   (case reject word_core ref_idf sim_nor (\<lambda>_. 7) of (r, f') \<Rightarrow>
      transition_outcome word_core (Some 0xF000) (\<lambda>_. None) (\<lambda>_. 7) r f') \<and>
   (case activate word_core ref_idf sim_nor Ota1 (\<lambda>_. 7) of (r, f') \<Rightarrow>
      transition_outcome word_core (Some 0xF000) (\<lambda>_. Some \<lparr>write_sector = 1, write_entry = 0\<rparr>) (\<lambda>_. 7) r f')"
proof -
  have base: "otadata_base ref_idf () = Some 0xF000" by (simp add: otadata_base_def ref_idf_def)
  have al: "b AND 0xFFF = 0" if "otadata_base ref_idf () = Some b" for b using that base by simp
  have size: "length (BLANK word_core) = ENTRY_SIZE word_core" "ENTRY_SIZE word_core \<le> 0x1000"
    by (simp_all add: word_core_def)
  have pick: "core_confirm word_core = (\<lambda>_. Some \<lparr>write_sector = 0, write_entry = 2\<rparr>)"
    "core_reject word_core = (\<lambda>_. None)" "core_activate word_core = (\<lambda>_ _ _. Some \<lparr>write_sector = 1, write_entry = 0\<rparr>)"
    by (simp_all add: word_core_def)
  show ?thesis
    using transitions_replace_one_entry [OF ref_idf_laws sim_nor_laws al size word_core_sound, where f = "\<lambda>_. 7" and slot = Ota1]
    unfolding base pick .
qed


section \<open>Choosing and hashing the write target\<close>

text \<open>The entry of the newest image that is confirmed or awaits its confirmation.\<close>

definition newest_usable :: "'e boot_core \<Rightarrow> u8 list list \<Rightarrow> 'e \<Rightarrow> bool" where
  "newest_usable core raws e \<longleftrightarrow> (let usable = {x \<in> set (decoded_entries core raws).
       entry_state core x = state_VALID core \<or> entry_state core x = state_PENDING_VERIFY core} in
     e \<in> usable \<and> (\<forall>x \<in> usable. entry_seq core x \<le> entry_seq core e))"

fun slot_number :: "app_slot \<Rightarrow> u8" where
  "slot_number Ota0 = 0"
| "slot_number Ota1 = 1"

lemma target_of_newest:
  assumes "target_of core raws = Some slot" and "newest_usable core raws e"
  shows "slot_of core (entry_seq core e) 2 = slot_number (other slot)"
proof -
  let ?used = "{sq. \<exists>e \<in> set (decoded_entries core raws). entry_seq core e = sq \<and>
            (entry_state core e = state_VALID core \<or> entry_state core e = state_PENDING_VERIFY core)}"
  have "finite ?used" by (rule finite_subset [of _ "entry_seq core ` set (decoded_entries core raws)"]) auto
  then have "Max ?used = entry_seq core e"
    using assms(2) by (intro Max_eqI) (auto simp: newest_usable_def Let_def)
  with assms(1) show ?thesis
    by (auto simp: target_of_def Let_def OTA_SLOT_COUNT_def split: if_splits)
qed

lemma newest_usable_exists:
  assumes "target_of core raws = Some slot"
  shows "\<exists>e. newest_usable core raws e"
proof -
  let ?us = "{x \<in> set (decoded_entries core raws).
       entry_state core x = state_VALID core \<or> entry_state core x = state_PENDING_VERIFY core}"
  have "?us \<noteq> {}" using assms by (auto simp: target_of_def Let_def split: if_splits)
  then have "Max (entry_seq core ` ?us) \<in> entry_seq core ` ?us" by (intro Max_in) auto
  then obtain e where e: "Max (entry_seq core ` ?us) = entry_seq core e" "e \<in> ?us" by (rule imageE)
  have "entry_seq core x \<le> entry_seq core e" if "x \<in> ?us" for x
    unfolding e(1) [symmetric] by (rule Max_ge) (use that in auto)
  with e(2) show ?thesis unfolding newest_usable_def Let_def by blast
qed

text \<open>C17: \<open>write_target\<close> never picks the slot of the newest confirmed or pending entry: it returns the partition the
  table lists for a slot only when some entry is confirmed or pending, and the slot fibewi assigns to
  the newest such entry is then the other one.  (That is the slot of the image that runs unless the bootloader fell
  back without rewriting the entry, which this function does not look at.)  It changes nothing in flash, and when it
  fails, with \<open>Unavailable\<close>, neither.\<close>

theorem write_target_spares_newest:
  assumes "idf_laws I view parse" and "nor_laws F view"
  shows "case write_target core I F f of
      (Ok p, f') \<Rightarrow> view f' = view f \<and>
        (\<exists>b e. otadata_base I (parse (view f)) = Some b \<and> newest_usable core (entries_at core (view f) b) e \<and>
           slot_of core (entry_seq core e) 2 = slot_number (other (ap_slot p))) \<and>
        (\<exists>e. find_partition I (parse (view f)) (PT_App (subtype (ap_slot p))) = Inr (Some e) \<and>
           ap_offset p = pe_offset e \<and> ap_size p = unat (pe_len e))
    | (Err e, f') \<Rightarrow> e = Unavailable \<and> view f' = view f
    | (Panic, f') \<Rightarrow> False"
  using tripleD [OF write_target_triple [OF assms, of "view f" core], of f] newest_usable_exists target_of_newest
  by (fastforce split: prod.splits res.splits)

theorem write_target_spares_newest_witness:
  "case write_target word_core ref_idf sim_nor (stored (\<lambda>_. 0xFF) 0xF000 (entry_encode word_core 2)) of
      (Ok p, f') \<Rightarrow> f' = stored (\<lambda>_. 0xFF) 0xF000 (entry_encode word_core 2) \<and> slot_of word_core 1 2 = slot_number (other (ap_slot p))
    | (Err e, f') \<Rightarrow> e = Unavailable \<and> f' = stored (\<lambda>_. 0xFF) 0xF000 (entry_encode word_core 2)
    | (Panic, f') \<Rightarrow> False"
  using write_target_spares_newest [OF ref_idf_laws sim_nor_laws, where core = word_core and f = "stored (\<lambda>_. 0xFF) 0xF000 (entry_encode word_core 2)"]
  by (auto simp: word_core_def split: prod.splits res.splits)

text \<open>An error of the loop is that of the driver's read of one chunk.\<close>

lemma hash_loop_failed:
  "hash_loop F H base sz offset h f = (Err e, f') \<Longrightarrow> e = PL_Flash \<and>
     (\<exists>k f1 x. k < sz \<and> nf_read_into F (base + k) (replicate (min (unat (sz - k)) 4096) 0) f1 = (Err x, f'))"
proof (induction F H base sz offset h f rule: hash_loop.induct)
  case (1 F H base sz offset h f)
  show ?case
  proof (cases "offset < sz")
    case True
    let ?n = "min (unat (sz - offset)) 4096"
    obtain r g where read: "nf_read_into F (base + offset) (replicate ?n 0) f = (r, g)" by (metis surj_pair)
    note run = "1.prems" [unfolded hash_loop.simps [of F H base sz offset h f] if_P [OF True] Let_def andthen_def map_err_def read]
    show ?thesis
    proof (cases r)
      case (Ok chunk)
      from "1.IH" [OF True refl, of chunk g] run Ok show ?thesis by simp
    next
      case (Err x)
      then show ?thesis using run read True by auto
    qed (use run in simp)
  qed (use "1.prems" in \<open>simp add: hash_loop.simps\<close>)
qed

text \<open>C23: \<open>hash_preloaded\<close> returns the hash of exactly the first \<open>sz\<close> bytes of the write target, read in
  4 KiB chunks, for every size up to the partition's and the whole of \<open>u32\<close>.  It fails in three ways only:
  with \<open>NoTarget\<close> when the write target itself cannot be determined, with \<open>TooLarge\<close> when the target is
  smaller than \<open>sz\<close>, and with \<open>Flash\<close> when the size fits and the driver failed to read one of the chunks.  Nothing is
  written, and no size makes it panic.\<close>

theorem hash_preloaded_hashes_target:
  assumes "idf_laws I view parse" and "nor_laws F view" and "sha_laws H"
  shows "case hash_preloaded core I F H sz s of
      (Ok (slot, digest), s') \<Rightarrow> view (storage s') = view (storage s) \<and>
         (\<exists>p. target_at core I (parse (view (storage s))) (view (storage s)) p \<and> slot = ap_slot p \<and> unat sz \<le> ap_size p \<and>
           digest = sha_finalize H (sha_update H (sha_new H) (slice_at (view (storage s)) (ap_offset p) (unat sz))))
    | (Err e, s') \<Rightarrow> view (storage s') = view (storage s) \<and> (case write_target_locked core I F s of
           (Ok p, t) \<Rightarrow> if ap_size p < unat sz then e = TooLarge \<and> s' = t
             else e = PL_Flash \<and> (\<exists>k g x. k < sz \<and>
               nf_read_into F (ap_offset p + k) (replicate (min (unat (sz - k)) 4096) 0) g = (Err x, storage s'))
         | (Err _, t) \<Rightarrow> e = NoTarget \<and> s' = t
         | (Panic, t) \<Rightarrow> False)
    | (Panic, s') \<Rightarrow> False"
proof -
  note spec = tripleD [OF hash_preloaded_triple [OF assms, of "view (storage s)" core sz], of s]
  have why: "case write_target_locked core I F s of
           (Ok p, t) \<Rightarrow> if ap_size p < unat sz then e = TooLarge \<and> s' = t
             else e = PL_Flash \<and> (\<exists>k g x. k < sz \<and>
               nf_read_into F (ap_offset p + k) (replicate (min (unat (sz - k)) 4096) 0) g = (Err x, storage s'))
         | (Err _, t) \<Rightarrow> e = NoTarget \<and> s' = t
         | (Panic, t) \<Rightarrow> False" if run: "hash_preloaded core I F H sz s = (Err e, s')" for e s'
  proof (cases "write_target_locked core I F s")
    case (Pair r t)
    show ?thesis
    proof (cases r)
      case (Ok p)
      obtain q g where loop: "hash_loop F H (ap_offset p) sz 0 (sha_new H) (storage t) = (q, g)" by (metis surj_pair)
      show ?thesis
        using run hash_loop_failed [of F H "ap_offset p" sz 0 "sha_new H" "storage t"]
        by (cases q; auto simp: hash_preloaded_def with_storage_def combinator_defs Pair Ok loop split: if_splits; blast)
    qed (use run in \<open>auto simp: hash_preloaded_def combinator_defs Pair\<close>)
  qed
  from spec why show ?thesis by (auto split: prod.split res.split)
qed

text \<open>A hash that keeps everything it is fed: it has the laws, and shows what was hashed.\<close>

definition ref_sha :: "u8 list sha256" where
  "ref_sha = \<lparr>sha_new = [], sha_update = (\<lambda>h bs. h @ bs), sha_finalize = (\<lambda>h. h)\<rparr>"

theorem hash_preloaded_hashes_target_witness:
  "case hash_preloaded word_core ref_idf sim_nor ref_sha 6000 \<lparr>storage = stored (\<lambda>_. 0xFF) 0xF000 (entry_encode word_core 2)\<rparr> of
      (Ok (slot, digest), s') \<Rightarrow> storage s' = stored (\<lambda>_. 0xFF) 0xF000 (entry_encode word_core 2) \<and>
         (\<exists>off. digest = slice_at (stored (\<lambda>_. 0xFF) 0xF000 (entry_encode word_core 2)) off 6000)
    | (Err e, s') \<Rightarrow> storage s' = stored (\<lambda>_. 0xFF) 0xF000 (entry_encode word_core 2) \<and>
         (case write_target_locked word_core ref_idf sim_nor \<lparr>storage = stored (\<lambda>_. 0xFF) 0xF000 (entry_encode word_core 2)\<rparr> of
            (Ok p, t) \<Rightarrow> e = (if ap_size p < 6000 then TooLarge else PL_Flash) | (Err _, t) \<Rightarrow> e = NoTarget | (Panic, t) \<Rightarrow> False)
    | (Panic, s') \<Rightarrow> False"
proof -
  have "sha_laws ref_sha" by (simp add: sha_laws_def ref_sha_def)
  from hash_preloaded_hashes_target [OF ref_idf_laws sim_nor_laws this, where core = word_core and sz = 6000 and
      s = "\<lparr>storage = stored (\<lambda>_. 0xFF) 0xF000 (entry_encode word_core 2)\<rparr>"]
  show ?thesis by (auto simp: ref_sha_def split: prod.splits res.splits)
qed

section \<open>Writing blocks and erasing ranges\<close>

text \<open>C18: \<open>EspArtifactStorage::write\<close>, in the mode that erases, stores exactly the whole erase blocks of
  the pending bytes and returns the advanced offset; the rest of flash is unchanged.  When it fails,
  some whole blocks are stored, at most the one block after them, inside the partition, is in
  doubt, and only when a flash command failed.  It never panics, for any offset.\<close>

theorem storage_write_stores_blocks:
  fixes pending :: "u8 list"
  assumes "nor_laws F view" and "opened F base n True s"
  defines "whole \<equiv> length pending div ERASE_SIZE F * ERASE_SIZE F"
  shows "case storage_write F d pending s of
      (Ok r, s') \<Rightarrow> r = d + of_nat whole \<and>
         view (as_flash s') = stored (view (as_flash s)) (base + of_nat (unat d)) (take whole pending) \<and>
         (0 < whole \<longrightarrow> unat d + whole \<le> n)
    | (Err e, s') \<Rightarrow> (\<exists>k \<le> whole. k mod ERASE_SIZE F = 0 \<and>
         (let U = stored (view (as_flash s)) (base + of_nat (unat d)) (take k pending) in
          view (as_flash s') = U \<or> e = FW_Flash \<and> unat d + k + ERASE_SIZE F \<le> n \<and>
            same_outside (region (base + of_nat (unat d + k)) (ERASE_SIZE F)) U (view (as_flash s')))) \<and>
         same_outside (region base n) (view (as_flash s)) (view (as_flash s'))
    | (Panic, s') \<Rightarrow> False"
proof -
  have prep: "prepared True (view (as_flash s)) (base + of_nat (unat d)) m" for m by (simp add: prepared_def)
  have blocks: "k \<le> whole" if "k \<le> length pending" "k mod ERASE_SIZE F = 0" for k
  proof -
    have "k div ERASE_SIZE F * ERASE_SIZE F \<le> whole"
      unfolding whole_def by (intro mult_le_mono1 div_le_mono that(1))
    moreover have "k div ERASE_SIZE F * ERASE_SIZE F = k" using div_mult_mod_eq [of k "ERASE_SIZE F"] that(2) by simp
    ultimately show ?thesis by simp
  qed
  have err: "(\<exists>k \<le> whole. k mod ERASE_SIZE F = 0 \<and>
         (let U = stored (view (as_flash s)) (base + of_nat (unat d)) (take k pending) in
          W = U \<or> e = FW_Flash \<and> unat d + k + ERASE_SIZE F \<le> n \<and>
            same_outside (region (base + of_nat (unat d + k)) (ERASE_SIZE F)) U W))"
    if failed: "write_failed F base n d pending (view (as_flash s)) e W" for e W
  proof -
    from failed obtain k U where k: "stored_to F base n d pending (view (as_flash s)) k U"
      and W: "W = U \<or> e = FW_Flash \<and> unat d + k + ERASE_SIZE F \<le> n \<and>
        same_outside (region (base + of_nat (unat d + k)) (ERASE_SIZE F)) U W"
      unfolding write_failed_def by blast
    from k have k1: "k \<le> length pending" "k mod ERASE_SIZE F = 0"
      and U: "U = stored (view (as_flash s)) (base + of_nat (unat d)) (take k pending)"
      unfolding stored_to_def by blast+
    show ?thesis
      unfolding Let_def by (intro exI [of _ k] conjI blocks [OF k1] k1(2)) (use W in \<open>simp only: U\<close>)
  qed
  obtain r s' where run: "storage_write F d pending s = (r, s')" by (cases "storage_write F d pending s")
  have pre: "view (as_flash s) = view (as_flash s) \<and> opened F base n True s" using assms(2) by simp
  note res = tripleD [OF storage_write_triple [OF assms(1) prep, where pending = pending] pre, unfolded run prod.case]
  show ?thesis
  proof (cases r)
    case (Ok x)
    then show ?thesis using res run by (auto simp: stored_to_def whole_def)
  next
    case (Err e)
    with res have "write_failed F base n d pending (view (as_flash s)) e (view (as_flash s'))" by auto
    then show ?thesis using Err run err write_failed_outside by auto
  qed (use res run in auto)
qed

theorem storage_write_stores_blocks_witness:
  "case storage_write sim_nor 0x1000 (replicate 5000 3)
      \<lparr>as_flash = (\<lambda>_. 7), partition_offset = 0x120000, partition_size = 0x100000, scratch = replicate 0x1000 0, erase_before_write = True\<rparr> of
      (Ok r, s') \<Rightarrow> r = 0x2000 \<and> as_flash s' = stored (\<lambda>_. 7) 0x121000 (replicate 0x1000 3)
    | (Err e, s') \<Rightarrow> same_outside (region 0x120000 0x100000) (\<lambda>_. 7) (as_flash s')
    | (Panic, s') \<Rightarrow> False"
proof -
  let ?s = "\<lparr>as_flash = (\<lambda>_. 7), partition_offset = 0x120000, partition_size = 0x100000, scratch = replicate 0x1000 0, erase_before_write = True\<rparr>"
  have "opened sim_nor 0x120000 0x100000 True ?s" by (simp add: opened_def sim_nor_def)
  from storage_write_stores_blocks [OF sim_nor_laws this, where d = "0x1000" and pending = "replicate 5000 3"]
  moreover have "ERASE_SIZE sim_nor = 0x1000" by (simp add: sim_nor_def)
  ultimately show ?thesis by (auto split: prod.splits res.splits)
qed

text \<open>C19: \<open>flush_block\<close> refuses a block with the error of the first check that fails (too long, offset
  beyond the address space, unaligned, past the partition, past 32 bits) before any flash command:
  flash is then unchanged.  A block that passes is written with zeros up to the write unit, and only a
  failing flash command, with the error \<open>Flash\<close>, can spoil its own erase block.\<close>

theorem flush_block_errors:
  assumes "nor_laws F view" and "opened F base n mode s"
  shows "case flush_block F logical bytes s of
      (Ok _, s') \<Rightarrow> block_refused (ERASE_SIZE F) base n logical (length bytes) = None \<and>
         view (as_flash s') = block_written F mode (view (as_flash s)) (base + of_nat (unat logical)) bytes
    | (Err e, s') \<Rightarrow> (case block_refused (ERASE_SIZE F) base n logical (length bytes) of
           Some e' \<Rightarrow> e = e' \<and> view (as_flash s') = view (as_flash s)
         | None \<Rightarrow> e = FW_Flash \<and> same_outside (region (base + of_nat (unat logical)) (ERASE_SIZE F))
                      (view (as_flash s)) (view (as_flash s')))
    | (Panic, s') \<Rightarrow> False"
proof -
  have pre: "view (as_flash s) = view (as_flash s) \<and> opened F base n mode s" using assms(2) by simp
  show ?thesis
    using tripleD [OF flush_block_triple [OF assms(1), where logical = logical and bytes = bytes] pre]
    by (auto split: prod.splits res.splits)
qed

theorem flush_block_errors_witness:
  "block_refused (ERASE_SIZE sim_nor) 0x120000 0x100000 0x800 16 = Some FW_Unaligned \<and>
   (case flush_block sim_nor 0x800 (replicate 16 5)
        \<lparr>as_flash = (\<lambda>_. 7), partition_offset = 0x120000, partition_size = 0x100000, scratch = replicate 0x1000 0, erase_before_write = False\<rparr> of
      (Ok _, s') \<Rightarrow> False | (Err e, s') \<Rightarrow> e = FW_Unaligned \<and> as_flash s' = (\<lambda>_. 7) | (Panic, s') \<Rightarrow> False)"
proof -
  let ?s = "\<lparr>as_flash = (\<lambda>_. 7), partition_offset = 0x120000, partition_size = 0x100000, scratch = replicate 0x1000 0, erase_before_write = False\<rparr>"
  have "opened sim_nor 0x120000 0x100000 False ?s" by (simp add: opened_def sim_nor_def)
  note run = flush_block_errors [OF sim_nor_laws this, where logical = "0x800" and bytes = "replicate 16 5"]
  have "block_refused (ERASE_SIZE sim_nor) 0x120000 0x100000 0x800 16 = Some FW_Unaligned"
    by (simp add: block_refused_def sim_nor_def usize_limit_def)
  with run show ?thesis by (auto split: prod.splits res.splits)
qed

text \<open>C20: \<open>erase_range\<close> accepts a range exactly when its ends are ordered, erase-aligned, inside the
  partition and, unless it is empty, below 2^32 in flash.  Otherwise it returns the error of the first check that fails,
  and the driver is not called.  An accepted empty range returns at once, again without a call; any other is one erase
  call of the driver, with the two ends as addresses that did not wrap, whose outcome is returned with its error mapped
  to \<open>Flash\<close>.  So on success exactly that range is erased, on failure at most bytes of it changed, and it lies in the partition.\<close>

theorem erase_range_bounds:
  fixes part :: partition_range and lf lt :: u64
  assumes "nor_laws F view"
  defines "refused \<equiv> erase_refused (ERASE_SIZE F) part lf lt"
    and "a \<equiv> pr_offset part + of_nat (unat lf)" and "b \<equiv> pr_offset part + of_nat (unat lt)"
  shows "(refused = None \<longleftrightarrow> lf \<le> lt \<and> unat lf mod ERASE_SIZE F = 0 \<and> unat lt mod ERASE_SIZE F = 0 \<and> unat lt < 2 ^ 32 \<and>
      unat lt \<le> pr_size part \<and> (lf < lt \<longrightarrow> unat (pr_offset part) + unat lt < 2 ^ 32)) \<and>
    erase_range F part lf lt f = (case refused of
      Some e \<Rightarrow> (Err e, f)
    | None \<Rightarrow> if lf = lt then (Ok (), f) else map_err (\<lambda>_. PE_Flash) (nf_erase F a b) f) \<and>
    (refused = None \<longrightarrow> lf < lt \<longrightarrow> unat a = unat (pr_offset part) + unat lf \<and> unat b = unat (pr_offset part) + unat lt) \<and>
    (refused = None \<longrightarrow> region a (unat lt - unat lf) \<subseteq> region (pr_offset part) (pr_size part) \<and>
      (case erase_range F part lf lt f of
         (Ok _, f') \<Rightarrow> view f' = erased (view f) a (unat lt - unat lf)
       | (Err _, f') \<Rightarrow> same_outside (region a (unat lt - unat lf)) (view f) (view f')
       | (Panic, f') \<Rightarrow> False))"
proof (intro conjI impI)
  have order: "lt < lf \<longleftrightarrow> \<not> lf \<le> lt" "lf < lt \<longleftrightarrow> lf \<le> lt \<and> lf \<noteq> lt" by auto
  show accepted: "refused = None \<longleftrightarrow> lf \<le> lt \<and> unat lf mod ERASE_SIZE F = 0 \<and> unat lt mod ERASE_SIZE F = 0 \<and> unat lt < 2 ^ 32 \<and>
      unat lt \<le> pr_size part \<and> (lf < lt \<longrightarrow> unat (pr_offset part) + unat lt < 2 ^ 32)"
    unfolding refused_def erase_refused_def order by (auto simp: usize_limit_def)
  show "erase_range F part lf lt f = (case refused of
      Some e \<Rightarrow> (Err e, f)
    | None \<Rightarrow> if lf = lt then (Ok (), f) else map_err (\<lambda>_. PE_Flash) (nf_erase F a b) f)"
    unfolding refused_def a_def b_def by (rule erase_range_cases [OF nor_sizes(2) [OF assms(1)]])
  assume none: "refused = None"
  show "region a (unat lt - unat lf) \<subseteq> region (pr_offset part) (pr_size part)"
    unfolding a_def by (rule erase_accepted_inside [OF none [unfolded refused_def]])
  show "case erase_range F part lf lt f of
         (Ok _, f') \<Rightarrow> view f' = erased (view f) a (unat lt - unat lf)
       | (Err _, f') \<Rightarrow> same_outside (region a (unat lt - unat lf)) (view f) (view f')
       | (Panic, f') \<Rightarrow> False"
    using tripleD [OF erase_range_triple [OF assms(1), of "view f" part lf lt], of f] unfolding a_def
    by (auto split: prod.splits res.splits)
  assume less: "lf < lt"
  have small: "unat (pr_offset part) + unat lt < 2 ^ 32" "unat lf \<le> unat lt"
    using accepted none less by (auto simp: word_less_nat_alt)
  have sum: "unat (pr_offset part + of_nat n) = unat (pr_offset part) + n" if "unat (pr_offset part) + n < 2 ^ 32" for n
    using that by (simp add: unat_word_ariths unat_of_nat)
  show "unat a = unat (pr_offset part) + unat lf" "unat b = unat (pr_offset part) + unat lt"
    unfolding a_def b_def using small by (simp_all only: sum)
qed

theorem erase_range_bounds_witness:
  "erase_range sim_nor \<lparr>pr_offset = 0x120000, pr_size = 0x100000\<rparr> 0x1000 0x3000 (\<lambda>_. 7) =
     (Ok (), erased (\<lambda>_. 7) 0x121000 0x2000) \<and>
   (case erase_range sim_nor \<lparr>pr_offset = 0x120000, pr_size = 0x100000\<rparr> 0x1000 0x101000 (\<lambda>_. 7) of
      (Ok _, f') \<Rightarrow> False | (Err e, f') \<Rightarrow> e = PE_AddressOverflow \<and> f' = (\<lambda>_. 7) | (Panic, f') \<Rightarrow> False)"
proof (rule conjI)
  let ?part = "\<lparr>pr_offset = 0x120000, pr_size = 0x100000\<rparr>"
  have "erase_refused (ERASE_SIZE sim_nor) ?part 0x1000 0x101000 = Some PE_AddressOverflow"
    by (simp add: erase_refused_def sim_nor_def usize_limit_def)
  with erase_range_bounds [OF sim_nor_laws, of ?part "0x1000" "0x101000" "\<lambda>_. 7"]
  show "case erase_range sim_nor ?part 0x1000 0x101000 (\<lambda>_. 7) of
      (Ok _, f') \<Rightarrow> False | (Err e, f') \<Rightarrow> e = PE_AddressOverflow \<and> f' = (\<lambda>_. 7) | (Panic, f') \<Rightarrow> False"
    by (auto split: prod.splits res.splits)
  show "erase_range sim_nor ?part 0x1000 0x3000 (\<lambda>_. 7) = (Ok (), erased (\<lambda>_. 7) 0x121000 0x2000)"
    by (simp add: erase_range_cases erase_refused_def sim_nor_def usize_limit_def map_err_def sim_fits_def)
qed

section \<open>Status and drivers\<close>

text \<open>Every decoded entry that is reported is one with the highest sequence number.\<close>

lemma boot_entry_newest:
  "boot_entry core raws = Some i \<Longrightarrow> \<exists>e \<in> set (decoded_entries core raws).
     (\<forall>x \<in> set (decoded_entries core raws). entry_seq core x \<le> entry_seq core e) \<and>
     i = \<lparr>be_slot = slot_name (slot_of core (entry_seq core e) 2), be_seq = entry_seq core e,
          be_state = state_name core (entry_state core e)\<rparr>"
  by (auto simp: boot_entry_def OTA_SLOT_COUNT_def dest!: max_by_key_spec)

lemma has_state_iff: "has_state core raws w \<longleftrightarrow> (\<exists>e \<in> set (decoded_entries core raws). entry_state core e = w)"
proof -
  have "(case d of Decoded_Ok e \<Rightarrow> P e | Decoded_Other \<Rightarrow> False) = (\<exists>e. d = Decoded_Ok e \<and> P e)" for d :: "'a decoded" and P
    by (cases d) simp_all
  note by_entry = this
  show ?thesis unfolding has_state_def list_ex_iff by_entry Bex_def set_decoded_entries by blast
qed

lemma status_triple:
  assumes "idf_laws I view parse" and "nor_laws F view"
  shows "triple (\<lambda>s. view (storage s) = V)
     (andthen (attempt (with_storage (read_entries core I F))) (\<lambda>r. return (g r)))
     (\<lambda>a s. view (storage s) = V \<and> (a = g (Inl Unavailable) \<or>
        (\<exists>b. otadata_base I (parse V) = Some b \<and> a = g (Inr (entries_at core V b))))) (\<lambda>_ _. False)"
proof (rule triple_andthen)
  show "triple (\<lambda>s. view (storage s) = V) (attempt (with_storage (read_entries core I F)))
     (\<lambda>r s. view (storage s) = V \<and> (r = Inl Unavailable \<or> (\<exists>b. otadata_base I (parse V) = Some b \<and> r = Inr (entries_at core V b))))
     (\<lambda>_ _. False)"
    by (rule triple_attempt, rule triple_conseq [OF triple_with_storage [OF read_entries_triple [OF assms(1,2), of V core]]]) auto
qed (auto intro: triple_return)

lemma status_run:
  assumes "idf_laws I view parse" and "nor_laws F view"
  shows "\<exists>a s'. andthen (attempt (with_storage (read_entries core I F))) (\<lambda>r. return (g r)) s = (Ok a, s') \<and>
     view (storage s') = view (storage s) \<and> (a = g (Inl Unavailable) \<or>
        (\<exists>b. otadata_base I (parse (view (storage s))) = Some b \<and> a = g (Inr (entries_at core (view (storage s)) b))))"
  using tripleD [OF status_triple [OF assms, of "view (storage s)" core g], of s]
  by (auto split: prod.splits res.splits)

definition outcome_says :: "'e boot_core \<Rightarrow> 'e list \<Rightarrow> backend_outcome" where
  "outcome_says core es =
     (if \<exists>e \<in> set es. entry_state core e = state_PENDING_VERIFY core then PendingConfirmation
      else if \<exists>e \<in> set es. entry_state core e = state_VALID core then Confirmed else Outcome_Other)"

definition unknown_entry :: boot_entry_info where
  "unknown_entry = \<lparr>be_slot = '''', be_seq = 0, be_state = ''unknown''\<rparr>"

definition entry_says :: "'e boot_core \<Rightarrow> 'e list \<Rightarrow> boot_entry_info \<Rightarrow> bool" where
  "entry_says core es i \<longleftrightarrow> (es = [] \<and> i = unknown_entry) \<or>
     (\<exists>e \<in> set es. (\<forall>x \<in> set es. entry_seq core x \<le> entry_seq core e) \<and>
        i = \<lparr>be_slot = slot_name (slot_of core (entry_seq core e) 2), be_seq = entry_seq core e,
             be_state = state_name core (entry_state core e)\<rparr>)"

lemma image_outcome_says: "image_outcome core raws = outcome_says core (decoded_entries core raws)"
  by (simp add: image_outcome_def outcome_says_def has_state_iff)

lemma boot_entry_says:
  "entry_says core (decoded_entries core raws) (case boot_entry core raws of None \<Rightarrow> unknown_entry | Some e \<Rightarrow> e)"
proof (cases "boot_entry core raws")
  case None
  then show ?thesis by (simp add: entry_says_def boot_entry_def max_by_key_None)
next
  case (Some i)
  from boot_entry_newest [OF this] Some show ?thesis by (simp add: entry_says_def)
qed

text \<open>The status queries cannot fail and change nothing.  When otadata is readable, the outcome of the
  running image is that a confirmation is pending if some decodable entry says so, else confirmed if some
  entry is valid, else other, and \<open>boot_info\<close> reports a decodable entry with the highest sequence
  number, or the unknown entry when there is none; when it is not readable they are other and unknown.\<close>

theorem status_reports_entries:
  assumes "idf_laws I view parse" and "nor_laws F view"
  shows "(\<exists>r s'. shared_image_outcome core I F s = (Ok r, s') \<and> view (storage s') = view (storage s) \<and>
      (r = Outcome_Other \<or> (\<exists>b. otadata_base I (parse (view (storage s))) = Some b \<and>
         r = outcome_says core (decoded_entries core (entries_at core (view (storage s)) b))))) \<and>
    (\<exists>i s'. boot_info core I F s = (Ok i, s') \<and> view (storage s') = view (storage s) \<and>
      (i = unknown_entry \<or> (\<exists>b. otadata_base I (parse (view (storage s))) = Some b \<and>
         entry_says core (decoded_entries core (entries_at core (view (storage s)) b)) i)))"
proof (rule conjI)
  let ?V = "view (storage s)"
  show "\<exists>r s'. shared_image_outcome core I F s = (Ok r, s') \<and> view (storage s') = ?V \<and>
      (r = Outcome_Other \<or> (\<exists>b. otadata_base I (parse ?V) = Some b \<and>
         r = outcome_says core (decoded_entries core (entries_at core ?V b))))"
    using status_run [OF assms, where core = core and s = s and
        g = "\<lambda>r. case r of Inl _ \<Rightarrow> Outcome_Other | Inr entries \<Rightarrow> image_outcome core entries"]
    by (simp add: shared_image_outcome_def image_outcome_says)
  let ?g = "\<lambda>r :: otadata_error + u8 list list. case r of Inl _ \<Rightarrow> unknown_entry
     | Inr entries \<Rightarrow> (case boot_entry core entries of None \<Rightarrow> unknown_entry | Some e \<Rightarrow> e)"
  have as_status: "boot_info core I F = andthen (attempt (with_storage (read_entries core I F))) (\<lambda>r. return (?g r))"
    unfolding boot_info_def Let_def unknown_entry_def by (rule refl)
  have "\<exists>i s'. boot_info core I F s = (Ok i, s') \<and> view (storage s') = ?V \<and>
      (i = ?g (Inl Unavailable) \<or> (\<exists>b. otadata_base I (parse ?V) = Some b \<and> i = ?g (Inr (entries_at core ?V b))))"
    unfolding as_status by (rule status_run [OF assms])
  then obtain i s' where run: "boot_info core I F s = (Ok i, s')" "view (storage s') = ?V"
    and i: "i = unknown_entry \<or> (\<exists>b. otadata_base I (parse ?V) = Some b \<and> i = ?g (Inr (entries_at core ?V b)))"
    by auto
  from i have "i = unknown_entry \<or> (\<exists>b. otadata_base I (parse ?V) = Some b \<and>
      entry_says core (decoded_entries core (entries_at core ?V b)) i)"
    using boot_entry_says [of core] by auto
  with run show "\<exists>i s'. boot_info core I F s = (Ok i, s') \<and> view (storage s') = ?V \<and>
      (i = unknown_entry \<or> (\<exists>b. otadata_base I (parse ?V) = Some b \<and>
         entry_says core (decoded_entries core (entries_at core ?V b)) i))" by blast
qed

theorem status_reports_entries_witness:
  "(\<exists>r s'. shared_image_outcome word_core ref_idf sim_nor \<lparr>storage = \<lambda>_. 7\<rparr> = (Ok r, s') \<and> storage s' = (\<lambda>_. 7) \<and>
      (r = Outcome_Other \<or> r = outcome_says word_core (decoded_entries word_core (entries_at word_core (\<lambda>_. 7) 0xF000)))) \<and>
   (\<exists>i s'. boot_info word_core ref_idf sim_nor \<lparr>storage = \<lambda>_. 7\<rparr> = (Ok i, s') \<and> storage s' = (\<lambda>_. 7) \<and>
      (i = unknown_entry \<or> entry_says word_core (decoded_entries word_core (entries_at word_core (\<lambda>_. 7) 0xF000)) i))"
proof -
  have base: "otadata_base ref_idf () = Some b \<longleftrightarrow> b = 0xF000" for b by (auto simp: otadata_base_def ref_idf_def)
  show ?thesis
    using status_reports_entries [OF ref_idf_laws sim_nor_laws, where core = word_core and s = "\<lparr>storage = \<lambda>_. 7\<rparr>"]
    by (simp add: base)
qed

end
