(* ===== verification/Update_Boot.thy ===== *)
theory Update_Boot
  imports Boot_Theorems Ota_Theorems
begin

text \<open>
  The two programs together: what the application writes with \<open>adapters/ota\<close> is what the bootloader of
  \<open>bootloader/esp\<close> finds after the reset.  The application sees flash through its driver \<open>F\<close> and the table
  through the parser of \<open>esp-bootloader-esp-idf\<close>; the bootloader sees the same bytes through the ROM and reads
  the table itself.
\<close>

section \<open>One table, two readers\<close>

text \<open>
  The partition table lies in its own range and its partitions are apart from each other; the library's
  parser depends on the table's bytes alone and finds what the bootloader finds.
\<close>

definition app_region :: "layout \<Rightarrow> nat \<Rightarrow> u32 set" where
  "app_region lay i = region (fst (apps lay ! i)) (unat (snd (apps lay ! i)))"

definition entry_sectors :: "layout \<Rightarrow> u32 set" where
  "entry_sectors lay = region (fst (otadata lay)) 0x2000"

definition table_region :: "u32 set" where
  "table_region = region PARTITION_TABLE_OFFSET PARTITION_TABLE_LEN"

definition layout_apart :: "layout \<Rightarrow> bool" where
  "layout_apart lay \<longleftrightarrow> fst (otadata lay) AND 0xFFF = 0 \<and> table_region \<inter> entry_sectors lay = {} \<and>
     (\<forall>i < 2. app_region lay i \<inter> table_region = {} \<and> app_region lay i \<inter> entry_sectors lay = {})"

definition same_table :: "('f, 't) idf \<Rightarrow> (mem \<Rightarrow> 't) \<Rightarrow> mem \<Rightarrow> layout \<Rightarrow> bool" where
  "same_table I parse V lay \<longleftrightarrow> table_spec (table_at V) = Inr lay \<and>
     otadata_base I (parse V) = Some (fst (otadata lay)) \<and> (\<forall>W. table_at W = table_at V \<longrightarrow> parse W = parse V)"

definition slot_index :: "app_slot \<Rightarrow> nat" where
  "slot_index slot = (case slot of Ota0 \<Rightarrow> 0 | Ota1 \<Rightarrow> 1)"

definition partition_of :: "layout \<Rightarrow> app_slot \<Rightarrow> app_partition" where
  "partition_of lay slot = \<lparr>ap_slot = slot, ap_offset = fst (apps lay ! slot_index slot),
     ap_size = unat (snd (apps lay ! slot_index slot))\<rparr>"

lemma slot_index_less: "slot_index slot < 2"
  by (simp add: slot_index_def split: app_slot.splits)

lemma region_of_partition: "region (ap_offset (partition_of lay slot)) (ap_size (partition_of lay slot)) = app_region lay (slot_index slot)"
  by (simp add: partition_of_def app_region_def)

lemma apart_facts:
  assumes "layout_apart lay" and "i < 2"
  shows "fst (otadata lay) AND 0xFFF = 0" "entry_sectors lay \<inter> table_region = {}" "app_region lay i \<inter> table_region = {}"
    "app_region lay i \<inter> entry_sectors lay = {}" "entry_sectors lay \<inter> app_region lay i = {}"
  using assms by (auto simp: layout_apart_def)

section \<open>What a change outside leaves alone\<close>

lemma table_kept: "same_outside A V W \<Longrightarrow> A \<inter> table_region = {} \<Longrightarrow> table_at W = table_at V"
  unfolding table_at_def table_region_def by (rule same_outside_slice)

lemma entry_sector_inside:
  assumes "i < 2" shows "region (entry_base (fst (otadata lay)) i) 0x1000 \<subseteq> entry_sectors lay"
proof -
  have "of_nat i * 0x1000 = (of_nat (i * 0x1000) :: u32)" by simp
  moreover have "unat (of_nat (i * 0x1000) :: u32) = i * 0x1000" using assms by (intro unat_of_nat_usize) (simp add: usize_limit_def)
  ultimately have "unat (of_nat i * 0x1000 :: u32) + 0x1000 \<le> 0x2000" using assms by simp
  then show ?thesis unfolding entry_sectors_def entry_base_def SECTOR_SIZE_def by (rule region_subset)
qed

lemma entries_kept:
  assumes "same_outside A V W" and "A \<inter> entry_sectors lay = {}" and "length (BLANK core) \<le> 0x1000"
  shows "entries_at core W (fst (otadata lay)) = entries_at core V (fst (otadata lay))"
proof -
  have "slice_at W (entry_base (fst (otadata lay)) i) (length (BLANK core)) = slice_at V (entry_base (fst (otadata lay)) i) (length (BLANK core))"
    if "i < 2" for i
  proof (rule same_outside_slice [OF assms(1)])
    have "region (entry_base (fst (otadata lay)) i) (length (BLANK core)) \<subseteq> entry_sectors lay"
      using region_mono [OF assms(3)] entry_sector_inside [OF that] by blast
    with assms(2) show "A \<inter> region (entry_base (fst (otadata lay)) i) (length (BLANK core)) = {}" by blast
  qed
  then show ?thesis by (simp add: entries_at_def)
qed

lemma image_kept:
  assumes "same_outside A V W" and "A \<inter> app_region lay (slot_index slot) = {}" and "n \<le> ap_size (partition_of lay slot)"
  shows "slice_at W (ap_offset (partition_of lay slot)) n = slice_at V (ap_offset (partition_of lay slot)) n"
proof (rule same_outside_slice [OF assms(1)])
  have "region (ap_offset (partition_of lay slot)) n \<subseteq> app_region lay (slot_index slot)"
    using region_mono [OF assms(3)] region_of_partition by metis
  with assms(2) show "A \<inter> region (ap_offset (partition_of lay slot)) n = {}" by blast
qed

section \<open>The application's side\<close>

text \<open>An upload that was finished, and the activation of its slot.\<close>

lemma upload_finished:
  assumes "nor_laws F view" and "session_laws E acc ok" and "started E acc ok g" and "ap_size part < usize_limit"
    and "append_all E F chunks (upload_start F part g f) = (Ok True, s)" and "aw_finish E F s = (Ok c, t)"
  shows "slice_at (view (up_flash t)) (ap_offset part) (length (concat chunks)) = concat chunks"
    and "same_outside (region (ap_offset part) (ap_size part)) (view f) (view (up_flash t))"
    and "length (concat chunks) \<le> ap_size part"
proof -
  have "up_inv E acc ok F view part (view f) [] (upload_start F part g f)"
    unfolding upload_start_def by (rule new_writer_inv) (rule assms(3))
  from tripleD [OF append_all_triple [OF assms(1,2,4), of "view f" "[]" chunks] this]
  have inv: "up_inv E acc ok F view part (view f) (concat chunks) s" by (simp add: assms(5))
  note done_with = tripleD [OF finish_triple [OF assms(1,2,4)] this, unfolded assms(6) prod.case res.case up_safe_def]
  show "slice_at (view (up_flash t)) (ap_offset part) (length (concat chunks)) = concat chunks"
    and "same_outside (region (ap_offset part) (ap_size part)) (view f) (view (up_flash t))"
    using done_with by blast+
  show "length (concat chunks) \<le> ap_size part" by (rule finish_covered [OF assms(2) inv assms(6)])
qed

lemma activated:
  assumes I: "idf_laws I view parse" and F: "nor_laws F view" and tab: "same_table I parse (view f) lay"
    and apart: "layout_apart lay" and size: "length (BLANK core) = ENTRY_SIZE core" "ENTRY_SIZE core \<le> 0x1000"
    and choice: "sound_choice core (\<lambda>es. core_activate core es 2 (of_nat (slot_index slot)))"
    and run: "activate core I F slot f = (Ok u, f')"
  shows "\<exists>wr. core_activate core (entries_at core (view f) (fst (otadata lay))) 2 (of_nat (slot_index slot)) = Some wr \<and>
    entries_at core (view f') (fst (otadata lay)) =
      (entries_at core (view f) (fst (otadata lay)))[unat (write_sector wr) := entry_encode core (write_entry wr)] \<and>
    same_outside (entry_sectors lay) (view f) (view f')"
proof -
  let ?pick = "\<lambda>es. core_activate core es 2 (of_nat (slot_index slot))"
  have base: "otadata_base I (parse (view f)) = Some (fst (otadata lay))" using tab unfolding same_table_def by blast
  have al: "b AND 0xFFF = 0" if "otadata_base I (parse (view f)) = Some b" for b
    using that base apart by (simp add: layout_apart_def)
  have "activate core I F slot = transition core I F ?pick"
    by (cases slot) (simp_all add: transitions OTA_SLOT_COUNT_def slot_index_def)
  with transition_outcomes [OF I F choice al size, of f] run
  have "transition_outcome core (Some (fst (otadata lay))) ?pick (view f) (Ok u) (view f')" by (simp add: base)
  then obtain wr where wr: "?pick (entries_at core (view f) (fst (otadata lay))) = Some wr"
    "entries_at core (view f') (fst (otadata lay)) =
      (entries_at core (view f) (fst (otadata lay)))[unat (write_sector wr) := entry_encode core (write_entry wr)]"
    "same_outside (region (entry_base (fst (otadata lay)) (unat (write_sector wr))) 0x1000) (view f) (view f')"
    by (auto simp: transition_outcome_def)
  have "unat (write_sector wr) < 2" using choice wr(1) unfolding sound_choice_def by blast
  from same_outside_mono [OF wr(3) entry_sector_inside [OF this]] wr(1,2) show ?thesis by blast
qed

section \<open>The bootloader's side\<close>

lemma read_otadata_triple:
  assumes "rom_flash_laws rom v"
  shows "triple (\<lambda>s. v (dev s) = V) (read_otadata core rom lay)
    (\<lambda>raws s. v (dev s) = V \<and> raws = entries_at core V (fst (otadata lay))) (\<lambda>_ s. v (dev s) = V)"
proof -
  have entry: "triple (\<lambda>s. v (dev s) = V) (boot_flash_read rom a (BLANK core))
      (\<lambda>out s. out = slice_at V a (length (BLANK core)) \<and> v (dev s) = V) (\<lambda>_ s. v (dev s) = V)" for a
    by (rule triple_conseq [OF boot_flash_read_triple [OF assms, of V]]) auto
  show ?thesis
    unfolding read_otadata_def collect.simps
    by (rule triple_andthen [OF entry], rule triple_pure, (rule triple_andthen [where R = "\<lambda>as s. as = [_] \<and> v (dev s) = V"],
        rule triple_andthen [OF entry], rule triple_pure, simp add: monad, rule triple_return, simp), rule triple_pure, rule triple_return)
      (simp add: entries_at_def entry_base_def SECTOR_SIZE_def SECTOR_def)
qed

text \<open>Reading the entries fails only when the ROM cannot read one of the two.\<close>

lemma errs_collect: "(\<And>x. x \<in> set xs \<Longrightarrow> errs P (f x)) \<Longrightarrow> errs P (collect xs f)"
  by (induction xs) (auto intro!: errs_intro)

lemma read_otadata_errs:
  assumes "rom_flash_laws rom v"
  shows "errs (\<lambda>e. \<exists>i < 2. read_back_error rom (fst (otadata lay) + of_nat i * SECTOR) (length (BLANK core)) e) (read_otadata core rom lay)"
  unfolding read_otadata_def
proof (rule errs_collect)
  fix i :: nat assume "i \<in> set [0, 1]"
  then have "i < 2" by auto
  then show "errs (\<lambda>e. \<exists>i < 2. read_back_error rom (fst (otadata lay) + of_nat i * SECTOR) (length (BLANK core)) e)
      (boot_flash_read rom (fst (otadata lay) + of_nat i * SECTOR) (BLANK core))"
    by (intro errs_mono [OF errs_boot_flash_read [OF assms]]) blast
qed

text \<open>What the reset finds, from what the application left.\<close>

lemma boot_keeps_image:
  assumes laws: "rom_flash_laws rom v" "policy_laws core pol" and tab: "table_spec (table_at (v (dev b))) = Inr lay"
    and apart: "layout_apart lay" and n: "n \<le> ap_size (partition_of lay slot)"
  shows "slice_at (v (dev (snd (boot c core pol rom b)))) (ap_offset (partition_of lay slot)) n =
    slice_at (v (dev b)) (ap_offset (partition_of lay slot)) n \<and> fst (boot c core pol rom b) \<noteq> Panic"
proof -
  note facts = apart_facts [OF apart slot_index_less [of slot]]
  have region: "otadata_region (v (dev b)) = entry_sectors lay"
    using tab facts(1) by (simp add: otadata_region_def entry_sectors_def touched_def)
  obtain r b' where run: "boot c core pol rom b = (r, b')" by (metis surj_pair)
  from tripleD [OF boot_triple [OF laws, where R = "ram b" and c = c], where s = b]
  have "same_outside (entry_sectors lay) (v (dev b)) (v (dev b')) \<and> r \<noteq> Panic"
    by (simp add: run region split: res.splits)
  with image_kept [OF _ facts(5) n] run show ?thesis by simp
qed

text \<open>C14: an update reaches the bootloader.  The partition table is one both programs read alike: the
  application's parser depends on its bytes alone and finds the otadata partition the bootloader finds,
  and table, otadata (4 KiB aligned) and the two slots lie apart, as ESP-IDF lays them out; the code does not check
  that.  After an upload into a slot was finished and the slot activated,
  the bootloader that starts on that flash finds the same partition table; the boot entries it hands to
  fibewi are those the application saw before the upload with the one that fibewi chose for the
  activation replaced by its encoding; and reading the slot yields exactly the uploaded bytes.  Each of
  these three succeeds unless the ROM reports a failed read in the very range, so always when its reads
  succeed.  Whatever the boot then does, without a panic, the uploaded image is still there.\<close>

theorem update_reaches_bootloader:
  assumes app: "idf_laws I view parse" "nor_laws F view" "session_laws E acc ok" "started E acc ok g"
    and chip: "rom_flash_laws rom v" "policy_laws core pol"
    and table: "same_table I parse (view f) lay" "layout_apart lay"
    and core: "length (BLANK core) = ENTRY_SIZE core" "ENTRY_SIZE core \<le> 0x1000"
      "sound_choice core (\<lambda>es. core_activate core es 2 (of_nat (slot_index slot)))"
    and upload: "append_all E F chunks (upload_start F (partition_of lay slot) g f) = (Ok True, s)" "aw_finish E F s = (Ok done_with, t)"
    and activation: "activate core I F slot (up_flash t) = (Ok u, f')"
    and reset: "v (dev b) = view f'"
  defines "entries \<equiv> entries_at core (view f) (fst (otadata lay))"
    and "artifact \<equiv> concat chunks" and "offset \<equiv> fst (apps lay ! slot_index slot)"
  shows "(case read_layout rom b of
       (Ok found, b') \<Rightarrow> found = lay
     | (Err e, b') \<Rightarrow> read_back_error rom PARTITION_TABLE_OFFSET PARTITION_TABLE_LEN e | (Panic, b') \<Rightarrow> False) \<and>
    (\<exists>wr. core_activate core entries 2 (of_nat (slot_index slot)) = Some wr \<and>
      (case read_otadata core rom lay b of
         (Ok raws, b') \<Rightarrow> raws = entries[unat (write_sector wr) := entry_encode core (write_entry wr)]
       | (Err e, b') \<Rightarrow> (\<exists>i < 2. read_back_error rom (fst (otadata lay) + of_nat i * SECTOR) (length (BLANK core)) e)
       | (Panic, b') \<Rightarrow> False)) \<and>
    (case boot_flash_read rom offset (replicate (length artifact) 0) b of
       (Ok bytes, b') \<Rightarrow> bytes = artifact
     | (Err e, b') \<Rightarrow> read_back_error rom offset (length artifact) e | (Panic, b') \<Rightarrow> False) \<and>
    slice_at (v (dev (snd (boot c core pol rom b)))) offset (length artifact) = artifact \<and> fst (boot c core pol rom b) \<noteq> Panic"
proof -
  let ?part = "partition_of lay slot" and ?f1 = "up_flash t"
  note facts = apart_facts [OF table(2) slot_index_less [of slot]]
  have part: "ap_size ?part < usize_limit" by (simp add: partition_of_def)
  have off: "ap_offset ?part = offset" by (simp add: partition_of_def offset_def)
  note up = upload_finished [OF app(2,3,4) part upload, folded artifact_def]
  note up1 = up(2) [unfolded region_of_partition]
  have tab1: "table_at (view ?f1) = table_at (view f)" by (rule table_kept [OF up1 facts(3)])
  have same1: "same_table I parse (view ?f1) lay"
    using table(1) tab1 unfolding same_table_def by metis
  have ent1: "entries_at core (view ?f1) (fst (otadata lay)) = entries"
    unfolding entries_def by (rule entries_kept [OF up1 facts(4)]) (simp add: core)
  obtain wr where wr: "core_activate core entries 2 (of_nat (slot_index slot)) = Some wr"
    "entries_at core (view f') (fst (otadata lay)) = entries[unat (write_sector wr) := entry_encode core (write_entry wr)]"
    and keep2: "same_outside (entry_sectors lay) (view ?f1) (view f')"
    using activated [OF app(1,2) same1 table(2) core activation] unfolding ent1 by blast
  have tab2: "table_spec (table_at (v (dev b))) = Inr lay"
    using table_kept [OF keep2 facts(2)] tab1 table(1) reset by (simp add: same_table_def)
  have img: "slice_at (v (dev b)) offset (length artifact) = artifact"
    using image_kept [OF keep2 facts(5) up(3)] up(1) reset off by simp
  have "case read_layout rom b of (Ok found, b') \<Rightarrow> found = lay
    | (Err e, b') \<Rightarrow> read_back_error rom PARTITION_TABLE_OFFSET PARTITION_TABLE_LEN e | (Panic, b') \<Rightarrow> False"
    using read_layout_outcome [OF chip(1), of b] tab2 by (auto split: prod.splits res.splits)
  moreover have "case read_otadata core rom lay b of
      (Ok raws, b') \<Rightarrow> raws = entries[unat (write_sector wr) := entry_encode core (write_entry wr)]
    | (Err e, b') \<Rightarrow> (\<exists>i < 2. read_back_error rom (fst (otadata lay) + of_nat i * SECTOR) (length (BLANK core)) e)
    | (Panic, b') \<Rightarrow> False"
    using tripleD [OF read_otadata_triple [OF chip(1), of "v (dev b)" core lay], of b] reset wr(2)
      errsD [OF read_otadata_errs [OF chip(1)], of core lay b] by (auto split: prod.splits res.splits)
  moreover have "case boot_flash_read rom offset (replicate (length artifact) 0) b of
      (Ok bytes, b') \<Rightarrow> bytes = artifact
    | (Err e, b') \<Rightarrow> read_back_error rom offset (length artifact) e | (Panic, b') \<Rightarrow> False"
    using tripleD [OF boot_flash_read_triple [OF chip(1), of "v (dev b)" offset "replicate (length artifact) 0"], of b] img
      errsD [OF errs_boot_flash_read [OF chip(1), of offset "replicate (length artifact) 0"], of b]
    by (auto split: prod.splits res.splits)
  moreover have after: "slice_at (v (dev (snd (boot c core pol rom b)))) offset (length artifact) = artifact \<and> fst (boot c core pol rom b) \<noteq> Panic"
    using boot_keeps_image [OF chip tab2 table(2) up(3), where c = c] unfolding off img .
  ultimately show ?thesis
    by (intro conjI exI [of _ wr]) (assumption | rule wr(1) | rule after [THEN conjunct1] | rule after [THEN conjunct2])+
qed

section \<open>A concrete update\<close>

text \<open>
  Four bytes uploaded in one chunk to slot 1 of the reference flash through the simulated driver, then
  activated: both operations succeed, so the theorem's hypotheses hold together.
\<close>

lemma ref_partition: "partition_of ref_layout Ota1 = ref_part"
  by (simp add: partition_of_def ref_layout_def slot_index_def ref_part_def)

lemma ref_batch: "desired_erased 4 0x100000 = 0x10000"
  by (simp add: desired_erased_def u64_saturating_mul_def word_div_ceil_def erase_batch_size_def min_def)

lemma ref_erase: "erase_partition_range sim_nor ref_part 0 0x10000 V = (Ok (), erased V 0x120000 0x10000)"
  by (simp add: erase_partition_range_def erase_range_def ref_part_def sim_nor_def sim_fits_def combinator_defs
      usize_from_u64_def usize_checked_add_def u32_from_usize_def usize_limit_def)

lemma ref_opened: "length buf = 0x1000 \<Longrightarrow> new_pre_erased sim_nor V ref_part buf = Inr \<lparr>as_flash = V, partition_offset = 0x120000, partition_size = 0x100000,
     scratch = buf, erase_before_write = False\<rparr>"
  by (simp add: new_pre_erased_def new_with_erase_mode_def sim_nor_def ref_part_def)

lemma ref_write_all: "storage_write sim_nor 0 [1,2,3,4] b = (Ok 0, b)"
  by (simp add: storage_write_def write_loop.simps sim_nor_def)

lemma ref_flush: "length (scratch b) = 0x1000 \<Longrightarrow> partition_offset b = 0x120000 \<Longrightarrow> partition_size b = 0x100000 \<Longrightarrow> \<not> erase_before_write b \<Longrightarrow>
   \<exists>b'. storage_finish sim_nor 0 [1,2,3,4] b = (Ok 4, b')"
  by (simp add: storage_finish_def flush_block_def sim_nor_def sim_fits_def combinator_defs on_flash_def fill_scratch_def splice_def
      usize_from_u64_def usize_checked_add_def u32_from_usize_def usize_limit_def div_ceil_def)

definition ref_upload :: "(ref_session_state, mem) upload" where
  "ref_upload = upload_start sim_nor ref_part \<lparr>rs_acc = [], rs_dur = 0\<rparr> ref_flash"

lemma sim_erase_size: "erase_size sim_nor = 0x1000" "ERASE_SIZE sim_nor = 0x1000"
  by (simp_all add: erase_size_def esp_flash_nor_def forward_def sim_nor_def)

lemma ref_session_sel:
  "can_append ref_session g n = (length (rs_acc g) + n < 2 ^ 32)" "received ref_session g = of_nat (length (rs_acc g))"
  "durable ref_session g = of_nat (rs_dur g)"
  "ws_append ref_session ops data (g, b) = (case op_write ops (of_nat (rs_dur g)) (drop (rs_dur g) (rs_acc g @ data)) b of
         (Ok r, b') \<Rightarrow> (Ok (), (\<lparr>rs_acc = rs_acc g @ data, rs_dur = unat r\<rparr>, b'))
       | (Err e, b') \<Rightarrow> (Err (Backend e), (g, b')) | (Panic, b') \<Rightarrow> (Panic, (g, b')))"
  "ws_finish ref_session ops g b = (case op_finish ops (of_nat (rs_dur g)) (drop (rs_dur g) (rs_acc g)) b of
         (Ok r, b') \<Rightarrow> (Ok \<lparr>committed_size = r, committed_digest = []\<rparr>, b')
       | (Err e, b') \<Rightarrow> (Err (Backend e), b') | (Panic, b') \<Rightarrow> (Panic, b'))"
  by (simp_all add: ref_session_def)

lemma ap_size_ref: "ap_size ref_part = 0x100000" by (simp add: ref_part_def)

lemma ref_append: "\<exists>s. aw_append ref_session sim_nor [1, 2, 3, 4] ref_upload = (Ok True, s) \<and>
   up_engine s = \<lparr>rs_acc = [1, 2, 3, 4], rs_dur = 0\<rparr> \<and> aw_partition (up_writer s) = ref_part \<and>
   length (aw_scratch (up_writer s)) = 0x1000 \<and> erased_through (up_writer s) = 0x10000"
  by (simp add: ref_upload_def upload_start_def aw_new_def aw_append_def combinator_defs ref_session_sel ap_size_ref ref_batch erase_ahead_def ref_erase engine_append_def
      ref_opened sim_erase_size storage_ops_def ref_write_all count_flushed_def put_backend_def)

lemma ref_append_all: "\<exists>s. append_all ref_session sim_nor [[1, 2, 3, 4]] ref_upload = (Ok True, s) \<and>
   up_engine s = \<lparr>rs_acc = [1, 2, 3, 4], rs_dur = 0\<rparr> \<and> aw_partition (up_writer s) = ref_part \<and>
   length (aw_scratch (up_writer s)) = 0x1000 \<and> erased_through (up_writer s) = 0x10000"
  using ref_append by (auto simp: andthen_def return_def)

lemma ref_aw_finish: assumes "up_engine s = \<lparr>rs_acc = [1, 2, 3, 4], rs_dur = 0\<rparr>" "aw_partition (up_writer s) = ref_part"
   "length (aw_scratch (up_writer s)) = 0x1000" "erased_through (up_writer s) = 0x10000"
  shows "\<exists>c t. aw_finish ref_session sim_nor s = (Ok c, t)"
proof -
  let ?b = "\<lparr>as_flash = up_flash s, partition_offset = 0x120000, partition_size = 0x100000, scratch = aw_scratch (up_writer s), erase_before_write = False\<rparr>"
  obtain b' where "storage_finish sim_nor 0 [1,2,3,4] ?b = (Ok 4, b')" using ref_flush [of ?b] assms(3) by auto
  then show ?thesis
    using assms by (simp add: aw_finish_def combinator_defs ref_session_sel ref_opened storage_ops_def count_flushed_def sim_erase_size)
qed

lemma ref_activate: "\<exists>f'. activate word_core ref_idf sim_nor Ota1 f = (Ok (), f')"
proof -
  let ?b = "0x10000 :: u32" and ?V1 = "erased f 0x10000 0x1000"
  define body where "body = to_le 4 (0 :: u32) @ replicate 24 0xFF"
  have len: "length body = 28" by (simp add: body_def)
  have r1: "slice_at ?V1 ?b 32 = replicate 32 0xFF" by (rule slice_at_erased) simp
  have pad: "replicate (0x1000 - 28) (0xFF :: u8) = replicate 4 0xFF @ replicate (0x1000 - 32) 0xFF"
    unfolding replicate_add [symmetric] by (rule arg_cong [where f = "\<lambda>n. replicate n _"]) simp
  have filled: "programmed ?V1 ?b body = programmed ?V1 ?b (body @ replicate 4 0xFF)"
    using programmed_erased_stored [where bs = body and n = "0x1000" and V = f and base = ?b]
      programmed_erased_stored [where bs = "body @ replicate 4 0xFF" and n = "0x1000" and V = f and base = ?b] pad
    by (simp add: len)
  have r2: "slice_at (programmed ?V1 ?b body) ?b 32 = body @ replicate 4 0xFF"
    unfolding filled using slice_at_programmed_erased [where bs = "body @ replicate 4 0xFF" and V = f and base = ?b and n = "0x1000"]
    by (simp add: len)
  have "programmed (programmed ?V1 ?b body) (?b + 28) (replicate 4 0) = programmed ?V1 ?b (body @ replicate 4 0)"
    using programmed_append [where xs = body and ys = "replicate 4 0" and V = ?V1 and base = ?b] by (simp add: len)
  then have r3: "slice_at (programmed (programmed ?V1 ?b body) 0x1001C (replicate 4 0)) ?b 32 = body @ replicate 4 0"
    using slice_at_programmed_erased [where bs = "body @ replicate 4 0" and V = f and base = ?b and n = "0x1000"]
    by (simp add: len)
  have zero: "from_le (to_le 4 (0 :: u32)) = (0 :: u32)" by (rule from_le_to_le) simp
  have entry: "from_le (take 4 (body @ replicate 4 0)) = (0 :: u32)" by (simp add: body_def zero)
  have forms: "take 28 (to_le 4 (0 :: u32) @ replicate 28 0xFF) = body" "to_le 4 (0 :: u32) @ replicate 28 0xFF = body @ replicate 4 0xFF"
    "to_le 4 (0 :: u32) @ replicate 24 0xFF @ [0, 0, 0, 0] = body @ replicate 4 0" "take 4 (replicate 32 (0 :: u8)) = replicate 4 0"
    "drop 4 (body @ replicate 4 0) = replicate 24 0xFF @ [0, 0, 0, 0]"
    by (simp_all add: body_def numeral_eq_Suc)
  show ?thesis
    by (simp add: activate_def read_entries_def read_at_def ota_execute_def combinator_defs ref_idf_def word_core_def collect.simps
       nf_read_into_def sim_nor_def sim_fits_def SECTOR_SIZE_def Let_def r1 r2 r3 forms entry zero len)
qed

lemma region_gap:
  assumes "m \<le> k" and "k + n \<le> 2 ^ 32"
  shows "region base m \<inter> region (base + of_nat k) n = {}"
  using region_mono [OF assms(1), of base] region_apart [OF assms(2), of base] by blast

lemma ref_apart: "layout_apart ref_layout"
proof -
  note gap = region_gap [where base = "0x8000 :: u32" and m = "0xC00"] region_gap [where base = "0xF000 :: u32" and m = "0x2000"]
  have "region 0x8000 0xC00 \<inter> region 0xF000 0x2000 = {}" using gap(1) [of "0x7000" "0x2000"] by simp
  moreover have "region 0x8000 0xC00 \<inter> region 0x20000 0x100000 = {}" "region 0x8000 0xC00 \<inter> region 0x120000 0x100000 = {}"
    using gap(1) [of "0x18000" "0x100000"] gap(1) [of "0x118000" "0x100000"] by simp_all
  moreover have "region 0xF000 0x2000 \<inter> region 0x20000 0x100000 = {}" "region 0xF000 0x2000 \<inter> region 0x120000 0x100000 = {}"
    using gap(2) [of "0x11000" "0x100000"] gap(2) [of "0x111000" "0x100000"] by simp_all
  moreover have "(\<forall>i < 2. P i) \<longleftrightarrow> P 0 \<and> P (1 :: nat)" for P by (auto simp: less_2_cases_iff)
  ultimately show ?thesis
    by (simp add: layout_apart_def ref_layout_def app_region_def entry_sectors_def table_region_def
        PARTITION_TABLE_OFFSET_def PARTITION_TABLE_LEN_def Int_commute)
qed

lemma ref_same_table: "same_table ref_idf (\<lambda>_. ()) ref_flash ref_layout"
  by (simp add: same_table_def ref_table_spec otadata_base_def ref_idf_def ref_layout_def)

theorem update_reaches_bootloader_witness:
  "\<exists>f'. (case boot_flash_read (board_rom Esp32c3) 0x120000 (replicate 4 0) (fresh_boot f') of
      (Ok bytes, b') \<Rightarrow> bytes = [1, 2, 3, 4]
    | (Err e, b') \<Rightarrow> read_back_error (board_rom Esp32c3) 0x120000 4 e | (Panic, b') \<Rightarrow> False) \<and>
    slice_at (b_flash (dev (snd (boot Esp32c3 word_core ref_policy (board_rom Esp32c3) (fresh_boot f'))))) 0x120000 4 = [1, 2, 3, 4]"
proof -
  obtain s where up: "append_all ref_session sim_nor [[1, 2, 3, 4]] ref_upload = (Ok True, s)"
    "up_engine s = \<lparr>rs_acc = [1, 2, 3, 4], rs_dur = 0\<rparr>" "aw_partition (up_writer s) = ref_part"
    "length (aw_scratch (up_writer s)) = 0x1000" "erased_through (up_writer s) = 0x10000" using ref_append_all by blast
  obtain c t where fin: "aw_finish ref_session sim_nor s = (Ok c, t)" using ref_aw_finish [OF up(2-5)] by blast
  obtain f' where act: "activate word_core ref_idf sim_nor Ota1 (up_flash t) = (Ok (), f')" using ref_activate by blast
  have size: "length (BLANK word_core) = ENTRY_SIZE word_core" "ENTRY_SIZE word_core \<le> 0x1000" by (simp_all add: word_core_def)
  have started: "started ref_session rs_acc rs_ok \<lparr>rs_acc = [], rs_dur = 0\<rparr>" by (simp add: started_def rs_ok_def ref_session_def)
  have reset: "b_flash (dev (fresh_boot f')) = f'" by simp
  note up1 = up(1) [unfolded ref_upload_def ref_partition [symmetric]]
  note all = update_reaches_bootloader [where c = Esp32c3 and view = "\<lambda>V. V" and parse = "\<lambda>_. ()" and v = b_flash and b = "fresh_boot f'" and slot = Ota1
      and f = ref_flash and core = word_core and lay = ref_layout and rom = "board_rom Esp32c3" and pol = ref_policy, OF ref_idf_laws sim_nor_laws ref_session_laws started board_flash_laws
      ref_policy_laws ref_same_table ref_apart size word_core_sound(3) up1 fin act reset]
  have chunks: "concat [[1, 2, 3, 4 :: u8]] = [1, 2, 3, 4]" "length [1, 2, 3, 4 :: u8] = 4" "fst (apps ref_layout ! slot_index Ota1) = 0x120000"
    by (simp_all add: ref_layout_def slot_index_def)
  note all = all [unfolded chunks]
  show ?thesis
    by (intro exI [of _ f'] conjI, rule all [THEN conjunct2, THEN conjunct2, THEN conjunct1],
        rule all [THEN conjunct2, THEN conjunct2, THEN conjunct2, THEN conjunct1])
qed

end
