(* ===== verification/Entry_Atomic.thy ===== *)
theory Entry_Atomic
  imports Boot_Theorems
begin

text \<open>
  What an interrupted entry write can leave for the next boot.  A power cut during a flash command is a
  command that fails and after which nothing more is done, so the failure states of the commit protocol are
  the states a cut can leave.  The commit marker makes them harmless: what fibewi's decoder promises of an
  entry without a complete marker is \<open>marker_law\<close>.
\<close>

section \<open>The marker\<close>

text \<open>The byte positions of an entry that an operation writes.\<close>

fun op_span :: "boot_op \<Rightarrow> nat set" where
  "op_span Op_Erase = {0..<0x1000}"
| "op_span (Op_Program off len data) = {unat off..<unat off + unat len}"

text \<open>
  Body and marker do not overlap; bytes whose marker is still erased are no entry; bytes that agree with the
  body everywhere but in the marker are no entry or the entry written.
\<close>

definition marker_law :: "'e boot_core \<Rightarrow> 'e boot_write \<Rightarrow> bool" where
  "marker_law core wr \<longleftrightarrow> (case write_ops core wr of (e, b, c) \<Rightarrow>
     op_span b \<inter> op_span c = {} \<and> op_span c \<subseteq> {0..<ENTRY_SIZE core} \<and>
     (\<forall>raw. length raw = ENTRY_SIZE core \<longrightarrow> (\<forall>i \<in> op_span c. raw ! i = 0xFF) \<longrightarrow> entry_decode core raw = Decoded_Other) \<and>
     (\<forall>raw. length raw = ENTRY_SIZE core \<longrightarrow>
        (\<forall>i < ENTRY_SIZE core. i \<notin> op_span c \<longrightarrow> raw ! i = entry_body core (write_entry wr) ! i) \<longrightarrow>
        entry_decode core raw \<in> {Decoded_Other, Decoded_Ok (write_entry wr)}))"

lemma op_range_span:
  assumes "op_fits op" and "i < 0x1000" and "base + of_nat i \<in> op_range base op"
  shows "i \<in> op_span op"
proof (cases op)
  case Op_Erase
  then show ?thesis using assms(2) by simp
next
  case (Op_Program off len data)
  have small: "unat off + unat len \<le> 0x1000" using assms(1) Op_Program by simp
  have i: "unat (of_nat i :: u32) = i" using assms(2) by (intro unat_of_nat_usize) (simp add: usize_limit_def)
  have in_range: "unat ((base + of_nat i) - (base + ucast off)) < unat len"
    using assms(3) Op_Program by (simp only: op_range.simps region_iff)
  have diff: "(base + of_nat i) - (base + ucast off) = of_nat i - (ucast off :: u32)" by simp
  show ?thesis
  proof (cases "unat off \<le> i")
    case True
    then have "unat (of_nat i - (ucast off :: u32)) = i - unat off"
      using i by (simp add: unat_sub_if_size)
    with in_range True show ?thesis unfolding diff by (simp add: Op_Program)
  next
    case False
    then have "unat (of_nat i - (ucast off :: u32)) = i + 2 ^ 32 - unat off"
      using i by (simp add: unat_sub_if_size word_size)
    with in_range False small show ?thesis unfolding diff by simp
  qed
qed

section \<open>The failure states\<close>

lemma failed_entry:
  assumes fits: "write_fits core wr" and marker: "marker_law core wr" and size: "ENTRY_SIZE core \<le> 0x1000"
    and failed: "failed_at core wr base V k W" and k: "0 < k"
  shows "entry_decode core (slice_at W base (ENTRY_SIZE core)) \<in> {Decoded_Other, Decoded_Ok (write_entry wr)}"
proof -
  obtain e b c where ops: "write_ops core wr = (e, b, c)" by (metis prod_cases3)
  have op_fits: "op_fits b" "op_fits c" using fits by (simp_all add: write_fits_def ops)
  let ?raw = "slice_at W base (ENTRY_SIZE core)"
  note law = marker [unfolded marker_law_def ops prod.case]
  show ?thesis
  proof (cases "k = 1")
    case True
    with failed have W: "same_outside (op_range base b) (after_erase base V) W" by (simp add: failed_at_def ops)
    have "?raw ! i = 0xFF" if "i \<in> op_span c" for i
    proof -
      have i: "i < ENTRY_SIZE core" "i \<notin> op_span b" using law that by auto
      then have "i < 0x1000" using size by simp
      with i(2) op_range_span [OF op_fits(1)] have "base + of_nat i \<notin> op_range base b" by blast
      from same_outsideD [OF W this] have "W (base + of_nat i) = after_erase base V (base + of_nat i)" .
      also have "\<dots> = 0xFF"
      proof -
        have "unat (of_nat i :: u32) = i" using \<open>i < 0x1000\<close> by (intro unat_of_nat_usize) (simp add: usize_limit_def)
        with \<open>i < 0x1000\<close> show ?thesis by (simp add: after_erase_def erased_def)
      qed
      finally show ?thesis using i(1) by simp
    qed
    then show ?thesis using law by simp
  next
    case False
    with failed k have W: "body_verified core wr base V" "same_outside (op_range base c) (after_body core wr base V) W"
      by (simp_all add: failed_at_def ops)
    have "?raw ! i = entry_body core (write_entry wr) ! i" if "i < ENTRY_SIZE core" "i \<notin> op_span c" for i
    proof -
      have "i < 0x1000" using that(1) size by simp
      with that(2) op_range_span [OF op_fits(2)] have "base + of_nat i \<notin> op_range base c" by blast
      from same_outsideD [OF W(2) this] have "W (base + of_nat i) = slice_at (after_body core wr base V) base (ENTRY_SIZE core) ! i"
        using that(1) by simp
      also have "\<dots> = entry_body core (write_entry wr) ! i" using W(1) by (simp only: body_verified_def)
      finally show ?thesis using that(1) by simp
    qed
    then show ?thesis using law by simp
  qed
qed

section \<open>The bootloader's entry writes\<close>

definition boot_entry_at :: "'e boot_core \<Rightarrow> layout \<Rightarrow> nat \<Rightarrow> mem \<Rightarrow> u8 list" where
  "boot_entry_at core lay i V = slice_at V (fst (otadata lay) + of_nat i * SECTOR) (ENTRY_SIZE core)"

lemma other_boot_entry_kept:
  assumes "same_outside (region (write_base lay wr) 0x1000) V W" and "unat (write_sector wr) < 2" and "ENTRY_SIZE core \<le> 0x1000"
  shows "boot_entry_at core lay (1 - unat (write_sector wr)) W = boot_entry_at core lay (1 - unat (write_sector wr)) V"
proof -
  let ?base = "fst (otadata lay)" and ?n = "ENTRY_SIZE core"
  have base: "write_base lay wr = ?base + of_nat (unat (write_sector wr)) * SECTOR" by (simp add: write_base_def)
  have apart: "region ?base 0x1000 \<inter> region (?base + 0x1000) 0x1000 = {}"
    using region_apart [where m = "0x1000" and n = "0x1000" and base = ?base] by simp
  consider "unat (write_sector wr) = 0" | "unat (write_sector wr) = 1" using assms(2) by linarith
  then have "region (write_base lay wr) 0x1000 \<inter> region (?base + of_nat (1 - unat (write_sector wr)) * SECTOR) 0x1000 = {}"
    by cases (use apart in \<open>auto simp: base SECTOR_def\<close>)
  with region_mono [OF assms(3), of "?base + of_nat (1 - unat (write_sector wr)) * SECTOR"]
  have "region (write_base lay wr) 0x1000 \<inter> region (?base + of_nat (1 - unat (write_sector wr)) * SECTOR) ?n = {}" by blast
  then show ?thesis unfolding boot_entry_at_def by (rule same_outside_slice [OF assms(1)])
qed

text \<open>C3: an entry write of the bootloader is atomic for the next boot, provided the entry's sector is 4 KiB
  aligned, as ESP-IDF requires of the otadata partition and the code does not check.  However far it gets, the other entry is
  what it was.  When it returns, its own entry decodes to the one requested; when a step after the
  verified erase is the one that fails, which is also what a power cut in the body or the marker leaves, its own
  sector decodes to no entry at all or to the one requested, never to anything else.  Any other error is
  that of a flash read.\<close>

theorem entry_write_atomic:
  assumes "rom_flash_laws rom v" and "write_base lay wr AND 0xFFF = 0" and "write_fits core wr"
    and "marker_law core wr" and "ENTRY_SIZE core \<le> 0x1000" and "unat (write_sector wr) < 2"
  defines "sector \<equiv> unat (write_sector wr)"
  shows "case execute core rom wr lay s of (r, s') \<Rightarrow>
     boot_entry_at core lay (1 - sector) (v (dev s')) = boot_entry_at core lay (1 - sector) (v (dev s)) \<and>
     (case r of
        Ok _ \<Rightarrow> entry_decode core (boot_entry_at core lay sector (v (dev s'))) = Decoded_Ok (write_entry wr)
      | Err (BE_OtadataWrite step _) \<Rightarrow> step = 0 \<or>
          entry_decode core (boot_entry_at core lay sector (v (dev s'))) \<in> {Decoded_Other, Decoded_Ok (write_entry wr)}
      | Err e \<Rightarrow> is_flash_read_error e
      | Panic \<Rightarrow> False)"
proof -
  obtain r s' where run: "execute core rom wr lay s = (r, s')" by (metis surj_pair)
  note post = tripleD [OF execute_triple [OF assms(1-3), of "v (dev s)"], of s, unfolded run]
  have own: "boot_entry_at core lay sector W = slice_at W (write_base lay wr) (ENTRY_SIZE core)" for W
    by (simp add: boot_entry_at_def write_base_def sector_def)
  note other = other_boot_entry_kept [OF _ assms(6,5), of lay "v (dev s)", folded sector_def]
  show ?thesis
  proof (cases r)
    case (Ok u)
    with post have com: "committed core wr (write_base lay wr) (v (dev s)) (v (dev s'))" by simp
    then have "entry_decode core (boot_entry_at core lay sector (v (dev s'))) = Decoded_Ok (write_entry wr)"
      unfolding own committed_def by (elim conjE)
    then show ?thesis
      unfolding run Ok prod.case res.case by (intro conjI other [OF committed_outside [OF assms(3) com]])
  next
    case (Err e)
    with post have "execute_failed core wr (write_base lay wr) (v (dev s)) e (v (dev s'))" by simp
    then obtain k where k: "failed_at core wr (write_base lay wr) (v (dev s)) k (v (dev s'))"
      "e = BE_OtadataWrite k (write_base lay wr) \<or> is_flash_read_error e" unfolding execute_failed_def by blast
    note kept = other [OF failed_at_outside [OF assms(3) k(1)]]
    from k(2) show ?thesis
    proof
      assume "e = BE_OtadataWrite k (write_base lay wr)"
      moreover have "k = 0 \<or> entry_decode core (boot_entry_at core lay sector (v (dev s'))) \<in> {Decoded_Other, Decoded_Ok (write_entry wr)}"
        using failed_entry [OF assms(3,4,5) k(1)] own by auto
      ultimately show ?thesis using kept by (simp only: run Err prod.case res.case boot_error.case simp_thms)
    next
      assume "is_flash_read_error e"
      then show ?thesis using kept run Err by (cases e) (simp_all add: is_flash_read_error_def)
    qed
  qed (use post in simp)
qed

lemma ref_marker: "marker_law ref_core wr"
proof -
  let ?e = "to_le 4 (write_entry wr) @ replicate 28 (0xFF :: u8)"
  have unmarked: "drop 4 raw \<noteq> replicate 24 0xFF @ [0, 0, 0, 0 :: u8]" if "length raw = 32" "raw ! 28 = 0xFF" for raw
  proof
    assume "drop 4 raw = replicate 24 0xFF @ [0, 0, 0, 0]"
    then have "drop 4 raw ! 24 = (replicate 24 0xFF @ [0, 0, 0, 0 :: u8]) ! 24" by (rule arg_cong)
    with that show False by (simp add: nth_append)
  qed
  have same: "from_le (take 4 raw) = write_entry wr" if "length raw = 32" "\<forall>i < 32. i \<notin> {28..<32} \<longrightarrow> raw ! i = ?e ! i" for raw :: "u8 list"
  proof -
    have "take 4 raw = to_le 4 (write_entry wr)" using that by (intro nth_equalityI) (simp_all add: nth_append)
    then show ?thesis by (simp add: from_le_to_le)
  qed
  show ?thesis
    unfolding marker_law_def using unmarked same by (auto simp: ref_core_def ref_body_def)
qed

theorem entry_write_atomic_witness:
  "case execute ref_core (board_rom Esp32s3) \<lparr>write_sector = 1, write_entry = 7\<rparr> ref_layout (fresh_boot ref_flash) of (r, s') \<Rightarrow>
     boot_entry_at ref_core ref_layout 0 (b_flash (dev s')) = boot_entry_at ref_core ref_layout 0 ref_flash \<and>
     (r = Ok () \<longrightarrow> entry_decode ref_core (boot_entry_at ref_core ref_layout 1 (b_flash (dev s'))) = Decoded_Ok 7)"
proof -
  let ?wr = "\<lparr>write_sector = 1, write_entry = 7 :: u32\<rparr>"
  have base: "write_base ref_layout ?wr AND 0xFFF = 0" by (simp add: write_base_def ref_layout_def SECTOR_def)
  have size: "ENTRY_SIZE ref_core \<le> 0x1000" and sector: "unat (write_sector ?wr) < 2" by (simp_all add: ref_core_def)
  from entry_write_atomic [OF board_flash_laws [of Esp32s3] base ref_write_fits ref_marker size sector, of "fresh_boot ref_flash"]
  show ?thesis by (auto split: prod.splits)
qed

end
