(* ===== verification/Build_Script.thy ===== *)
theory Build_Script
  imports Boot_Theorems
begin

text \<open>
  How the bootloader is linked: \<open>bootloader/esp/build.rs\<close> chooses the linker script by the chip's cargo
  feature, and the \<open>MEMORY\<close> regions of the two scripts of \<open>bootloader/esp/linker\<close> say where the
  bootloader's own code and data are; the memory map of the same feature has to keep images out of there.
\<close>

section \<open>The build script\<close>

text \<open>The environment of the build, and the lines printed for cargo.\<close>

definition linker_of_features :: "(string \<Rightarrow> string option) \<Rightarrow> string option" where
  "linker_of_features env =
     (if env ''CARGO_FEATURE_ESP32C3'' \<noteq> None then Some ''espbewi-boot-esp32c3.x''
      else if env ''CARGO_FEATURE_ESP32S3'' \<noteq> None then Some ''espbewi-boot-esp32s3.x''
      else None)"

definition build_main :: "(string \<Rightarrow> string option) \<Rightarrow> (string list, unit) res" where
  "build_main env = (case env ''CARGO_MANIFEST_DIR'' of
     None \<Rightarrow> Panic
   | Some dir \<Rightarrow> (case linker_of_features env of
       None \<Rightarrow> Panic
     | Some linker \<Rightarrow> Ok
         [''cargo:rustc-link-search='' @ dir @ ''/linker'',
          ''cargo:rustc-link-arg=-T'' @ linker,
          ''cargo:rerun-if-changed=linker/'' @ linker]))"

section \<open>The linker scripts\<close>

record mem_region =
  region_name :: string
  region_origin :: u32
  region_length :: u32

definition region_at :: "string \<Rightarrow> u32 \<Rightarrow> u32 \<Rightarrow> mem_region" where
  "region_at name origin len = \<lparr>region_name = name, region_origin = origin, region_length = len\<rparr>"

definition linker_esp32c3 :: "mem_region list" where
  "linker_esp32c3 =
     [region_at ''IRAM'' 0x403cb000 0x9000,
      region_at ''DRAM'' 0x3fcd4000 0x8000,
      region_at ''RTC_FAST'' 0x50000000 0x2000]"

definition linker_esp32s3 :: "mem_region list" where
  "linker_esp32s3 =
     [region_at ''vectors_seg'' 0x403cb000 0x400,
      region_at ''IRAM'' 0x403cb400 (0x9000 - 0x400),
      region_at ''DRAM'' 0x3fcf4000 0x8000,
      region_at ''RTC_FAST'' 0x600fe000 0x2000,
      region_at ''rtc_slow_seg'' 0x50000000 0x2000]"

definition linker_file :: "string \<Rightarrow> mem_region list option" where
  "linker_file name =
     (if name = ''espbewi-boot-esp32c3.x'' then Some linker_esp32c3
      else if name = ''espbewi-boot-esp32s3.x'' then Some linker_esp32s3
      else None)"

definition region_range :: "mem_region \<Rightarrow> range" where
  "region_range r = mk_range (region_origin r) (region_origin r + region_length r)"

section \<open>The map and the script of one build\<close>

text \<open>The environment cargo gives the build for a chip, with exactly that chip's feature selected.\<close>

definition built_for :: "chip \<Rightarrow> (string \<Rightarrow> string option) \<Rightarrow> bool" where
  "built_for c env \<longleftrightarrow> env ''CARGO_MANIFEST_DIR'' \<noteq> None \<and>
     (env ''CARGO_FEATURE_ESP32C3'' \<noteq> None \<longleftrightarrow> c = Esp32c3) \<and>
     (env ''CARGO_FEATURE_ESP32S3'' \<noteq> None \<longleftrightarrow> c = Esp32s3)"

text \<open>
  The two SRAM buses show the same bytes: an instruction-bus address stands for the data-bus address
  \<open>sram_alias_offset\<close> below it.  A code region of the script is the memory its data-bus alias names.
\<close>

definition data_address :: "memory_map \<Rightarrow> u32 \<Rightarrow> u32" where
  "data_address m a = (if contains (iram m) a then a - sram_alias_offset m else a)"

definition physical :: "memory_map \<Rightarrow> mem_region \<Rightarrow> range" where
  "physical m r = (if region_name r \<in> {''IRAM'', ''vectors_seg''} then data_alias m (region_range r) else region_range r)"

text \<open>
  Where a region of the script may be: data, and code through its alias, in the window
  that a validated image must leave alone, and code inside the instruction-bus window; the fast RTC memory in the
  map's RTC range, which no window protects.  The slow RTC bank, which only the second script declares, lies
  outside every range of the map.
\<close>

definition sram_region :: "mem_region \<Rightarrow> bool" where
  "sram_region r \<longleftrightarrow> region_name r \<in> {''IRAM'', ''vectors_seg'', ''DRAM''}"

definition region_allowed :: "memory_map \<Rightarrow> mem_region \<Rightarrow> bool" where
  "region_allowed m r \<longleftrightarrow>
     (if sram_region r then sub_range (physical m r) (boot_window m) \<and>
        (region_name r = ''DRAM'' \<or> sub_range (region_range r) (iram m))
      else if region_name r = ''RTC_FAST'' then sub_range (region_range r) (rtc m)
      else region_name r = ''rtc_slow_seg'' \<and>
        list_all (disjoint_ranges (region_range r)) [drom m, irom m, iram m, dram m, rtc m])"

text \<open>No two regions share a byte of memory.\<close>

definition disjoint_regions :: "memory_map \<Rightarrow> mem_region list \<Rightarrow> bool" where
  "disjoint_regions m rs \<longleftrightarrow> sorted_wrt (\<lambda>r s. disjoint_ranges (physical m r) (physical m s)) rs"

lemmas linker_defs = linker_esp32c3_def linker_esp32s3_def region_at_def region_range_def

definition script_of :: "chip \<Rightarrow> mem_region list" where
  "script_of c = (case c of Esp32c3 \<Rightarrow> linker_esp32c3 | Esp32s3 \<Rightarrow> linker_esp32s3)"

lemma script_regions:
  "disjoint_regions (memory_map_of c) (script_of c)" "list_all (region_allowed (memory_map_of c)) (script_of c)"
  by (cases c; simp add: script_of_def disjoint_regions_def disjoint_ranges_def region_allowed_def sram_region_def physical_def
      sub_range_def data_alias_def memory_map_of_def linker_defs map_defs)+

text \<open>The addresses, on either bus, of the bytes that belong to the bootloader's own code, data and stack.\<close>

definition own_bytes :: "memory_map \<Rightarrow> mem_region list \<Rightarrow> u32 set" where
  "own_bytes m rs = {a. \<exists>r \<in> set rs. sram_region r \<and> contains (physical m r) (data_address m a)}"

lemma own_bytes_window: "list_all (region_allowed m) rs \<Longrightarrow> a \<in> own_bytes m rs \<Longrightarrow> contains (boot_window m) (data_address m a)"
  by (auto simp: own_bytes_def list_all_iff region_allowed_def dest!: bspec intro: sub_range_contains)

section \<open>Loading spares the bootloader\<close>

text \<open>
  What the comment in \<open>load\<close> says of the validation: the segments of a validated image are clear of this
  bootloader, wherever \<open>ram_target\<close> puts them.
\<close>

definition image_clear :: "('e, 'w) boot_policy \<Rightarrow> memory_map \<Rightarrow> image \<Rightarrow> bool" where
  "image_clear pol m img \<longleftrightarrow>
     (\<forall>seg \<in> set (loaded_segments img). \<forall>a \<in> ram_region pol m seg. \<not> contains (boot_window m) (data_address m a))"

definition clear_law :: "('e, 'w) boot_policy \<Rightarrow> memory_map \<Rightarrow> bool" where
  "clear_law pol m \<longleftrightarrow> (\<forall>rd off sz s img s'. validate pol rd off sz m s = (Ok img, s') \<longrightarrow> image_clear pol m img)"

abbreviation spared :: "u32 set \<Rightarrow> mem \<Rightarrow> 'w boot_st \<Rightarrow> bool" where
  "spared W R s \<equiv> \<forall>a \<in> W. ram s a = R a"

lemma spared_rest:
  assumes "\<And>V R. triple (at_rest v V R) m (\<lambda>_. at_rest v V R) (\<lambda>_. at_rest v V R)"
  shows "triple (spared W R) m (\<lambda>_. spared W R) (\<lambda>_. spared W R)"
proof (rule tripleI)
  fix s :: "'a boot_st" assume "spared W R s"
  with tripleD [OF assms, of s "v (dev s)" "ram s"] show "case m s of
      (Ok _, s) \<Rightarrow> spared W R s | (Err _, s) \<Rightarrow> spared W R s | (Panic, s) \<Rightarrow> False"
    by (auto split: prod.splits res.splits)
qed

lemma spared_quiet: "quiet v m \<Longrightarrow> triple (spared W R) m (\<lambda>_. spared W R) (\<lambda>_. spared W R)"
  by (rule spared_rest) (rule quietD)

lemma read_spared:
  assumes "rom_flash_laws rom v"
  shows "triple (spared W R) (boot_flash_read rom a buf) (\<lambda>out s. length out = length buf \<and> spared W R s) (\<lambda>_. spared W R)"
proof (rule tripleI)
  fix s :: "'a boot_st" assume "spared W R s"
  with tripleD [OF triple_keeps [OF boot_flash_read_triple [OF assms, where V = "v (dev s)" and a = a and buf = buf] keeps_boot_flash_read(1), where x = "ram s"], where s = s]
  show "case boot_flash_read rom a buf s of (Ok out, s) \<Rightarrow> length out = length buf \<and> spared W R s
      | (Err _, s) \<Rightarrow> spared W R s | (Panic, s) \<Rightarrow> False"
    by (auto split: prod.splits res.splits)
qed

lemma copy_segment_spared:
  assumes laws: "rom_flash_laws rom v" and apart: "W \<inter> region target (unat (seg_len seg)) = {}"
  shows "c \<le> unat (seg_len seg) \<Longrightarrow> triple (spared W R) (copy_segment rom seg target c) (\<lambda>_. spared W R) (\<lambda>_. spared W R)"
proof (induction "unat (seg_len seg) - c" arbitrary: c rule: less_induct)
  case less
  show ?case
  proof (cases "c < unat (seg_len seg)")
    case True
    define n where "n = min (unat (seg_len seg) - c) 256"
    have n: "c + n \<le> unat (seg_len seg)" "unat (seg_len seg) - (c + n) < unat (seg_len seg) - c" using True by (auto simp: n_def)
    have "region (target + of_nat c) n \<subseteq> region target (unat (seg_len seg))"
      by (rule region_subset) (use n(1) unat_of_nat_le [of c] in linarith)
    then have "a \<notin> region (target + of_nat c) n" if "a \<in> W" for a using apart that by blast
    then have store: "triple (\<lambda>s. length chunk = n \<and> spared W R s) (modify (\<lambda>s. s\<lparr>ram := stored (ram s) (target + of_nat c) chunk\<rparr>))
        (\<lambda>_. spared W R) (\<lambda>_. spared W R)" for chunk
      by (intro triple_modify) (auto simp: stored_def)
    have read: "triple (spared W R) (boot_flash_read rom a (replicate n 0)) (\<lambda>chunk s. length chunk = n \<and> spared W R s) (\<lambda>_. spared W R)" for a
      using read_spared [OF laws, of W R a "replicate n 0"] by simp
    show ?thesis
      unfolding copy_segment_eq [of rom seg target c] if_P [OF True] Let_def n_def [symmetric]
      by (rule triple_andthen [OF read], rule triple_andthen [OF store], rule less.hyps [OF n(2,1)])
  qed (subst copy_segment_eq, simp add: triple_return)
qed

lemma load_spared:
  assumes laws: "rom_flash_laws rom v" and pol: "policy_laws core pol" and clr: "clear_law pol (memory_map_of c)"
    and slot: "unat slot < length (apps lay)" and W: "\<forall>a \<in> W. contains (boot_window (memory_map_of c)) (data_address (memory_map_of c) a)"
  shows "triple (spared W R) (load c pol rom lay slot) (\<lambda>_. spared W R) (\<lambda>_. spared W R)"
proof -
  let ?m = "memory_map_of c"
  note [quiet_intro] = quiet_rom_steps [OF laws] quiet_map_if_flash [OF laws]
  have val: "triple (spared W R) (map_err (\<lambda>_. BE_Image) (validate pol (rom_flash_reader rom) off sz ?m))
      (\<lambda>img s. image_clear pol ?m img \<and> spared W R s) (\<lambda>_. spared W R)" for off sz
    by (rule triple_map_err, rule triple_conseq [OF triple_witness [OF spared_quiet [OF quiet_validate [OF laws pol], where W = W and R = R]]])
       (use clr in \<open>unfold clear_law_def, blast+\<close>)
  have copy: "triple (spared W R) (for_each (filter (\<lambda>s. 0 < seg_len s) (img_segments img)) (copy_if_ram pol rom ?m))
      (\<lambda>_. spared W R) (\<lambda>_. spared W R)" if img: "image_clear pol ?m img" for img
  proof (rule triple_for_each)
    fix seg assume seg: "seg \<in> set (filter (\<lambda>s. 0 < seg_len s) (img_segments img))"
    show "triple (spared W R) (copy_if_ram pol rom ?m seg) (\<lambda>_. spared W R) (\<lambda>_. spared W R)"
    proof (cases "ram_target pol seg ?m")
      case (Some t)
      have "W \<inter> region t (unat (seg_len seg)) = {}"
        using img seg W unfolding image_clear_def loaded_segments_def ram_region_def by (fastforce simp: Some)
      from copy_segment_spared [OF laws this, of 0] show ?thesis by (simp add: copy_if_ram_def Some)
    qed (simp add: copy_if_ram_def triple_return)
  qed
  note q = spared_quiet [where v = v and W = W and R = R]
  have loaded: "triple (spared W R) (load_image pol rom ?m img) (\<lambda>_. spared W R) (\<lambda>_. spared W R)" if "image_clear pol ?m img" for img
    unfolding load_image_def Let_def
    by (rule triple_andthen [OF q], rule quiet_intro, rule triple_andthen [OF copy [OF that]],
        (rule triple_andthen [OF q], (intro quiet_intro)[1])+, rule triple_return)
  show ?thesis
    unfolding load_def
    by (rule triple_andthen [OF app_of_triple [OF slot]], rule triple_pure, rule triple_andthen [OF val], rule triple_pure, rule loaded)
qed

lemma boot_spared:
  assumes laws: "rom_flash_laws rom v" and pol: "policy_laws core pol" and clr: "clear_law pol (memory_map_of c)"
    and W: "\<forall>a \<in> W. contains (boot_window (memory_map_of c)) (data_address (memory_map_of c) a)"
  shows "triple (spared W R) (boot c core pol rom) (\<lambda>_. spared W R) (\<lambda>_. spared W R)"
proof -
  note [quiet_intro] = quiet_rom_steps [OF laws]
  have size: "quiet v (set_flash_size rom)" unfolding set_flash_size_def on_dev_map_err by (intro quiet_intro)
  have entries: "quiet v (read_otadata core rom lay)" for lay unfolding read_otadata_def by (intro quiet_intro)
  have layout: "triple (spared W R) (read_layout rom) (\<lambda>lay s. length (apps lay) = 2 \<and> spared W R s) (\<lambda>_. spared W R)"
  proof (rule tripleI)
    fix s :: "'a boot_st" assume "spared W R s"
    with read_layout_outcome [OF laws, of s] show "case read_layout rom s of
        (Ok lay, s) \<Rightarrow> length (apps lay) = 2 \<and> spared W R s | (Err _, s) \<Rightarrow> spared W R s | (Panic, s) \<Rightarrow> False"
      by (auto split: prod.splits res.splits dest: table_spec_apps)
  qed
  have ok: "triple (spared W R) (image_ok c pol rom lay slot) (\<lambda>_. spared W R) (\<lambda>_ _. False)"
    if "unat slot < length (apps lay)" for lay slot
  proof (rule tripleI)
    fix s :: "'a boot_st" assume "spared W R s"
    with tripleD [OF image_ok_triple [OF laws pol that, where c = c and V = "v (dev s)" and R = "ram s"], where s = s] show "case image_ok c pol rom lay slot s of
        (Ok _, s) \<Rightarrow> spared W R s | (Err _, s) \<Rightarrow> False | (Panic, s) \<Rightarrow> False"
      by (auto split: prod.splits res.splits)
  qed
  have plan: "triple (spared W R) (plan_boot pol es SLOT_COUNT (image_ok c pol rom lay)) (\<lambda>p s. sound_plan core p \<and> spared W R s)
      (\<lambda>_. spared W R)" if "length (apps lay) = 2" for es lay
    by (rule triple_conseq [OF plan_law [OF pol ok]]) (auto simp: that)
  have choice: "triple (spared W R) (chosen_slot (fst p)) (\<lambda>ch s. unat (fst ch) < 2 \<and> spared W R s) (\<lambda>_. spared W R)"
    if "sound_plan core p" for p
    using that by (auto simp: chosen_slot_def sound_plan_def intro!: wp split: boot_choice.splits halt.splits)
  have writes: "triple (spared W R) (for_each (snd p) (perform_write core rom lay)) (\<lambda>_. spared W R) (\<lambda>_. spared W R)"
    if "sound_plan core p" for p lay
  proof (rule tripleI)
    fix s :: "'a boot_st" assume "spared W R s"
    moreover have "\<forall>wr \<in> set (snd p). unat (write_sector wr) < 2 \<and> write_fits core wr" using that by (simp add: sound_plan_def)
    note tripleD [OF perform_writes_triple [OF laws this, where lay = lay and V = "v (dev s)" and R = "ram s"], of s]
    ultimately show "case for_each (snd p) (perform_write core rom lay) s of
        (Ok _, s) \<Rightarrow> spared W R s | (Err _, s) \<Rightarrow> spared W R s | (Panic, s) \<Rightarrow> False"
      by (auto split: prod.splits res.splits)
  qed
  note q = spared_quiet [of v, OF quiet_log]
  show ?thesis
    unfolding boot_def
    by (rule triple_andthen [OF spared_quiet [OF size]], rule triple_andthen [OF layout], rule triple_pure,
        rule triple_andthen [OF q], rule triple_andthen [OF spared_quiet [OF entries]], rule triple_andthen [OF plan], assumption,
        rule triple_pure, rule triple_andthen [OF choice], assumption, rule triple_pure, rule triple_andthen [OF q],
        rule triple_andthen [OF writes], assumption, rule load_spared [OF laws pol clr _ W]) simp
qed

section \<open>The property\<close>

text \<open>C13: the bootloader is linked into memory that it never loads an image over.  For each chip, a build with
  that chip's feature succeeds and links a script whose regions share no byte of physical memory, code regions taken
  through their data-bus alias, and whose code, data and stack lie in the \<open>boot_window\<close> of the memory map that
  the same feature selects (its fast RTC region lies in the map's RTC range, its slow RTC region outside every range
  of the map).  And, given that a validated image is clear of the \<open>boot_window\<close> on either bus, as the comment in
  \<open>load\<close> says, a boot with that map, however it ends, has changed no byte of those code, data
  and stack regions, on either bus.  The map itself is consistent: its windows are disjoint, the boot window
  is data memory and the flash windows are whole MMU pages.\<close>

theorem memory_maps_protect_bootloader:
  assumes "built_for c env" and "rom_flash_laws rom v" and "policy_laws core pol" and "clear_law pol (memory_map_of c)"
  shows "map_consistent (memory_map_of c) \<and> (\<exists>script regions dir. build_main env = Ok [''cargo:rustc-link-search='' @ dir @ ''/linker'',
        ''cargo:rustc-link-arg=-T'' @ script, ''cargo:rerun-if-changed=linker/'' @ script] \<and>
      linker_file script = Some regions \<and> disjoint_regions (memory_map_of c) regions \<and>
      list_all (region_allowed (memory_map_of c)) regions \<and>
      (\<forall>a \<in> own_bytes (memory_map_of c) regions. ram (snd (boot c core pol rom s)) a = ram s a))"
proof -
  obtain dir where dir: "env ''CARGO_MANIFEST_DIR'' = Some dir" using assms by (auto simp: built_for_def)
  let ?script = "case c of Esp32c3 \<Rightarrow> ''espbewi-boot-esp32c3.x'' | Esp32s3 \<Rightarrow> ''espbewi-boot-esp32s3.x''"
  have "linker_of_features env = Some ?script"
    using assms by (cases c) (auto simp: built_for_def linker_of_features_def)
  then have "build_main env = Ok [''cargo:rustc-link-search='' @ dir @ ''/linker'',
      ''cargo:rustc-link-arg=-T'' @ ?script, ''cargo:rerun-if-changed=linker/'' @ ?script]"
    using dir by (simp add: build_main_def)
  moreover have "linker_file ?script = Some (script_of c)" by (cases c) (simp_all add: linker_file_def script_of_def)
  moreover have "\<forall>a \<in> own_bytes (memory_map_of c) (script_of c). contains (boot_window (memory_map_of c)) (data_address (memory_map_of c) a)"
    using own_bytes_window [OF script_regions(2)] by blast
  note tripleD [OF boot_spared [OF assms(2-4) this, of "ram s"], of s]
  then have "\<forall>a \<in> own_bytes (memory_map_of c) (script_of c). ram (snd (boot c core pol rom s)) a = ram s a"
    by (auto split: prod.splits res.splits)
  moreover have "map_consistent (memory_map_of c)" using maps_consistent by (cases c) (simp_all add: memory_map_of_def)
  ultimately show ?thesis using script_regions [of c] by blast
qed

definition s3_build :: "string \<Rightarrow> string option" where
  "s3_build = [''CARGO_MANIFEST_DIR'' \<mapsto> ''/esp'', ''CARGO_FEATURE_ESP32S3'' \<mapsto> ''1'']"

lemma ref_clear_law: "clear_law (ref_policy :: (u32, 'w) boot_policy) (memory_map_of c)"
proof -
  have sram: "\<not> contains (boot_window (memory_map_of c)) (data_address (memory_map_of c) a)" if "unat (a - 0x3FC90000) < 16" for a
  proof -
    define d where "d = a - 0x3FC90000"
    have d: "unat d < 16" using that by (simp add: d_def)
    have a: "a = 0x3FC90000 + d" by (simp add: d_def)
    have "unat a = 0x3FC90000 + unat d" using d unfolding a by (subst unat_add_lem [THEN iffD1]) simp_all
    with d show ?thesis
      by (cases c) (simp_all add: data_address_def contains_def memory_map_of_def map_defs word_le_nat_alt word_less_nat_alt)
  qed
  then show ?thesis
    by (auto simp: clear_law_def image_clear_def loaded_segments_def ref_policy_def ref_image_def ram_region_def
        split: prod.splits res.splits if_splits option.splits)
qed

theorem memory_maps_protect_bootloader_witness:
  "build_main s3_build = Ok [''cargo:rustc-link-search=/esp/linker'',
     ''cargo:rustc-link-arg=-Tespbewi-boot-esp32s3.x'', ''cargo:rerun-if-changed=linker/espbewi-boot-esp32s3.x''] \<and>
   (let s' = snd (boot Esp32s3 ref_core ref_policy (board_rom Esp32s3) (fresh_boot ref_flash)) in
      ram s' 0x3FCF4000 = 0 \<and> ram s' 0x403CB000 = 0 \<and> ram s' 0x3FCDB000 = 0)"
proof
  have built: "built_for Esp32s3 s3_build" by (simp add: built_for_def s3_build_def)
  show run: "build_main s3_build = Ok [''cargo:rustc-link-search=/esp/linker'',
     ''cargo:rustc-link-arg=-Tespbewi-boot-esp32s3.x'', ''cargo:rerun-if-changed=linker/espbewi-boot-esp32s3.x'']"
    by (simp add: build_main_def linker_of_features_def s3_build_def)
  from memory_maps_protect_bootloader [OF built board_flash_laws [of Esp32s3] ref_policy_laws ref_clear_law, unfolded run,
      where core = ref_core and s = "fresh_boot ref_flash"]
  have spared: "\<forall>a \<in> own_bytes esp32s3_BOOT_MEMORY_MAP linker_esp32s3.
      ram (snd (boot Esp32s3 ref_core ref_policy (board_rom Esp32s3) (fresh_boot ref_flash))) a = 0"
    by (auto simp: memory_map_of_def linker_file_def)
  have "a \<in> own_bytes esp32s3_BOOT_MEMORY_MAP linker_esp32s3" if "a \<in> {0x3FCF4000, 0x403CB000, 0x3FCDB000}" for a
    using that by (auto simp: own_bytes_def sram_region_def physical_def data_address_def contains_def data_alias_def linker_defs map_defs)
  with spared show "let s' = snd (boot Esp32s3 ref_core ref_policy (board_rom Esp32s3) (fresh_boot ref_flash)) in
      ram s' 0x3FCF4000 = 0 \<and> ram s' 0x403CB000 = 0 \<and> ram s' 0x3FCDB000 = 0"
    by (simp add: Let_def)
qed

end
