(* ===== verification/While_Loops.thy ===== *)
theory While_Loops
  imports Bootloader Shared_Flash
begin

text \<open>
  The five \<open>while\<close> loops of the program, read literally: the loop variable has the width the code gives it
  and nothing bounds the number of turns.  A loop that never ends has the value \<open>None\<close>.  Each loop is proved
  to return, whatever the device answers, with the result of the recursive function that the rest of the
  development uses for it.
\<close>

section \<open>Rust's \<open>while\<close> with \<open>?\<close> in its body\<close>

text \<open>
  \<open>c\<close> is the condition on the local variables \<open>l\<close>, \<open>body\<close> one turn, \<open>rest\<close> the code after the loop; an error
  or a panic of the body leaves the function.
\<close>

partial_function (option) while_loop ::
  "('l \<Rightarrow> bool) \<Rightarrow> ('l \<Rightarrow> ('s, 'l, 'e) comp) \<Rightarrow> ('l \<Rightarrow> ('s, 'a, 'e) comp) \<Rightarrow> 'l \<Rightarrow> 's \<Rightarrow> (('a, 'e) res \<times> 's) option" where
  "while_loop c body rest l s =
     (if c l then (case body l s of
        (Ok l', s') \<Rightarrow> while_loop c body rest l' s'
      | (Err e, s') \<Rightarrow> Some (Err e, s')
      | (Panic, s') \<Rightarrow> Some (Panic, s'))
      else Some (rest l s))"

text \<open>
  A loop whose turns shrink a measure returns; and it returns what a function computes that satisfies the
  loop's equation, as long as an invariant \<open>I\<close> of the local variables holds.
\<close>

lemma while_loop_total:
  assumes dec: "\<And>l s l' s'. I l \<Longrightarrow> c l \<Longrightarrow> body l s = (Ok l', s') \<Longrightarrow> I l' \<and> (m l' :: nat) < m l"
    and eq: "\<And>l s. I l \<Longrightarrow> f l s = (if c l then andthen (body l) f s else rest l s)"
    and I: "I l"
  shows "while_loop c body rest l s = Some (f l s)"
  using I
proof (induction "m l" arbitrary: l s rule: less_induct)
  case less
  show ?case
  proof (cases "c l")
    case True
    obtain r s' where body: "body l s = (r, s')" by (cases "body l s")
    show ?thesis
    proof (cases r)
      case (Ok l')
      with body dec [OF less.prems True] have "I l'" "m l' < m l" by auto
      from less.hyps [OF this(2,1)] True body Ok eq [OF less.prems]
      show ?thesis by (simp add: while_loop.simps [of _ _ _ l s] andthen_def)
    qed (use True body eq [OF less.prems] in \<open>simp_all add: while_loop.simps [of _ _ _ l s] andthen_def\<close>)
  next
    case False
    with eq [OF less.prems] show ?thesis by (simp add: while_loop.simps [of _ _ _ l s])
  qed
qed

section \<open>The loops\<close>

definition copy_while :: "'w rom \<Rightarrow> segment \<Rightarrow> u32 \<Rightarrow> u32 \<Rightarrow> 'w boot_st \<Rightarrow> ((unit, boot_error) res \<times> 'w boot_st) option" where
  "copy_while rom seg target = while_loop
     (\<lambda>copied. copied < seg_len seg)
     (\<lambda>copied. let n = min (seg_len seg - copied) 256 in
        andthen (boot_flash_read rom (seg_data_offset seg + copied) (replicate (unat n) 0)) (\<lambda>chunk.
        andthen (modify (\<lambda>s. s\<lparr>ram := stored (ram s) (target + copied) chunk\<rparr>)) (\<lambda>_.
        return (copied + n))))
     (\<lambda>_. return ())"

text \<open>The two ROM loops; the buffer that \<open>flash_read\<close> fills is part of the state.\<close>

definition read_while :: "'w rom \<Rightarrow> u32 \<Rightarrow> nat \<Rightarrow> nat \<Rightarrow> u8 list \<times> 'w \<Rightarrow> ((unit, flash_error) res \<times> u8 list \<times> 'w) option" where
  "read_while rom offset n = while_loop
     (\<lambda>done. done < n)
     (\<lambda>done (out, w).
        let pos = offset + of_nat done;
            start = pos AND NOT 3;
            skip = unat (pos - start);
            want = min (n - done) 252;
            words = div_ceil (skip + want) 4
        in case esp_rom_spiflash_read rom start (replicate 64 0) (of_nat (words * 4)) w of
             (rc, window, w') \<Rightarrow>
               if rc \<noteq> 0 then (Err (FlashRead start), out, w')
               else (Ok (done + want), splice out done (take want (drop skip (take (words * 4) (window_bytes window)))), w'))
     (\<lambda>_. return ())"

definition program_while :: "'w rom \<Rightarrow> u32 \<Rightarrow> u8 list \<Rightarrow> nat \<Rightarrow> 'w \<Rightarrow> ((unit, flash_error) res \<times> 'w) option" where
  "program_while rom at data = while_loop
     (\<lambda>done. done < length data)
     (\<lambda>done w. let n = min (length data - done) 256; dest = at + of_nat done in
        case esp_rom_spiflash_write rom dest (pack_words (take n (drop done data))) (of_nat n) w of
          (rc, w') \<Rightarrow> (if rc \<noteq> 0 then Err (FlashProgram dest) else Ok (done + n), w'))
     (\<lambda>_. return ())"

definition write_while :: "('f, 'e) nor_flash \<Rightarrow> u64 \<Rightarrow> u8 list \<Rightarrow> nat \<Rightarrow> 'f artifact_storage \<Rightarrow>
    ((u64, flash_write_error) res \<times> 'f artifact_storage) option" where
  "write_while F durable_offset pending = while_loop
     (\<lambda>consumed. ERASE_SIZE F \<le> length pending - consumed)
     (\<lambda>consumed. andthen (flush_block F (durable_offset + of_nat consumed) (take (ERASE_SIZE F) (drop consumed pending))) (\<lambda>_.
        return (consumed + ERASE_SIZE F)))
     (\<lambda>consumed. return (durable_offset + of_nat consumed))"

definition hash_while :: "('f, 'x) nor_flash \<Rightarrow> 'h sha256 \<Rightarrow> u32 \<Rightarrow> u32 \<Rightarrow> u32 \<times> 'h \<Rightarrow> 'f \<Rightarrow> (('h, preloaded_error) res \<times> 'f) option" where
  "hash_while F H base sz = while_loop
     (\<lambda>(offset, h). offset < sz)
     (\<lambda>(offset, h). let n = min (unat (sz - offset)) 4096 in
        andthen (map_err (\<lambda>_. PL_Flash) (nf_read_into F (base + offset) (replicate n 0))) (\<lambda>chunk.
        return (offset + of_nat n, sha_update H h chunk)))
     (\<lambda>(offset, h). return h)"

section \<open>Each loop returns\<close>

lemma andthen_OkE:
  assumes "andthen m k s = (Ok b, s')"
  obtains a t where "m s = (Ok a, t)" and "k a t = (Ok b, s')"
  using assms by (auto simp: andthen_def split: prod.splits res.splits)

text \<open>The \<open>u32\<close> variable of the copy never passes the length, so it does not wrap.\<close>

lemma copy_turn:
  assumes "copied < len" and "n = min (len - copied) (256 :: u32)"
  shows "unat n = min (unat len - unat copied) 256" and "unat (copied + n) = unat copied + unat n"
    and "copied + n \<le> len" and "unat len - unat (copied + n) < unat len - unat copied"
proof -
  have lt: "unat copied < unat len" using assms(1) by (simp add: word_less_nat_alt)
  then have sub: "unat (len - copied) = unat len - unat copied" by (simp add: unat_sub_if')
  then show n: "unat n = min (unat len - unat copied) 256" using assms(2) by (simp add: min_def word_le_nat_alt)
  have "unat copied + unat n \<le> unat len" using lt n by simp
  then have "unat n \<le> unat (len - copied)" using sub by simp
  from chunk_advances(1) [OF assms(1) this] show add: "unat (copied + n) = unat copied + unat n" by simp
  show "copied + n \<le> len" using add lt n by (simp add: word_le_nat_alt)
  show "unat len - unat (copied + n) < unat len - unat copied" using add lt n by simp
qed

lemma copy_while_returns:
  "copied \<le> seg_len seg \<Longrightarrow> copy_while rom seg target copied s = Some (copy_segment rom seg target (unat copied) s)"
  unfolding copy_while_def
proof (rule while_loop_total [where I = "\<lambda>c. c \<le> seg_len seg" and m = "\<lambda>c. unat (seg_len seg) - unat c"
      and f = "\<lambda>c. copy_segment rom seg target (unat c)"])
  fix copied :: u32 and s
  show "copy_segment rom seg target (unat copied) s =
    (if copied < seg_len seg then
      andthen (let n = min (seg_len seg - copied) 256 in
        andthen (boot_flash_read rom (seg_data_offset seg + copied) (replicate (unat n) 0)) (\<lambda>chunk.
        andthen (modify (\<lambda>s. s\<lparr>ram := stored (ram s) (target + copied) chunk\<rparr>)) (\<lambda>_. return (copied + n))))
        (\<lambda>c. copy_segment rom seg target (unat c)) s
     else return () s)"
  proof (cases "copied < seg_len seg")
    case True
    note turn = copy_turn [OF True refl]
    show ?thesis
      using True turn(1,2) by (subst copy_segment.simps)
        (simp add: word_less_nat_alt Let_def andthen_def modify_def return_def split: prod.splits res.splits)
  next
    case False
    then show ?thesis by (subst copy_segment.simps) (simp add: word_less_nat_alt return_def)
  qed
qed (auto simp: Let_def modify_def return_def dest: copy_turn(3,4) elim!: andthen_OkE)

lemma read_while_returns:
  fixes rom :: "'w rom" and w :: 'w
  shows "read_while rom offset n done (out, w) = Some (case flash_read_loop rom offset n done out w of ((r, out'), w') \<Rightarrow> (r, out', w'))"
proof -
  let ?f = "\<lambda>k (out, w). case flash_read_loop rom offset n k out w of ((r, out'), w') \<Rightarrow> (r, out', w')"
  have "read_while rom offset n done (out, w) = Some (?f done (out, w))"
    unfolding read_while_def
  proof (rule while_loop_total [where I = "\<lambda>_. True" and m = "\<lambda>k. n - k" and f = ?f])
    fix k :: nat and s :: "u8 list \<times> 'w"
    show "?f k s = (if k < n then andthen (\<lambda>(out, w).
        let pos = offset + of_nat k; start = pos AND NOT 3; skip = unat (pos - start);
            want = min (n - k) 252; words = div_ceil (skip + want) 4
        in case esp_rom_spiflash_read rom start (replicate 64 0) (of_nat (words * 4)) w of
             (rc, window, w') \<Rightarrow>
               if rc \<noteq> 0 then (Err (FlashRead start), out, w')
               else (Ok (k + want), splice out k (take want (drop skip (take (words * 4) (window_bytes window)))), w'))
        ?f s else return () s)"
      by (cases s, simp only: prod.case flash_read_loop.simps [of rom offset n k])
        (simp add: Let_def andthen_def return_def split: prod.splits)
  next
    fix k l' :: nat and s s' :: "u8 list \<times> 'w"
    assume c: "k < n" and run: "(case s of (out, w) \<Rightarrow>
        let pos = offset + of_nat k; start = pos AND NOT 3; skip = unat (pos - start);
            want = min (n - k) 252; words = div_ceil (skip + want) 4
        in case esp_rom_spiflash_read rom start (replicate 64 0) (of_nat (words * 4)) w of
             (rc, window, w') \<Rightarrow>
               if rc \<noteq> 0 then (Err (FlashRead start), out, w')
               else (Ok (k + want), splice out k (take want (drop skip (take (words * 4) (window_bytes window)))), w')) =
      (Ok l', s')"
    then have "l' = k + min (n - k) 252" by (simp add: Let_def split: prod.splits if_splits)
    with c show "True \<and> n - l' < n - k" by simp
  qed simp
  then show ?thesis by simp
qed

lemma program_while_returns: "program_while rom at data done w = Some (flash_program_loop rom at data done w)"
  unfolding program_while_def
proof (rule while_loop_total [where I = "\<lambda>_. True" and m = "\<lambda>k. length data - k" and f = "flash_program_loop rom at data"])
  fix k w
  show "flash_program_loop rom at data k w = (if k < length data then andthen (\<lambda>w.
      let n = min (length data - k) 256; dest = at + of_nat k in
        case esp_rom_spiflash_write rom dest (pack_words (take n (drop k data))) (of_nat n) w of
          (rc, w') \<Rightarrow> (if rc \<noteq> 0 then Err (FlashProgram dest) else Ok (k + n), w'))
      (flash_program_loop rom at data) w else return () w)"
    by (simp add: flash_program_loop.simps [of rom at data k w] Let_def andthen_def return_def split: prod.splits)
qed (auto simp: Let_def split: prod.splits if_splits)

text \<open>A block of a driver without erase blocks panics, so the loop of \<open>write\<close> does not spin.\<close>

lemma flush_block_no_blocks:
  assumes "ERASE_SIZE F = 0"
  shows "flush_block F logical bytes s \<noteq> (Ok u, s')"
  using assms by (auto simp: flush_block_def andthen_def reject_if_def ok_or_def panic_if_def throw_def panic_def return_def
      split: if_splits option.splits)

lemma write_while_returns: "write_while F at pending consumed s = Some (write_loop F at pending consumed s)"
  unfolding write_while_def
proof (rule while_loop_total [where I = "\<lambda>_. True" and m = "\<lambda>consumed. length pending - consumed"
      and f = "write_loop F at pending"])
  fix consumed s
  show "write_loop F at pending consumed s = (if ERASE_SIZE F \<le> length pending - consumed
     then andthen (andthen (flush_block F (at + of_nat consumed) (take (ERASE_SIZE F) (drop consumed pending))) (\<lambda>_.
        return (consumed + ERASE_SIZE F))) (write_loop F at pending) s
     else return (at + of_nat consumed) s)"
    using flush_block_no_blocks [of F "at + of_nat consumed" "take (ERASE_SIZE F) (drop consumed pending)" s]
    by (subst write_loop.simps) (auto simp: andthen_def return_def split: prod.splits res.splits)
next
  fix consumed s consumed' s'
  assume c: "ERASE_SIZE F \<le> length pending - consumed"
    and run: "andthen (flush_block F (at + of_nat consumed) (take (ERASE_SIZE F) (drop consumed pending))) (\<lambda>_.
        return (consumed + ERASE_SIZE F)) s = (Ok consumed', s')"
  from run obtain u t where "flush_block F (at + of_nat consumed) (take (ERASE_SIZE F) (drop consumed pending)) s = (Ok u, t)"
    and "consumed' = consumed + ERASE_SIZE F" by (auto simp: return_def elim!: andthen_OkE)
  moreover from this(1) have "ERASE_SIZE F \<noteq> 0" using flush_block_no_blocks by blast
  ultimately have "consumed' = consumed + ERASE_SIZE F" "ERASE_SIZE F \<noteq> 0" by simp_all
  with c show "True \<and> length pending - consumed' < length pending - consumed" by simp
qed simp

lemma hash_while_returns:
  fixes H :: "'h sha256"
  shows "hash_while F H base sz (offset, h) f = Some (hash_loop F H base sz offset h f)"
proof -
  let ?f = "\<lambda>(offset, h). hash_loop F H base sz offset h"
  have "hash_while F H base sz (offset, h) f = Some (?f (offset, h) f)"
    unfolding hash_while_def
  proof (rule while_loop_total [where I = "\<lambda>_. True" and m = "\<lambda>(offset, h). unat sz - unat offset" and f = ?f])
    fix l :: "u32 \<times> 'h" and s
    show "?f l s = (if (case l of (offset, h) \<Rightarrow> offset < sz) then andthen (case l of (offset, h) \<Rightarrow>
        let n = min (unat (sz - offset)) 4096 in
        andthen (map_err (\<lambda>_. PL_Flash) (nf_read_into F (base + offset) (replicate n 0))) (\<lambda>chunk.
        return (offset + of_nat n, sha_update H h chunk))) ?f s else (case l of (offset, h) \<Rightarrow> return h) s)"
      by (cases l, simp only: prod.case, subst hash_loop.simps)
        (simp add: Let_def andthen_def return_def split: prod.splits res.splits)
  next
    fix l :: "u32 \<times> 'h" and s l' s'
    assume c: "case l of (offset, h) \<Rightarrow> offset < sz"
      and run: "(case l of (offset, h) \<Rightarrow> let n = min (unat (sz - offset)) 4096 in
        andthen (map_err (\<lambda>_. PL_Flash) (nf_read_into F (base + offset) (replicate n 0))) (\<lambda>chunk.
        return (offset + of_nat n, sha_update H h chunk))) s = (Ok l', s')"
    obtain offset h where l: "l = (offset, h)" by (cases l)
    let ?n = "min (unat (sz - offset)) 4096"
    have lt: "offset < sz" using c l by simp
    have le: "?n \<le> unat (sz - offset)" by simp
    have "fst l' = offset + of_nat ?n" using run l by (auto simp: Let_def return_def elim!: andthen_OkE)
    with chunk_advances [OF lt le] lt l
    show "True \<and> (case l' of (offset, h) \<Rightarrow> unat sz - unat offset) < (case l of (offset, h) \<Rightarrow> unat sz - unat offset)"
      by (cases l') (simp add: word_less_nat_alt)
  qed simp
  then show ?thesis by simp
qed

section \<open>The property\<close>

text \<open>C21: every \<open>while\<close> loop of the program comes back, whatever its inputs, whatever the ROM or the flash driver
  answers, and even with a driver that claims to have no erase blocks: the segment copy and the two ROM loops
  of the bootloader, the block loop of \<open>EspArtifactStorage::write\<close> and the hash of a preloaded image.  No
  \<open>u32\<close> loop variable wraps, and each loop computes what its recursive form computes.
\<close>

theorem while_loops_return:
  "copy_while rom seg target 0 s = Some (copy_segment rom seg target 0 s) \<and>
   read_while rom offset (length out) 0 (out, w) = Some (case flash_read rom offset out w of ((r, out'), w') \<Rightarrow> (r, out', w')) \<and>
   program_while rom at data 0 w = Some (flash_program_loop rom at data 0 w) \<and>
   write_while F durable_offset pending 0 b = Some (storage_write F durable_offset pending b) \<and>
   hash_while F H base sz (0, sha_new H) f = Some (hash_loop F H base sz 0 (sha_new H) f)"
  by (simp add: copy_while_returns read_while_returns flash_read_def program_while_returns write_while_returns
      storage_write_def hash_while_returns)

end
