(* ===== verification/Ota_Counters.thy ===== *)
theory Ota_Counters
  imports Ota_Theorems
begin

text \<open>
  The fields of an \<open>ArtifactWriter\<close> and the counters its accessors report: what they are after any use of
  the writer, whatever the session does and whatever fails.  No law of the session is needed.
\<close>

section \<open>Properties that no outcome breaks\<close>

definition stays :: "('s \<Rightarrow> bool) \<Rightarrow> ('s, 'a, 'e) comp \<Rightarrow> bool" where
  "stays I m \<longleftrightarrow> (\<forall>s. I s \<longrightarrow> I (snd (m s)))"

named_theorems stay \<open>closure of \<open>stays\<close>\<close>

lemma staysD: "stays I m \<Longrightarrow> I s \<Longrightarrow> I (snd (m s))"
  by (simp add: stays_def)

lemma stays_keeps: "keeps f m \<Longrightarrow> stays (\<lambda>s. P (f s)) m"
  by (simp add: stays_def keeps_def)

lemma stays_atoms [stay]:
  "stays I (return a)" "stays I (throw e)" "stays I panic" "stays I (gets g)"
  "stays I (reject_if b e)" "stays I (panic_if b)" "stays I (ok_or e x)"
  by (auto simp: stays_def combinator_defs split: option.splits)

lemma stays_andthen [stay]: "stays I m \<Longrightarrow> (\<And>a. stays I (k a)) \<Longrightarrow> stays I (andthen m k)"
  unfolding stays_def andthen_def by (auto split: prod.splits res.splits)

lemma andthen_stays: "I (snd (m s)) \<Longrightarrow> (\<And>a. stays I (k a)) \<Longrightarrow> I (snd (andthen m k s))"
  unfolding stays_def andthen_def by (auto split: prod.splits res.splits)

lemma stays_modify [stay]: "(\<And>s. I s \<Longrightarrow> I (g s)) \<Longrightarrow> stays I (modify g)"
  by (simp add: stays_def modify_def)

lemma stays_if [stay]: "(b \<Longrightarrow> stays I m) \<Longrightarrow> (\<not> b \<Longrightarrow> stays I n) \<Longrightarrow> stays I (if b then m else n)"
  by simp

section \<open>Well-formed writers\<close>

text \<open>\<open>slot\<close>; the other two accessors are the record's fields.\<close>

definition aw_slot :: "artifact_writer \<Rightarrow> app_slot" where
  "aw_slot w = ap_slot (aw_partition w)"

text \<open>
  The erased range ends on a batch boundary or with the partition, and the number of erase batches is the
  number of whole batches in it: a last batch cut short by the end of the partition is not counted.
\<close>

definition writer_wf :: "app_partition \<Rightarrow> artifact_writer \<Rightarrow> bool" where
  "writer_wf part w \<longleftrightarrow> aw_partition w = part \<and> unat (erased_through w) \<le> ap_size part \<and>
     (65536 dvd unat (erased_through w) \<or> unat (erased_through w) = ap_size part) \<and>
     unat (erase_batches w) = unat (erased_through w) div 65536"

lemma desired_erased_wf:
  assumes "n < usize_limit"
  shows "unat (desired_erased e n) \<le> n" and "65536 dvd unat (desired_erased e n) \<or> unat (desired_erased e n) = n"
proof -
  let ?q = "word_div_ceil e erase_batch_size" and ?m = "u64_saturating_mul (word_div_ceil e erase_batch_size) erase_batch_size"
  have n: "unat (of_nat n :: u64) = n" using assms by (simp add: unat_of_nat usize_limit_def)
  show "unat (desired_erased e n) \<le> n" using n by (simp add: desired_erased_def min_def word_le_nat_alt)
  show "65536 dvd unat (desired_erased e n) \<or> unat (desired_erased e n) = n"
  proof (cases "unat ?q * unat erase_batch_size < 2 ^ 64")
    case True
    then have "unat ?m = unat ?q * 65536"
      by (simp add: u64_saturating_mul_def unat_word_ariths) (simp add: erase_batch_size_def)
    with n show ?thesis by (simp add: desired_erased_def min_def word_le_nat_alt)
  next
    case False
    then have "?m = - 1" by (simp add: u64_saturating_mul_def)
    then have "min ?m (of_nat n) = of_nat n" by (metis min.absorb2 word_n1_ge)
    with n show ?thesis by (simp add: desired_erased_def)
  qed
qed

text \<open>One more erase: the batches of the new stretch are added to those before it.\<close>

lemma batches_add:
  assumes w: "writer_wf part w" and part: "ap_size part < usize_limit" and lt: "erased_through w < desired"
    and le: "unat desired \<le> ap_size part" and al: "65536 dvd unat desired \<or> unat desired = ap_size part"
  shows "writer_wf part (w\<lparr>erase_batches := erase_batches w + ucast ((desired - erased_through w) div erase_batch_size),
    erased_through := desired\<rparr>)"
proof -
  let ?t = "unat (erased_through w)" and ?d = "unat desired"
  have lt': "?t < ?d" using lt by (simp add: word_less_nat_alt)
  with w le have t: "65536 dvd ?t" by (auto simp: writer_wf_def)
  have d: "?d < 2 ^ 32" using le part by (simp add: usize_limit_def)
  have "unat (desired - erased_through w) = ?d - ?t" using lt' by (simp add: unat_sub_if')
  then have q: "unat ((desired - erased_through w) div erase_batch_size) = (?d - ?t) div 65536"
    by (simp add: unat_div erase_batch_size_def)
  have small: "(?d - ?t) div 65536 < 65536" using d by (simp add: less_mult_imp_div_less)
  have "unat (ucast ((desired - erased_through w) div erase_batch_size) :: u32) = (?d - ?t) div 65536"
    using q small by (simp add: unsigned_ucast_eq take_bit_eq_mod)
  moreover have "?t div 65536 + (?d - ?t) div 65536 = ?d div 65536" using t lt' by (auto elim!: dvdE) 
  moreover have "?d div 65536 < 65536" using d by (simp add: less_mult_imp_div_less)
  ultimately have "unat (erase_batches w + ucast ((desired - erased_through w) div erase_batch_size)) = ?d div 65536"
    using w by (simp add: writer_wf_def unat_word_ariths)
  with w le al show ?thesis by (simp add: writer_wf_def)
qed

section \<open>The operations\<close>

text \<open>A writer that is well-formed and whose erased range has not shrunk below \<open>low\<close>.\<close>

definition grown :: "app_partition \<Rightarrow> u64 \<Rightarrow> ('g, 'f) upload \<Rightarrow> bool" where
  "grown part low s \<longleftrightarrow> writer_wf part (up_writer s) \<and> low \<le> erased_through (up_writer s)"

lemma engine_append_grown [stay]: "stays (grown part low) (engine_append E F data)"
  by (auto simp: stays_def engine_append_def put_backend_def grown_def writer_wf_def
      split: sum.splits prod.splits res.splits)

lemma count_flushed_grown [stay]: "stays (grown part low) (count_flushed E F a b)"
  unfolding count_flushed_def by (intro stay) (simp add: grown_def writer_wf_def)

lemma erase_ahead_grown:
  assumes s: "grown part low s" and part: "ap_size part < usize_limit" and lt: "erased_through (up_writer s) < desired"
    and le: "unat desired \<le> ap_size part" and al: "65536 dvd unat desired \<or> unat desired = ap_size part"
  shows "grown part low (snd (erase_ahead F desired s))"
proof -
  have "low \<le> desired" using s lt unfolding grown_def by (meson less_imp_le order_trans)
  moreover have "writer_wf part (up_writer s)" using s by (simp add: grown_def)
  from batches_add [OF this part lt le al] calculation s show ?thesis
    by (auto simp: erase_ahead_def combinator_defs grown_def split: prod.splits res.splits)
qed

lemma aw_append_grown:
  assumes part: "ap_size part < usize_limit" and s: "grown part low s"
  shows "grown part low (snd (aw_append E F data s))"
proof (cases "can_append E (up_engine s) (length data)")
  case True
  let ?desired = "desired_erased (received E (up_engine s) + of_nat (length data)) (ap_size part)"
  let ?ahead = "if erased_through (up_writer s) < ?desired
     then andthen (erase_ahead F ?desired) (\<lambda>erased. if erased then engine_append E F data else return False)
     else engine_append E F data"
  let ?tail = "\<lambda>ok. andthen (gets (\<lambda>s. durable E (up_engine s))) (\<lambda>after.
     andthen (count_flushed E F (durable E (up_engine s)) after) (\<lambda>_. return ok))"
  have "aw_partition (up_writer s) = part" using s by (simp add: grown_def writer_wf_def)
  then have run: "aw_append E F data s = andthen ?ahead ?tail s" using True by (simp add: aw_append_def gets_def andthen_def)
  have rest: "stays (grown part low) (if r then engine_append E F data else return False)" for r by (intro stay)
  have "grown part low (snd (?ahead s))"
  proof (cases "erased_through (up_writer s) < ?desired")
    case lt: True
    obtain r t where e: "erase_ahead F ?desired s = (r, t)" by (cases "erase_ahead F ?desired s")
    with erase_ahead_grown [OF s part lt desired_erased_wf [OF part], of F] have "grown part low t" by simp
    with staysD [OF rest] lt e show ?thesis by (simp add: andthen_def split: res.splits)
  qed (use staysD [OF engine_append_grown s] in simp)
  moreover have "stays (grown part low) (?tail ok)" for ok by (intro stay)
  ultimately show ?thesis unfolding run by (rule andthen_stays)
qed (use s in \<open>simp add: aw_append_def gets_def andthen_def return_def\<close>)

lemma aw_finish_grown: "grown part low s \<Longrightarrow> grown part low (snd (aw_finish E F s))"
proof -
  have "stays (grown part low) (\<lambda>s. case new_pre_erased F (up_flash s) (aw_partition (up_writer s)) (aw_scratch (up_writer s)) of
         Inl e \<Rightarrow> (Err (Backend e), s)
       | Inr b \<Rightarrow> (case ws_finish E (storage_ops F) g b of (r, b') \<Rightarrow> (r, put_backend b' s)))" for g
    by (auto simp: stays_def put_backend_def grown_def writer_wf_def split: sum.splits prod.splits)
  then have "stays (grown part low) (aw_finish E F)" unfolding aw_finish_def by (intro stay)
  then show "grown part low s \<Longrightarrow> grown part low (snd (aw_finish E F s))" by (rule staysD)
qed

section \<open>Any use of a writer\<close>

text \<open>Chunks handed to a writer one after the other, whatever each call reports.\<close>

fun append_each :: "('g, 'f artifact_storage) write_session \<Rightarrow> ('f, 'x) nor_flash \<Rightarrow> u8 list list \<Rightarrow> ('g, 'f) upload \<Rightarrow> ('g, 'f) upload" where
  "append_each E F [] s = s"
| "append_each E F (c # cs) s = append_each E F cs (snd (aw_append E F c s))"

lemma append_each_grown:
  "ap_size part < usize_limit \<Longrightarrow> grown part low s \<Longrightarrow> grown part low (append_each E F chunks s)"
  by (induction chunks arbitrary: s) (simp_all add: aw_append_grown)

text \<open>C22: an \<open>ArtifactWriter\<close> stays well-formed.  Whatever chunks it is handed, whatever the session does and
  whatever fails, its partition is the one it was made for, its erased range never shrinks, lies in the
  partition and ends on a 64 KiB boundary or with the partition, and the number of erase batches it reports
  is exactly the number of whole batches in that range; this holds before and after \<open>finish\<close>.
\<close>

theorem writer_stays_well_formed:
  assumes "ap_size part < usize_limit"
  shows "let s = append_each E F chunks (upload_start F part g f);
             t = append_each E F further s; u = snd (aw_finish E F t) in
    writer_wf part (up_writer t) \<and> writer_wf part (up_writer u) \<and> aw_slot (up_writer u) = ap_slot part \<and>
    erased_through (up_writer s) \<le> erased_through (up_writer t) \<and> erased_through (up_writer t) \<le> erased_through (up_writer u)"
proof -
  let ?s = "append_each E F chunks (upload_start F part g f)"
  let ?t = "append_each E F further ?s"
  have "grown part 0 (upload_start F part g f)"
    by (simp add: grown_def writer_wf_def upload_start_def aw_new_def)
  from append_each_grown [OF assms this] have "grown part (erased_through (up_writer ?s)) ?s" by (simp add: grown_def)
  from append_each_grown [OF assms this] have t: "grown part (erased_through (up_writer ?s)) ?t" .
  then have "grown part (erased_through (up_writer ?t)) ?t" by (simp add: grown_def)
  from aw_finish_grown [OF this] t show ?thesis by (auto simp: Let_def grown_def writer_wf_def aw_slot_def)
qed

text \<open>A partition of two and a half batches.\<close>

definition short_part :: app_partition where
  "short_part = \<lparr>ap_slot = Ota1, ap_offset = 0x120000, ap_size = 0x28000\<rparr>"

theorem writer_stays_well_formed_witness:
  "let s = append_each ref_session sim_nor [[1, 2, 3]] (upload_start sim_nor short_part \<lparr>rs_acc = [], rs_dur = 0\<rparr> (\<lambda>_. 7));
       t = append_each ref_session sim_nor [[4]] s; u = snd (aw_finish ref_session sim_nor t) in
    writer_wf short_part (up_writer t) \<and> writer_wf short_part (up_writer u) \<and> aw_slot (up_writer u) = Ota1 \<and>
    erased_through (up_writer s) \<le> erased_through (up_writer t) \<and> erased_through (up_writer t) \<le> erased_through (up_writer u)"
  using writer_stays_well_formed [of short_part ref_session sim_nor "[[1, 2, 3]]" "\<lparr>rs_acc = [], rs_dur = 0\<rparr>" "\<lambda>_. 7" "[[4]]"]
  by (simp add: short_part_def usize_limit_def)

end
