(* ===== verification/Config_Space.thy ===== *)
theory Config_Space
  imports Nor_Flash
begin

text \<open>
  \<open>adapters/config-space/src/lib.rs\<close>: configuration spaces kept as versioned records in NVS.  The NVS
  library \<open>esp-nvs\<close> is the parameter \<open>nvs_lib\<close>; an operation opens it on the locked flash, works on the
  handle and releases it.  The atomic \<open>HEALTHY\<close> is a field of the state.  Space names are the bytes
  of the \<open>&str\<close>; the log output is not modelled.
\<close>

section \<open>The NVS library\<close>

datatype nvs_error = NamespaceNotFound | KeyNotFound | Nvs_Other

text \<open>\<open>nvs_typed_entries\<close> is what the iterator yields up to its end or its first error.\<close>

record ('d, 'h, 'k) nvs_lib =
  nvs_new :: "nat \<Rightarrow> nat \<Rightarrow> 'd nvs_flash \<Rightarrow> nvs_error \<times> 'd nvs_flash + 'h"
  nvs_close :: "'h \<Rightarrow> 'd nvs_flash"
  nvs_get_blob :: "'k \<Rightarrow> 'k \<Rightarrow> ('h, u8 list, nvs_error) comp"
  nvs_set_blob :: "'k \<Rightarrow> 'k \<Rightarrow> u8 list \<Rightarrow> ('h, unit, nvs_error) comp"
  nvs_get_u8 :: "'k \<Rightarrow> 'k \<Rightarrow> ('h, u8, nvs_error) comp"
  nvs_set_u8 :: "'k \<Rightarrow> 'k \<Rightarrow> u8 \<Rightarrow> ('h, unit, nvs_error) comp"
  nvs_delete :: "'k \<Rightarrow> 'k \<Rightarrow> ('h, unit, nvs_error) comp"
  nvs_statistics :: "('h, u32 \<times> u32, nvs_error) comp"
  nvs_typed_entries :: "'h \<Rightarrow> (nvs_error + 'k \<times> 'k) list \<times> 'h"
  key_from :: "u8 list \<Rightarrow> 'k"
  ITEM_SIZE :: nat
  ENTRIES_PER_PAGE :: nat
  MAX_BLOB_DATA_PER_PAGE :: nat

definition NAMESPACE :: "('d, 'h, 'k) nvs_lib \<Rightarrow> 'k" where
  "NAMESPACE N = key_from N (ascii ''cfg_space'')"

definition HEALTH_NAMESPACE :: "('d, 'h, 'k) nvs_lib \<Rightarrow> 'k" where
  "HEALTH_NAMESPACE N = key_from N (ascii ''cfg_health'')"

definition HEALTH_KEY :: "('d, 'h, 'k) nvs_lib \<Rightarrow> 'k" where
  "HEALTH_KEY N = key_from N (ascii ''canary'')"

definition MAGIC :: "u8 list" where "MAGIC = ascii ''CSM1''"

definition FLAG_PRESENT :: u8 where "FLAG_PRESENT = 0x01"

definition HEADER_LEN :: nat where "HEADER_LEN = 4 + 8 + 1"

definition MAX_NVS_KEY_LEN :: nat where "MAX_NVS_KEY_LEN = 15"

section \<open>Records\<close>

datatype nvs_config_error = NC_Unavailable | NC_Write | InvalidSpace | CorruptRecord | GenerationOverflow

type_synonym config_record = "u64 \<times> bool \<times> u8 list"

definition encode_record :: "u64 \<Rightarrow> bool \<Rightarrow> u8 list \<Rightarrow> u8 list" where
  "encode_record generation present payload =
     MAGIC @ to_le 8 generation @ [if present then FLAG_PRESENT else 0] @ payload"

definition decode_record :: "u8 list \<Rightarrow> nvs_config_error + config_record" where
  "decode_record raw =
     (if length raw < HEADER_LEN \<or> take 4 raw \<noteq> MAGIC then Inl CorruptRecord
      else let generation = from_le (take 8 (drop 4 raw)); flags = raw ! 12 in
        if flags AND NOT FLAG_PRESENT \<noteq> 0 then Inl CorruptRecord
        else Inr (generation, flags AND FLAG_PRESENT \<noteq> 0, drop HEADER_LEN raw))"

section \<open>Names, keys and sizes\<close>

definition valid_space_name :: "u8 list \<Rightarrow> bool" where
  "valid_space_name space \<longleftrightarrow> space \<noteq> [] \<and> length space \<le> MAX_NVS_KEY_LEN \<and>
     list_all (\<lambda>b. b < 0x80 \<and> b \<noteq> 0) space"

definition space_key :: "('d, 'h, 'k) nvs_lib \<Rightarrow> u8 list \<Rightarrow> ('s, 'k, nvs_config_error) comp" where
  "space_key N space = (if \<not> valid_space_name space then throw InvalidSpace else return (key_from N space))"

text \<open>The \<open>?\<close> of each \<open>checked_add\<close> in turn; the divisors are constants of the library.\<close>

definition entries_for_blob :: "('d, 'h, 'k) nvs_lib \<Rightarrow> nat \<Rightarrow> nat option" where
  "entries_for_blob N encoded_size =
     Option.bind (usize_checked_add encoded_size (ITEM_SIZE N - 1)) (\<lambda>a.
     let data_entries = a div ITEM_SIZE N in
     Option.bind (usize_checked_add encoded_size (MAX_BLOB_DATA_PER_PAGE N - 1)) (\<lambda>b.
     let chunks = b div MAX_BLOB_DATA_PER_PAGE N in
     Option.bind (usize_checked_add data_entries chunks) (\<lambda>c. usize_checked_add c 1)))"

section \<open>The backend\<close>

record 'd config_world =
  cw_flash :: "'d esp_flash"
  HEALTHY :: bool

record config_backend =
  cb_partition :: nvs_partition
  capacity_units :: nat

definition is_healthy :: "'d config_world \<Rightarrow> bool" where
  "is_healthy s = HEALTHY s"

definition on_nvs ::
  "('d, 'h, 'k) nvs_lib \<Rightarrow> nvs_partition \<Rightarrow> 'e \<Rightarrow> ('h, 'r, 'e) comp \<Rightarrow> ('d config_world, 'r, 'e) comp" where
  "on_nvs N part unavailable f s = (case nvs_open (nvs_new N) (cw_flash s) part of
       Inl (e, flash) \<Rightarrow> (Err unavailable, s\<lparr>cw_flash := nvs_inner flash\<rparr>)
     | Inr nvs \<Rightarrow> (case f nvs of (r, nvs') \<Rightarrow> (r, s\<lparr>cw_flash := nvs_inner (nvs_close N nvs')\<rparr>)))"

definition with_nvs ::
  "('d, 'h, 'k) nvs_lib \<Rightarrow> nvs_partition \<Rightarrow> ('h, 'r, nvs_config_error) comp \<Rightarrow> ('d config_world, 'r, nvs_config_error) comp" where
  "with_nvs N part f s = (case on_nvs N part NC_Unavailable f s of
       (Err e, s') \<Rightarrow> (Err e, s'\<lparr>HEALTHY := False\<rparr>)
     | (Ok r, s') \<Rightarrow> (Ok r, s')
     | (Panic, s') \<Rightarrow> (Panic, s'))"

fun own_keys :: "'k \<Rightarrow> (nvs_error + 'k \<times> 'k) list \<Rightarrow> nvs_config_error + 'k list" where
  "own_keys ns [] = Inr []"
| "own_keys ns (Inl e # items) = Inl NC_Write"
| "own_keys ns (Inr (namespace, key) # items) = (case own_keys ns items of
       Inl e \<Rightarrow> Inl e
     | Inr keys \<Rightarrow> Inr (if namespace = ns then key # keys else keys))"

fun sum_entries :: "('d, 'h, 'k) nvs_lib \<Rightarrow> 'k list \<Rightarrow> nat \<Rightarrow> ('h, nat, nvs_config_error) comp" where
  "sum_entries N [] owned = return owned"
| "sum_entries N (key # keys) owned =
     andthen (map_err (\<lambda>_. NC_Write) (nvs_get_blob N (NAMESPACE N) key)) (\<lambda>raw.
     andthen (ok_or CorruptRecord (entries_for_blob N (length raw))) (\<lambda>entries.
     sum_entries N keys (usize_saturating_add owned entries)))"

definition owned_entries :: "('d, 'h, 'k) nvs_lib \<Rightarrow> ('h, nat, nvs_config_error) comp" where
  "owned_entries N nvs = (case nvs_typed_entries N nvs of (items, nvs') \<Rightarrow>
     (case own_keys (NAMESPACE N) items of
        Inl e \<Rightarrow> throw e nvs'
      | Inr keys \<Rightarrow> sum_entries N keys 0 nvs'))"

text \<open>
  The block of \<open>new\<close>.  Its errors carry whether the code clears the health flag: it does for the
  statistics, it does not for \<open>owned_entries\<close>.
\<close>

definition new_capacity :: "('d, 'h, 'k) nvs_lib \<Rightarrow> ('h, nat, bool \<times> nvs_config_error) comp" where
  "new_capacity N =
     andthen (map_err (\<lambda>_. (True, NC_Write)) (nvs_statistics N)) (\<lambda>(empty, erased_entries).
     let reclaimable = usize_saturating_add (unat empty) (unat erased_entries) in
     andthen (map_err (Pair False) (owned_entries N)) (\<lambda>owned.
     return (usize_saturating_add reclaimable owned - ENTRIES_PER_PAGE N)))"

definition config_new :: "('d, 'h, 'k) nvs_lib \<Rightarrow> nvs_partition \<Rightarrow> ('d config_world, config_backend, nvs_config_error) comp" where
  "config_new N part s = (case on_nvs N part (True, NC_Unavailable) (new_capacity N) s of
       (Ok cap, s') \<Rightarrow> (Ok \<lparr>cb_partition = part, capacity_units = cap\<rparr>, s'\<lparr>HEALTHY := True\<rparr>)
     | (Err (unhealthy, e), s') \<Rightarrow> (Err e, if unhealthy then s'\<lparr>HEALTHY := False\<rparr> else s')
     | (Panic, s') \<Rightarrow> (Panic, s'))"

definition canary :: "('d, 'h, 'k) nvs_lib \<Rightarrow> ('h, bool, nvs_config_error) comp" where
  "canary N =
     andthen (map_err (\<lambda>_. NC_Write) (nvs_set_u8 N (HEALTH_NAMESPACE N) (HEALTH_KEY N) 0xA5)) (\<lambda>_.
     andthen (map_err (\<lambda>_. NC_Write) (nvs_get_u8 N (HEALTH_NAMESPACE N) (HEALTH_KEY N))) (\<lambda>v.
     andthen (map_err (\<lambda>_. NC_Write) (nvs_delete N (HEALTH_NAMESPACE N) (HEALTH_KEY N))) (\<lambda>_.
     return (v = 0xA5))))"

definition self_check :: "('d, 'h, 'k) nvs_lib \<Rightarrow> config_backend \<Rightarrow> ('d config_world, bool, nvs_config_error) comp" where
  "self_check N B =
     andthen (attempt (with_nvs N (cb_partition B) (canary N))) (\<lambda>r.
     let ok = (case r of Inl _ \<Rightarrow> False | Inr b \<Rightarrow> b) in
     andthen (modify (\<lambda>s. s\<lparr>HEALTHY := ok\<rparr>)) (\<lambda>_. return ok))"

definition try_decode :: "u8 list \<Rightarrow> ('s, config_record, nvs_config_error) comp" where
  "try_decode raw = (case decode_record raw of Inl e \<Rightarrow> throw e | Inr r \<Rightarrow> return r)"

definition next_generation :: "nvs_error + u8 list \<Rightarrow> ('s, u64, nvs_config_error) comp" where
  "next_generation r = (case r of
       Inr raw \<Rightarrow> andthen (try_decode raw) (\<lambda>(generation, _, _). ok_or GenerationOverflow (u64_checked_add generation 1))
     | Inl NamespaceNotFound \<Rightarrow> return 1
     | Inl KeyNotFound \<Rightarrow> return 1
     | Inl Nvs_Other \<Rightarrow> throw NC_Write)"

definition replace ::
  "('d, 'h, 'k) nvs_lib \<Rightarrow> config_backend \<Rightarrow> u8 list \<Rightarrow> bool \<Rightarrow> u8 list \<Rightarrow> ('d config_world, u64, nvs_config_error) comp" where
  "replace N B space present payload =
     andthen (space_key N space) (\<lambda>key.
     with_nvs N (cb_partition B)
       (andthen (attempt (nvs_get_blob N (NAMESPACE N) key)) (\<lambda>r.
        andthen (next_generation r) (\<lambda>generation.
        andthen (map_err (\<lambda>_. NC_Write)
          (nvs_set_blob N (NAMESPACE N) key (encode_record generation present payload))) (\<lambda>_.
        return generation)))))"

section \<open>The ConfigBackend trait\<close>

definition reservation_units :: "('d, 'h, 'k) nvs_lib \<Rightarrow> u8 list \<Rightarrow> nat \<Rightarrow> nat option" where
  "reservation_units N space max_bytes =
     (if \<not> valid_space_name space then None
      else Option.bind (usize_checked_add HEADER_LEN max_bytes) (\<lambda>encoded_size.
           Option.bind (entries_for_blob N encoded_size) (\<lambda>one_version. usize_checked_mul one_version 2)))"

record snapshot =
  sn_generation :: u64
  sn_data :: "u8 list"

definition found_snapshot :: "nvs_error + u8 list \<Rightarrow> ('s, snapshot option, nvs_config_error) comp" where
  "found_snapshot r = (case r of
       Inr raw \<Rightarrow> andthen (try_decode raw) (\<lambda>(generation, present, payload).
         return (if present then Some \<lparr>sn_generation = generation, sn_data = payload\<rparr> else None))
     | Inl NamespaceNotFound \<Rightarrow> return None
     | Inl KeyNotFound \<Rightarrow> return None
     | Inl Nvs_Other \<Rightarrow> throw NC_Write)"

definition config_load :: "('d, 'h, 'k) nvs_lib \<Rightarrow> config_backend \<Rightarrow> u8 list \<Rightarrow> ('d config_world, snapshot option, nvs_config_error) comp" where
  "config_load N B space =
     andthen (space_key N space) (\<lambda>key.
     with_nvs N (cb_partition B) (andthen (attempt (nvs_get_blob N (NAMESPACE N) key)) found_snapshot))"

definition config_commit :: "('d, 'h, 'k) nvs_lib \<Rightarrow> config_backend \<Rightarrow> u8 list \<Rightarrow> u8 list \<Rightarrow> ('d config_world, u64, nvs_config_error) comp" where
  "config_commit N B space data = replace N B space True data"

definition config_clear :: "('d, 'h, 'k) nvs_lib \<Rightarrow> config_backend \<Rightarrow> u8 list \<Rightarrow> ('d config_world, u64, nvs_config_error) comp" where
  "config_clear N B space = replace N B space False []"

end
