(* ===== verification/Config_Contract.thy ===== *)
theory Config_Contract
  imports Config_Space
begin

text \<open>
  The contract of the configuration backend: the record format is a codec (locale \<open>codec\<close>), and
  load, commit and clear make a store of versioned records (locale \<open>versioned_store\<close>).  Both are
  interpreted on the definitions of \<open>Config_Space\<close>, for every NVS library with \<open>nvs_laws\<close>.
\<close>

section \<open>Codecs\<close>

locale codec =
  fixes enc :: "'a \<Rightarrow> u8 list" and dec :: "u8 list \<Rightarrow> 'e + 'a"
  assumes dec_enc: "dec (enc x) = Inr x" and enc_dec: "dec bs = Inr x \<Longrightarrow> enc x = bs"
begin

lemma dec_iff: "dec bs = Inr x \<longleftrightarrow> bs = enc x"
proof
  assume "dec bs = Inr x"
  from enc_dec [OF this] show "bs = enc x" by (rule sym)
next
  assume "bs = enc x"
  then show "dec bs = Inr x" by (simp only: dec_enc)
qed

lemma enc_inject: "enc x = enc y \<longleftrightarrow> x = y"
proof
  assume "enc x = enc y"
  then have "dec (enc x) = dec (enc y)" by (rule arg_cong)
  then show "x = y" by (simp only: dec_enc sum.inject)
qed simp

lemma dec_rejects: "(\<exists>e. dec bs = Inl e) \<longleftrightarrow> bs \<notin> range enc"
proof -
  have "(\<exists>e. dec bs = Inl e) \<longleftrightarrow> \<not> (\<exists>x. dec bs = Inr x)" by (cases "dec bs") simp_all
  then show ?thesis unfolding dec_iff by auto
qed

end

lemma flag_cases: "(flags :: u8) AND NOT FLAG_PRESENT = 0 \<Longrightarrow> flags = (if flags AND FLAG_PRESENT \<noteq> 0 then FLAG_PRESENT else 0)"
proof -
  assume "flags AND NOT FLAG_PRESENT = 0"
  then have "flags AND FLAG_PRESENT = flags" using word_and_split [of flags FLAG_PRESENT] by simp
  moreover have "flags AND FLAG_PRESENT \<in> {0, 1}"
    by (simp add: FLAG_PRESENT_def and_one_eq mod_2_eq_odd)
  ultimately show ?thesis by (auto simp: FLAG_PRESENT_def)
qed

lemma record_layout:
  "length (encode_record g p d) = HEADER_LEN + length d" "take 4 (encode_record g p d) = MAGIC"
  "take 8 (drop 4 (encode_record g p d)) = to_le 8 g" "encode_record g p d ! 12 = (if p then FLAG_PRESENT else 0)"
  "drop HEADER_LEN (encode_record g p d) = d"
  by (simp_all add: encode_record_def HEADER_LEN_def MAGIC_def ascii_def nth_append)

lemma split_record:
  assumes "HEADER_LEN \<le> length raw"
  shows "raw = take 4 raw @ take 8 (drop 4 raw) @ [raw ! 12] @ drop HEADER_LEN raw"
proof -
  have "raw = take 4 raw @ drop 4 raw" by simp
  also have "drop 4 raw = take 8 (drop 4 raw) @ drop 12 raw" using append_take_drop_id [of 8 "drop 4 raw", symmetric] by simp
  also have "drop 12 raw = raw ! 12 # drop 13 raw" using assms Cons_nth_drop_Suc [of 12 raw] by (simp add: HEADER_LEN_def)
  finally show ?thesis by (simp add: HEADER_LEN_def)
qed

interpretation record_codec: codec "\<lambda>(g, p, d). encode_record g p d" decode_record
proof
  fix r :: config_record and raw
  obtain g p d where r: "r = (g, p, d)" by (cases r)
  show "decode_record (case r of (g, p, d) \<Rightarrow> encode_record g p d) = Inr r"
    using from_le_to_le [of 8 g] by (simp add: r decode_record_def record_layout Let_def FLAG_PRESENT_def)
  assume dec: "decode_record raw = Inr r"
  then have ok: "HEADER_LEN \<le> length raw" "take 4 raw = MAGIC" "raw ! 12 AND NOT FLAG_PRESENT = 0"
    and parts: "g = from_le (take 8 (drop 4 raw))" "p = (raw ! 12 AND FLAG_PRESENT \<noteq> 0)" "d = drop HEADER_LEN raw"
    by (auto simp: r decode_record_def Let_def split: if_splits)
  have "to_le 8 g = take 8 (drop 4 raw)" unfolding parts(1) by (rule to_le_from_le) (use ok(1) in \<open>simp_all add: HEADER_LEN_def\<close>)
  with flag_cases [OF ok(3)] ok(2) parts(2,3) split_record [OF ok(1)]
  show "(case r of (g, p, d) \<Rightarrow> encode_record g p d) = raw" by (simp add: r encode_record_def)
qed

section \<open>Stores of versioned records\<close>

text \<open>A write stores data or, when it is a clear, marks the record absent; its generation follows the last.\<close>

definition follows :: "config_record option \<Rightarrow> u64 \<Rightarrow> bool" where
  "follows old g \<longleftrightarrow> (case old of None \<Rightarrow> g = 1 | Some (g0, _, _) \<Rightarrow> unat g = unat g0 + 1)"

definition written :: "u64 \<Rightarrow> u8 list option \<Rightarrow> config_record" where
  "written g w = (g, w \<noteq> None, case w of None \<Rightarrow> [] | Some data \<Rightarrow> data)"

definition snapshot_of :: "config_record option \<Rightarrow> snapshot option" where
  "snapshot_of r = (case r of Some (g, True, data) \<Rightarrow> Some \<lparr>sn_generation = g, sn_data = data\<rparr> | _ \<Rightarrow> None)"

lemma snapshot_of_written [simp]:
  "snapshot_of (Some (written g w)) = map_option (\<lambda>data. \<lparr>sn_generation = g, sn_data = data\<rparr>) w"
  by (cases w) (simp_all add: snapshot_of_def written_def)

fun write_all :: "('n \<Rightarrow> u8 list option \<Rightarrow> ('s, u64, 'e) comp) \<Rightarrow> ('n \<times> u8 list option) list \<Rightarrow> ('s, u64 list, 'e) comp" where
  "write_all store [] = return []"
| "write_all store ((sp, w) # ws) =
     andthen (store sp w) (\<lambda>g. andthen (write_all store ws) (\<lambda>gs. return (g # gs)))"

fun after_write :: "('n \<times> u8 list option) \<times> u64 \<Rightarrow> ('n \<Rightarrow> config_record option) \<Rightarrow> 'n \<Rightarrow> config_record option" where
  "after_write ((sp, w), g) C = C(sp \<mapsto> written g w)"

locale versioned_store =
  fixes store :: "'d \<Rightarrow> 'n \<Rightarrow> u8 list option \<Rightarrow> ('s, u64, 'e) comp"
    and load :: "'d \<Rightarrow> 'n \<Rightarrow> ('s, snapshot option, 'e) comp"
    and good :: "'d \<Rightarrow> bool"
    and records :: "'d \<Rightarrow> 's \<Rightarrow> 'n \<Rightarrow> config_record option"
  assumes write_law: "good d \<Longrightarrow> triple (\<lambda>s. records d s = C) (store d sp w)
      (\<lambda>g s. follows (C sp) g \<and> records d s = C(sp \<mapsto> written g w))
      (\<lambda>_ s. records d s = C \<or> (\<exists>g. follows (C sp) g \<and> records d s = C(sp \<mapsto> written g w)))"
    and load_law: "good d \<Longrightarrow> triple (\<lambda>s. records d s = C) (load d sp)
      (\<lambda>r s. records d s = C \<and> r = snapshot_of (C sp)) (\<lambda>_ s. records d s = C)"
begin

lemma load_after_write:
  assumes "good d" and "store d sp w s = (Ok g, s')" and "load d sp s' = (Ok r, s'')"
  shows "r = map_option (\<lambda>data. \<lparr>sn_generation = g, sn_data = data\<rparr>) w"
proof -
  have "records d s' = (records d s)(sp \<mapsto> written g w)"
    using triple_OkD [OF write_law [OF assms(1)] refl assms(2)] by simp
  then show ?thesis using triple_OkD [OF load_law [OF assms(1)] refl assms(3)] by simp
qed

text \<open>Of a run of writes that all succeed, the last to a space is what the space holds.\<close>

lemma write_all_law:
  assumes "good d"
  shows "triple (\<lambda>s. records d s = C) (write_all (store d) ws)
     (\<lambda>gs s. length gs = length ws \<and>
        records d s = fold after_write (zip ws gs) C)
     (\<lambda>_ _. True)"
proof (induction ws arbitrary: C)
  case Nil
  then show ?case by (simp add: triple_return)
next
  case (Cons x ws)
  obtain sp w where x: "x = (sp, w)" by (cases x)
  show ?case
    unfolding x write_all.simps
  proof (rule triple_andthen [where R = "\<lambda>g s. records d s = C(sp \<mapsto> written g w)"])
    show "triple (\<lambda>s. records d s = C) (store d sp w) (\<lambda>g s. records d s = C(sp \<mapsto> written g w)) (\<lambda>_ _. True)"
      by (rule triple_conseq [OF write_law [OF assms]]) auto
    fix g
    show "triple (\<lambda>s. records d s = C(sp \<mapsto> written g w)) (andthen (write_all (store d) ws) (\<lambda>gs. return (g # gs)))
       (\<lambda>gs s. length gs = length ((sp, w) # ws) \<and>
          records d s = fold after_write (zip ((sp, w) # ws) gs) C) (\<lambda>_ _. True)"
      by (rule triple_andthen [OF Cons.IH], rule triple_return) (simp add: fun_upd_def)
  qed
qed

lemma generation_grows:
  assumes "good d" and "store d sp w s = (Ok g, s')" and "records d s sp = Some (g0, r)"
  shows "unat g = unat g0 + 1"
  using triple_OkD [OF write_law [OF assms(1)] refl assms(2)] assms(3) by (cases r) (simp add: follows_def)

end

section \<open>What the NVS library promises\<close>

datatype nvs_value = V_Blob "u8 list" | V_U8 u8

text \<open>
  What a backend is analysed with: the library, the backend, and the values an NVS holds, as seen through
  the flash and through an open handle.
\<close>

record ('d, 'h, 'k) config_ctx =
  cc_nvs :: "('d, 'h, 'k) nvs_lib"
  cc_backend :: config_backend
  cc_kv :: "'d esp_flash \<Rightarrow> 'k \<times> 'k \<Rightarrow> nvs_value option"
  cc_open :: "'h \<Rightarrow> 'k \<times> 'k \<Rightarrow> nvs_value option"

text \<open>
  Opening and releasing do not change the values; a read returns the value, and reports a missing key only
  for a key that is missing; a change is atomic: after an error the value is the old or the new one.
  Different short names are different keys.
\<close>

definition nvs_frame_law :: "('d, 'h, 'k) config_ctx \<Rightarrow> bool" where
  "nvs_frame_law d \<longleftrightarrow> (\<forall>flash part. (case nvs_open (nvs_new (cc_nvs d)) flash part of
       Inl (e, flash') \<Rightarrow> cc_kv d (nvs_inner flash') = cc_kv d flash
     | Inr nvs \<Rightarrow> cc_open d nvs = cc_kv d flash)) \<and>
     (\<forall>nvs. cc_kv d (nvs_inner (nvs_close (cc_nvs d) nvs)) = cc_open d nvs)"

definition nvs_get_law ::
  "('h \<Rightarrow> 'k \<times> 'k \<Rightarrow> nvs_value option) \<Rightarrow> ('a \<Rightarrow> nvs_value) \<Rightarrow> ('k \<Rightarrow> 'k \<Rightarrow> ('h, 'a, nvs_error) comp) \<Rightarrow> bool" where
  "nvs_get_law view val get \<longleftrightarrow> (\<forall>M ns k. triple (\<lambda>h. view h = M) (get ns k)
     (\<lambda>x h. view h = M \<and> M (ns, k) = Some (val x))
     (\<lambda>e h. view h = M \<and> (e \<noteq> Nvs_Other \<longrightarrow> M (ns, k) = None)))"

definition nvs_change_law ::
  "('h \<Rightarrow> 'k \<times> 'k \<Rightarrow> nvs_value option) \<Rightarrow> nvs_value option \<Rightarrow> ('k \<Rightarrow> 'k \<Rightarrow> ('h, unit, nvs_error) comp) \<Rightarrow> bool" where
  "nvs_change_law view val change \<longleftrightarrow> (\<forall>M ns k. triple (\<lambda>h. view h = M) (change ns k)
     (\<lambda>_ h. view h = M((ns, k) := val)) (\<lambda>_ h. view h = M \<or> view h = M((ns, k) := val)))"

definition nvs_geometry :: "('d, 'h, 'k) nvs_lib \<Rightarrow> bool" where
  "nvs_geometry N \<longleftrightarrow> 0 < ITEM_SIZE N \<and> 0 < MAX_BLOB_DATA_PER_PAGE N \<and>
     inj_on (key_from N) {name. length name \<le> 15 \<and> 0 \<notin> set name}"

definition nvs_laws :: "('d, 'h, 'k) config_ctx \<Rightarrow> bool" where
  "nvs_laws d \<longleftrightarrow> nvs_frame_law d \<and> nvs_geometry (cc_nvs d) \<and>
     nvs_get_law (cc_open d) V_Blob (nvs_get_blob (cc_nvs d)) \<and>
     nvs_get_law (cc_open d) V_U8 (nvs_get_u8 (cc_nvs d)) \<and>
     (\<forall>bs. nvs_change_law (cc_open d) (Some (V_Blob bs)) (\<lambda>ns k. nvs_set_blob (cc_nvs d) ns k bs)) \<and>
     (\<forall>b. nvs_change_law (cc_open d) (Some (V_U8 b)) (\<lambda>ns k. nvs_set_u8 (cc_nvs d) ns k b)) \<and>
     nvs_change_law (cc_open d) None (nvs_delete (cc_nvs d)) \<and>
     (\<forall>M. triple (\<lambda>h. cc_open d h = M) (nvs_statistics (cc_nvs d)) (\<lambda>_ h. cc_open d h = M) (\<lambda>_ h. cc_open d h = M)) \<and>
     (\<forall>h. cc_open d (snd (nvs_typed_entries (cc_nvs d) h)) = cc_open d h)"

lemma nvs_getD:
  assumes "nvs_laws d"
  shows "triple (\<lambda>h. cc_open d h = M) (nvs_get_blob (cc_nvs d) ns k)
     (\<lambda>x h. cc_open d h = M \<and> M (ns, k) = Some (V_Blob x))
     (\<lambda>e h. cc_open d h = M \<and> (e \<noteq> Nvs_Other \<longrightarrow> M (ns, k) = None))"
    and "triple (\<lambda>h. cc_open d h = M) (nvs_get_u8 (cc_nvs d) ns k)
     (\<lambda>x h. cc_open d h = M \<and> M (ns, k) = Some (V_U8 x))
     (\<lambda>e h. cc_open d h = M \<and> (e \<noteq> Nvs_Other \<longrightarrow> M (ns, k) = None))"
  using assms by (simp_all add: nvs_laws_def nvs_get_law_def)

lemma nvs_changeD:
  assumes "nvs_laws d"
  shows "triple (\<lambda>h. cc_open d h = M) (nvs_set_blob (cc_nvs d) ns k bs)
     (\<lambda>_ h. cc_open d h = M((ns, k) := Some (V_Blob bs))) (\<lambda>_ h. cc_open d h = M \<or> cc_open d h = M((ns, k) := Some (V_Blob bs)))"
    and "triple (\<lambda>h. cc_open d h = M) (nvs_set_u8 (cc_nvs d) ns k b)
     (\<lambda>_ h. cc_open d h = M((ns, k) := Some (V_U8 b))) (\<lambda>_ h. cc_open d h = M \<or> cc_open d h = M((ns, k) := Some (V_U8 b)))"
    and "triple (\<lambda>h. cc_open d h = M) (nvs_delete (cc_nvs d) ns k)
     (\<lambda>_ h. cc_open d h = M((ns, k) := None)) (\<lambda>_ h. cc_open d h = M \<or> cc_open d h = M((ns, k) := None))"
  using assms by (simp_all add: nvs_laws_def nvs_change_law_def)

lemma nvs_frameD:
  assumes "nvs_laws d"
  shows "nvs_open (nvs_new (cc_nvs d)) flash part = Inl (e, flash') \<Longrightarrow> cc_kv d (nvs_inner flash') = cc_kv d flash"
    and "nvs_open (nvs_new (cc_nvs d)) flash part = Inr nvs \<Longrightarrow> cc_open d nvs = cc_kv d flash"
    and "cc_kv d (nvs_inner (nvs_close (cc_nvs d) nvs)) = cc_open d nvs"
  using assms unfolding nvs_laws_def nvs_frame_law_def by (force split: sum.splits)+

lemma nvs_keysD:
  assumes "nvs_laws d"
  shows "length a \<le> 15 \<Longrightarrow> 0 \<notin> set a \<Longrightarrow> length b \<le> 15 \<Longrightarrow> 0 \<notin> set b \<Longrightarrow>
    key_from (cc_nvs d) a = key_from (cc_nvs d) b \<longleftrightarrow> a = b"
  using assms unfolding nvs_laws_def nvs_geometry_def inj_on_def by blast

section \<open>Operations on an opened NVS\<close>

text \<open>What an operation does to the values in the flash, and to the health flag.\<close>

lemma on_nvs_triple:
  fixes d :: "('d, 'h, 'k) config_ctx"
  assumes laws: "nvs_laws d" and f: "triple (\<lambda>h. cc_open d h = M) f (\<lambda>r h. Q r (cc_open d h)) (\<lambda>e h. E e (cc_open d h))"
    and "E u M"
  shows "triple (\<lambda>s :: 'd config_world. cc_kv d (cw_flash s) = M \<and> HEALTHY s = b) (on_nvs (cc_nvs d) part u f)
     (\<lambda>r s. Q r (cc_kv d (cw_flash s)) \<and> HEALTHY s = b) (\<lambda>e s. E e (cc_kv d (cw_flash s)) \<and> HEALTHY s = b)"
proof (rule tripleI)
  fix s :: "'d config_world" assume s: "cc_kv d (cw_flash s) = M \<and> HEALTHY s = b"
  let ?case = "\<lambda>m. case m of (Ok r, s) \<Rightarrow> Q r (cc_kv d (cw_flash s)) \<and> HEALTHY s = b
     | (Err e, s) \<Rightarrow> E e (cc_kv d (cw_flash s)) \<and> HEALTHY s = b | (Panic, s) \<Rightarrow> False"
  show "?case (on_nvs (cc_nvs d) part u f s)"
  proof (cases "nvs_open (nvs_new (cc_nvs d)) (cw_flash s) part")
    case (Inl x)
    obtain e fl where "x = (e, fl)" by (cases x)
    then show ?thesis using nvs_frameD(1) [OF laws] Inl s assms(3) by (simp add: on_nvs_def)
  next
    case (Inr nvs)
    have "cc_open d nvs = M" using nvs_frameD(2) [OF laws Inr] s by simp
    from tripleD [OF f this] show ?thesis
      using Inr s by (simp add: on_nvs_def nvs_frameD(3) [OF laws] split: prod.splits res.splits)
  qed
qed

lemma with_nvs_triple:
  fixes d :: "('d, 'h, 'k) config_ctx"
  assumes laws: "nvs_laws d" and f: "triple (\<lambda>h. cc_open d h = M) f (\<lambda>r h. Q r (cc_open d h)) (\<lambda>e h. E e (cc_open d h))"
    and "E NC_Unavailable M"
  shows "triple (\<lambda>s. cc_kv d (cw_flash s) = M \<and> HEALTHY s = b) (with_nvs (cc_nvs d) part f)
     (\<lambda>r s. Q r (cc_kv d (cw_flash s)) \<and> HEALTHY s = b) (\<lambda>e s. E e (cc_kv d (cw_flash s)) \<and> \<not> HEALTHY s)"
proof (rule tripleI)
  fix s :: "'d config_world" assume s: "cc_kv d (cw_flash s) = M \<and> HEALTHY s = b"
  obtain r s' where run: "on_nvs (cc_nvs d) part NC_Unavailable f s = (r, s')"
    by (cases "on_nvs (cc_nvs d) part NC_Unavailable f s")
  note res = tripleD [OF on_nvs_triple [OF laws f, where u = NC_Unavailable and b = b and part = part, OF assms(3)] s, unfolded run prod.case]
  show "case with_nvs (cc_nvs d) part f s of (Ok r, s) \<Rightarrow> Q r (cc_kv d (cw_flash s)) \<and> HEALTHY s = b
     | (Err e, s) \<Rightarrow> E e (cc_kv d (cw_flash s)) \<and> \<not> HEALTHY s | (Panic, s) \<Rightarrow> False"
    using res by (cases r) (simp_all add: with_nvs_def run)
qed

section \<open>The backend is a store of versioned records\<close>

definition record_key :: "('d, 'h, 'k) config_ctx \<Rightarrow> u8 list \<Rightarrow> 'k \<times> 'k" where
  "record_key d space = (NAMESPACE (cc_nvs d), key_from (cc_nvs d) space)"

definition records_in :: "('d, 'h, 'k) config_ctx \<Rightarrow> ('k \<times> 'k \<Rightarrow> nvs_value option) \<Rightarrow> u8 list \<Rightarrow> config_record option" where
  "records_in d M space =
     (if valid_space_name space then
        (case M (record_key d space) of
           Some (V_Blob raw) \<Rightarrow> (case decode_record raw of Inl e \<Rightarrow> None | Inr r \<Rightarrow> Some r)
         | _ \<Rightarrow> None)
      else None)"

definition space_records :: "('d, 'h, 'k) config_ctx \<Rightarrow> 'd config_world \<Rightarrow> u8 list \<Rightarrow> config_record option" where
  "space_records d s = records_in d (cc_kv d (cw_flash s))"

definition space_write ::
  "('d, 'h, 'k) config_ctx \<Rightarrow> u8 list \<Rightarrow> u8 list option \<Rightarrow> ('d config_world, u64, nvs_config_error) comp" where
  "space_write d space w = (case w of
     Some data \<Rightarrow> config_commit (cc_nvs d) (cc_backend d) space data
   | None \<Rightarrow> config_clear (cc_nvs d) (cc_backend d) space)"

definition space_load :: "('d, 'h, 'k) config_ctx \<Rightarrow> u8 list \<Rightarrow> ('d config_world, snapshot option, nvs_config_error) comp" where
  "space_load d space = config_load (cc_nvs d) (cc_backend d) space"

lemma valid_name_key: "valid_space_name space \<Longrightarrow> length space \<le> 15 \<and> 0 \<notin> set space"
  by (auto simp: valid_space_name_def MAX_NVS_KEY_LEN_def list_all_iff)

lemma records_in_update:
  assumes "nvs_laws d" and "valid_space_name space" and "decode_record raw = Inr r"
  shows "records_in d (M(record_key d space := Some (V_Blob raw))) = (records_in d M)(space \<mapsto> r)"
proof (rule ext)
  fix sp
  have "record_key d sp = record_key d space \<longleftrightarrow> sp = space" if "valid_space_name sp"
    using nvs_keysD [OF assms(1), of sp space] valid_name_key [OF that] valid_name_key [OF assms(2)]
    by (auto simp: record_key_def)
  then show "records_in d (M(record_key d space := Some (V_Blob raw))) sp = ((records_in d M)(space \<mapsto> r)) sp"
    using assms(2,3) by (auto simp: records_in_def)
qed

text \<open>What was read, in terms of the values.\<close>

definition read_back_of :: "nvs_value option \<Rightarrow> nvs_error + u8 list \<Rightarrow> bool" where
  "read_back_of v r = (case r of Inr raw \<Rightarrow> v = Some (V_Blob raw) | Inl e \<Rightarrow> e \<noteq> Nvs_Other \<longrightarrow> v = None)"

lemma try_get_triple:
  assumes "nvs_laws d"
  shows "triple (\<lambda>h. cc_open d h = M) (attempt (nvs_get_blob (cc_nvs d) (NAMESPACE (cc_nvs d)) (key_from (cc_nvs d) space)))
     (\<lambda>r h. read_back_of (M (record_key d space)) r \<and> cc_open d h = M) E"
  by (rule triple_attempt, rule triple_conseq [OF nvs_getD(1) [OF assms]]) (auto simp: read_back_of_def record_key_def)

lemma next_generation_triple:
  assumes "read_back_of (M (record_key d space)) r" and "valid_space_name space"
  shows "triple P (next_generation r) (\<lambda>g s. follows (records_in d M space) g \<and> P s) (\<lambda>_. P)"
proof (cases r)
  case (Inl e)
  with assms show ?thesis
    by (cases e) (auto simp: next_generation_def read_back_of_def records_in_def follows_def intro!: triple_return triple_throw)
next
  case (Inr raw)
  with assms(1) have M: "M (record_key d space) = Some (V_Blob raw)" by (simp add: read_back_of_def)
  show ?thesis
  proof (cases "decode_record raw")
    case (Inl e)
    then show ?thesis by (simp add: next_generation_def Inr try_decode_def andthen_throw triple_throw)
  next
    case r: (Inr rec)
    obtain g0 p d0 where "rec = (g0, p, d0)" by (cases rec)
    with r have "records_in d M space = Some (g0, p, d0)" using assms(2) M by (simp add: records_in_def)
    with r \<open>rec = _\<close> show ?thesis
      by (auto simp: next_generation_def Inr try_decode_def andthen_return u64_checked_add_def follows_def unat_add_small_64
          intro!: triple_ok_or)
  qed
qed

text \<open>The values after a write of generation \<open>g\<close>.\<close>

definition write_values ::
  "('d, 'h, 'k) config_ctx \<Rightarrow> u8 list \<Rightarrow> config_record \<Rightarrow> ('k \<times> 'k \<Rightarrow> nvs_value option) \<Rightarrow> 'k \<times> 'k \<Rightarrow> nvs_value option" where
  "write_values d space r M = M(record_key d space := Some (V_Blob (case r of (g, p, data) \<Rightarrow> encode_record g p data)))"

lemma replace_body_triple:
  fixes present :: bool and payload :: "u8 list"
  assumes laws: "nvs_laws d" and name: "valid_space_name space"
  defines "upd \<equiv> \<lambda>M g. write_values d space (g, present, payload) M"
  shows "triple (\<lambda>h. cc_open d h = M)
     (andthen (attempt (nvs_get_blob (cc_nvs d) (NAMESPACE (cc_nvs d)) (key_from (cc_nvs d) space))) (\<lambda>r.
      andthen (next_generation r) (\<lambda>generation.
      andthen (map_err (\<lambda>_. NC_Write)
        (nvs_set_blob (cc_nvs d) (NAMESPACE (cc_nvs d)) (key_from (cc_nvs d) space) (encode_record generation present payload))) (\<lambda>_.
      return generation))))
     (\<lambda>g h. follows (records_in d M space) g \<and> cc_open d h = upd M g)
     (\<lambda>_ h. cc_open d h = M \<or> (\<exists>g. follows (records_in d M space) g \<and> cc_open d h = upd M g))"
proof (rule triple_andthen [OF try_get_triple [OF laws]], rule triple_pure, rule triple_andthen)
  fix r assume "read_back_of (M (record_key d space)) r"
  from next_generation_triple [where M = M and d = d and P = "\<lambda>h. cc_open d h = M", OF this name]
  show "triple (\<lambda>h. cc_open d h = M) (next_generation r) (\<lambda>g h. follows (records_in d M space) g \<and> cc_open d h = M)
     (\<lambda>_ h. cc_open d h = M \<or> (\<exists>g. follows (records_in d M space) g \<and> cc_open d h = upd M g))"
    by (rule triple_conseq) auto
next
  fix g
  show "triple (\<lambda>h. follows (records_in d M space) g \<and> cc_open d h = M)
     (andthen (map_err (\<lambda>_. NC_Write)
        (nvs_set_blob (cc_nvs d) (NAMESPACE (cc_nvs d)) (key_from (cc_nvs d) space) (encode_record g present payload))) (\<lambda>_. return g))
     (\<lambda>g h. follows (records_in d M space) g \<and> cc_open d h = upd M g)
     (\<lambda>_ h. cc_open d h = M \<or> (\<exists>g. follows (records_in d M space) g \<and> cc_open d h = upd M g))"
  proof (rule triple_pure, rule triple_andthen)
    assume "follows (records_in d M space) g"
    then show "triple (\<lambda>h. cc_open d h = M) (map_err (\<lambda>_. NC_Write)
        (nvs_set_blob (cc_nvs d) (NAMESPACE (cc_nvs d)) (key_from (cc_nvs d) space) (encode_record g present payload)))
        (\<lambda>_ h. follows (records_in d M space) g \<and> cc_open d h = upd M g)
        (\<lambda>_ h. cc_open d h = M \<or> (\<exists>g. follows (records_in d M space) g \<and> cc_open d h = upd M g))"
      by (intro triple_map_err triple_conseq [OF nvs_changeD(1) [OF laws]]) (auto simp: upd_def write_values_def record_key_def)
  qed (rule triple_return)
qed

lemma records_in_write_values:
  "nvs_laws d \<Longrightarrow> valid_space_name space \<Longrightarrow> records_in d (write_values d space r M) = (records_in d M)(space \<mapsto> r)"
  unfolding write_values_def by (rule records_in_update) (simp_all add: record_codec.dec_enc)

text \<open>
  A refused name changes nothing, not even the health flag; any other failure clears the flag, and the
  flag is otherwise kept.
\<close>

lemma replace_triple:
  fixes d :: "('d, 'h, 'k) config_ctx"
  assumes laws: "nvs_laws d"
  shows "triple (\<lambda>s :: 'd config_world. cc_kv d (cw_flash s) = M \<and> HEALTHY s = b) (replace (cc_nvs d) (cc_backend d) space present payload)
    (\<lambda>g s. HEALTHY s = b \<and> valid_space_name space \<and> follows (records_in d M space) g \<and>
       cc_kv d (cw_flash s) = write_values d space (g, present, payload) M)
    (\<lambda>e s. if valid_space_name space
       then \<not> HEALTHY s \<and> (cc_kv d (cw_flash s) = M \<or>
          (\<exists>g. follows (records_in d M space) g \<and> cc_kv d (cw_flash s) = write_values d space (g, present, payload) M))
       else e = InvalidSpace \<and> cc_kv d (cw_flash s) = M \<and> HEALTHY s = b)"
proof (cases "valid_space_name space")
  case False
  then show ?thesis by (simp add: replace_def space_key_def andthen_throw triple_throw)
next
  case True
  note body = replace_body_triple [OF laws True, of M present payload]
  from with_nvs_triple [where d = d and Q = "\<lambda>g N. follows (records_in d M space) g \<and> N = write_values d space (g, present, payload) M"
      and E = "\<lambda>_ N. N = M \<or> (\<exists>g. follows (records_in d M space) g \<and> N = write_values d space (g, present, payload) M)"
      and b = b and part = "cb_partition (cc_backend d)", OF laws body]
  show ?thesis
    using True by (simp add: replace_def space_key_def andthen_return) (erule triple_conseq; simp)
qed

lemma write_triple:
  fixes d :: "('d, 'h, 'k) config_ctx"
  assumes laws: "nvs_laws d"
  shows "triple (\<lambda>s :: 'd config_world. cc_kv d (cw_flash s) = M \<and> HEALTHY s = b) (space_write d space w)
    (\<lambda>g s. HEALTHY s = b \<and> valid_space_name space \<and> follows (records_in d M space) g \<and>
       cc_kv d (cw_flash s) = write_values d space (written g w) M)
    (\<lambda>e s. if valid_space_name space
       then \<not> HEALTHY s \<and> (cc_kv d (cw_flash s) = M \<or>
          (\<exists>g. follows (records_in d M space) g \<and> cc_kv d (cw_flash s) = write_values d space (written g w) M))
       else e = InvalidSpace \<and> cc_kv d (cw_flash s) = M \<and> HEALTHY s = b)"
proof -
  have "space_write d space w = replace (cc_nvs d) (cc_backend d) space (w \<noteq> None) (case w of None \<Rightarrow> [] | Some data \<Rightarrow> data)"
    by (cases w) (simp_all add: space_write_def config_commit_def config_clear_def)
  then show ?thesis unfolding written_def by (simp only: replace_triple [OF laws])
qed

lemma config_load_triple:
  fixes d :: "('d, 'h, 'k) config_ctx"
  assumes laws: "nvs_laws d"
  shows "triple (\<lambda>s :: 'd config_world. cc_kv d (cw_flash s) = M \<and> HEALTHY s = b) (space_load d space)
    (\<lambda>r s. cc_kv d (cw_flash s) = M \<and> HEALTHY s = b \<and> r = snapshot_of (records_in d M space))
    (\<lambda>e s. cc_kv d (cw_flash s) = M \<and> (if valid_space_name space then \<not> HEALTHY s else e = InvalidSpace \<and> HEALTHY s = b))"
proof (cases "valid_space_name space")
  case False
  then show ?thesis by (simp add: space_load_def config_load_def space_key_def andthen_throw triple_throw)
next
  case True
  have found: "triple P (found_snapshot r) (\<lambda>x s. x = snapshot_of (records_in d M space) \<and> P s) (\<lambda>_. P)"
    if got: "read_back_of (M (record_key d space)) r" for P :: "'h \<Rightarrow> bool" and r
  proof (cases r)
    case (Inl e)
    with got show ?thesis
      by (cases e) (auto simp: found_snapshot_def read_back_of_def records_in_def snapshot_of_def intro!: triple_return triple_throw)
  next
    case (Inr raw)
    with got have "M (record_key d space) = Some (V_Blob raw)" by (simp add: read_back_of_def)
    then have rec: "records_in d M space = (case decode_record raw of Inl e \<Rightarrow> None | Inr r \<Rightarrow> Some r)"
      using True by (simp add: records_in_def)
    show ?thesis
      by (cases "decode_record raw")
         (auto simp: Inr found_snapshot_def try_decode_def andthen_throw andthen_return rec snapshot_of_def
           intro!: triple_return triple_throw split: prod.splits)
  qed
  have "triple (\<lambda>h. cc_open d h = M)
     (andthen (attempt (nvs_get_blob (cc_nvs d) (NAMESPACE (cc_nvs d)) (key_from (cc_nvs d) space))) found_snapshot)
     (\<lambda>x h. x = snapshot_of (records_in d M space) \<and> cc_open d h = M) (\<lambda>_ h. cc_open d h = M)"
    by (rule triple_andthen [OF try_get_triple [OF laws]], rule triple_pure, rule found)
  from with_nvs_triple [where d = d and Q = "\<lambda>x N. x = snapshot_of (records_in d M space) \<and> N = M" and E = "\<lambda>_ N. N = M"
      and b = b and part = "cb_partition (cc_backend d)", OF laws this refl]
  show ?thesis
    using True by (simp add: space_load_def config_load_def space_key_def andthen_return) (erule triple_conseq; simp)
qed

lemma healthy_any:
  assumes "\<And>b. triple (\<lambda>s. P s \<and> HEALTHY s = b) m Q E"
  shows "triple P m Q E"
  using assms by (force simp: triple_def)

interpretation esp_config: versioned_store space_write space_load nvs_laws space_records
proof
  fix d :: "('d, 'h, 'k) config_ctx" and C space w
  assume laws: "nvs_laws d"
  show "triple (\<lambda>s. space_records d s = C) (space_write d space w)
      (\<lambda>g s. follows (C space) g \<and> space_records d s = C(space \<mapsto> written g w))
      (\<lambda>_ s. space_records d s = C \<or> (\<exists>g. follows (C space) g \<and> space_records d s = C(space \<mapsto> written g w)))"
  proof (rule tripleI)
    fix s :: "'d config_world" assume C: "space_records d s = C"
    let ?M = "cc_kv d (cw_flash s)"
    have upd: "records_in d (write_values d space (written g w) ?M) = C(space \<mapsto> written g w)" if "valid_space_name space" for g
      using records_in_write_values [OF laws that, of "written g w" ?M] C by (simp add: space_records_def)
    have "case space_write d space w s of
        (Ok g, s') \<Rightarrow> valid_space_name space \<and> follows (C space) g \<and> cc_kv d (cw_flash s') = write_values d space (written g w) ?M
      | (Err e, s') \<Rightarrow> cc_kv d (cw_flash s') = ?M \<or> (valid_space_name space \<and>
          (\<exists>g. follows (C space) g \<and> cc_kv d (cw_flash s') = write_values d space (written g w) ?M))
      | (Panic, s') \<Rightarrow> False"
      using tripleD [OF write_triple [OF laws, where M = ?M and b = "HEALTHY s" and space = space and w = w], of s] C
      by (auto simp: space_records_def split: prod.splits res.splits if_splits)
    then show "case space_write d space w s of
        (Ok g, s') \<Rightarrow> follows (C space) g \<and> space_records d s' = C(space \<mapsto> written g w)
      | (Err e, s') \<Rightarrow> space_records d s' = C \<or> (\<exists>g. follows (C space) g \<and> space_records d s' = C(space \<mapsto> written g w))
      | (Panic, s') \<Rightarrow> False"
      using upd C by (auto simp: space_records_def split: prod.splits res.splits)
  qed
  show "triple (\<lambda>s. space_records d s = C) (space_load d space)
      (\<lambda>r s. space_records d s = C \<and> r = snapshot_of (C space)) (\<lambda>_ s. space_records d s = C)"
  proof (rule tripleI)
    fix s :: "'d config_world" assume "space_records d s = C"
    with tripleD [OF config_load_triple [OF laws, where M = "cc_kv d (cw_flash s)" and b = "HEALTHY s" and space = space], of s]
    show "case space_load d space s of
        (Ok r, s') \<Rightarrow> space_records d s' = C \<and> r = snapshot_of (C space)
      | (Err e, s') \<Rightarrow> space_records d s' = C | (Panic, s') \<Rightarrow> False"
      by (auto simp: space_records_def split: prod.splits res.splits)
  qed
qed

section \<open>Health\<close>

lemma ascii_names:
  "length (ascii ''cfg_space'') \<le> 15" "0 \<notin> set (ascii ''cfg_space'')"
  "length (ascii ''cfg_health'') \<le> 15" "0 \<notin> set (ascii ''cfg_health'')" "ascii ''cfg_space'' \<noteq> ascii ''cfg_health''"
  by (simp_all add: ascii_def)

text \<open>The canary is not a record of any space.\<close>

lemma health_key_apart:
  assumes "nvs_laws d"
  shows "records_in d (M((HEALTH_NAMESPACE (cc_nvs d), k) := v)) = records_in d M"
proof -
  have "HEALTH_NAMESPACE (cc_nvs d) \<noteq> NAMESPACE (cc_nvs d)"
    unfolding HEALTH_NAMESPACE_def NAMESPACE_def using nvs_keysD [OF assms ascii_names(3,4,1,2)] ascii_names(5) by simp
  then show ?thesis by (auto simp: records_in_def record_key_def fun_eq_iff)
qed

lemma canary_triple:
  assumes laws: "nvs_laws d"
  shows "triple (\<lambda>h. cc_open d h = M) (canary (cc_nvs d))
     (\<lambda>r h. r \<and> cc_open d h = M((HEALTH_NAMESPACE (cc_nvs d), HEALTH_KEY (cc_nvs d)) := None))
     (\<lambda>_ h. records_in d (cc_open d h) = records_in d M)"
proof -
  let ?k = "(HEALTH_NAMESPACE (cc_nvs d), HEALTH_KEY (cc_nvs d))"
  let ?M = "M(?k := Some (V_U8 0xA5))"
  let ?E = "\<lambda>(_ :: nvs_config_error) h. records_in d (cc_open d h) = records_in d M"
  note apart = health_key_apart [OF laws]
  show ?thesis
    unfolding canary_def
  proof (rule triple_andthen)
    show "triple (\<lambda>h. cc_open d h = M)
        (map_err (\<lambda>_. NC_Write) (nvs_set_u8 (cc_nvs d) (HEALTH_NAMESPACE (cc_nvs d)) (HEALTH_KEY (cc_nvs d)) 0xA5))
        (\<lambda>_ h. cc_open d h = ?M) ?E"
      by (intro triple_map_err triple_conseq [OF nvs_changeD(2) [OF laws]]) (auto simp: apart)
    show "triple (\<lambda>h. cc_open d h = ?M)
        (andthen (map_err (\<lambda>_. NC_Write) (nvs_get_u8 (cc_nvs d) (HEALTH_NAMESPACE (cc_nvs d)) (HEALTH_KEY (cc_nvs d)))) (\<lambda>v.
         andthen (map_err (\<lambda>_. NC_Write) (nvs_delete (cc_nvs d) (HEALTH_NAMESPACE (cc_nvs d)) (HEALTH_KEY (cc_nvs d)))) (\<lambda>_.
         return (v = 0xA5))))
        (\<lambda>r h. r \<and> cc_open d h = M(?k := None)) ?E"
    proof (rule triple_andthen)
      show "triple (\<lambda>h. cc_open d h = ?M)
          (map_err (\<lambda>_. NC_Write) (nvs_get_u8 (cc_nvs d) (HEALTH_NAMESPACE (cc_nvs d)) (HEALTH_KEY (cc_nvs d))))
          (\<lambda>v h. v = 0xA5 \<and> cc_open d h = ?M) ?E"
        by (intro triple_map_err triple_conseq [OF nvs_getD(2) [OF laws]]) (auto simp: apart)
      fix v :: u8
      show "triple (\<lambda>h. v = 0xA5 \<and> cc_open d h = ?M)
          (andthen (map_err (\<lambda>_. NC_Write) (nvs_delete (cc_nvs d) (HEALTH_NAMESPACE (cc_nvs d)) (HEALTH_KEY (cc_nvs d)))) (\<lambda>_.
           return (v = 0xA5)))
          (\<lambda>r h. r \<and> cc_open d h = M(?k := None)) ?E"
        by (rule triple_pure, rule triple_andthen [where R = "\<lambda>_ h. cc_open d h = M(?k := None)"])
           (auto simp: apart intro!: triple_return triple_map_err triple_conseq [OF nvs_changeD(3) [OF laws]])
    qed
  qed
qed

lemma self_check_triple:
  fixes d :: "('d, 'h, 'k) config_ctx"
  assumes laws: "nvs_laws d"
  shows "triple (\<lambda>s :: 'd config_world. space_records d s = C) (self_check (cc_nvs d) (cc_backend d))
     (\<lambda>r s. space_records d s = C \<and> HEALTHY s = r) (\<lambda>_ _. False)"
proof (rule tripleI)
  fix s :: "'d config_world" assume C: "space_records d s = C"
  let ?M = "cc_kv d (cw_flash s)"
  note run = tripleD [OF with_nvs_triple [where d = d and b = "HEALTHY s" and part = "cb_partition (cc_backend d)" and
      E = "\<lambda>_ N. records_in d N = records_in d ?M" and
      Q = "\<lambda>r N. r \<and> N = ?M((HEALTH_NAMESPACE (cc_nvs d), HEALTH_KEY (cc_nvs d)) := None)",
      OF laws canary_triple [OF laws, of ?M] refl], of s]
  show "case self_check (cc_nvs d) (cc_backend d) s of
      (Ok r, s') \<Rightarrow> space_records d s' = C \<and> HEALTHY s' = r | (Err e, s') \<Rightarrow> False | (Panic, s') \<Rightarrow> False"
    using run C health_key_apart [OF laws, of ?M]
    by (auto simp: self_check_def attempt_def andthen_def modify_def return_def space_records_def split: prod.splits res.splits)
qed

end
