(* ===== verification/Config_Theorems.thy ===== *)
theory Config_Theorems
  imports Config_Contract
begin

text \<open>
  What the configuration backend guarantees, for every NVS library with \<open>nvs_laws\<close>.  The witnesses run on
  an NVS that is a map of keys to values.
\<close>

section \<open>A reference NVS\<close>

type_synonym kv = "u8 list \<times> u8 list \<Rightarrow> nvs_value option"

definition ref_nvs :: "(kv, kv, u8 list) nvs_lib" where
  "ref_nvs = \<lparr>nvs_new = (\<lambda>_ _ fl. Inr (storage (nvs_inner fl))),
     nvs_close = (\<lambda>h. \<lparr>nvs_inner = \<lparr>storage = h\<rparr>\<rparr>),
     nvs_get_blob = (\<lambda>ns k h. (case h (ns, k) of Some (V_Blob b) \<Rightarrow> Ok b | Some _ \<Rightarrow> Err Nvs_Other | None \<Rightarrow> Err KeyNotFound, h)),
     nvs_set_blob = (\<lambda>ns k b. modify (\<lambda>h. h((ns, k) := Some (V_Blob b)))),
     nvs_get_u8 = (\<lambda>ns k h. (case h (ns, k) of Some (V_U8 b) \<Rightarrow> Ok b | Some _ \<Rightarrow> Err Nvs_Other | None \<Rightarrow> Err KeyNotFound, h)),
     nvs_set_u8 = (\<lambda>ns k b. modify (\<lambda>h. h((ns, k) := Some (V_U8 b)))),
     nvs_delete = (\<lambda>ns k. modify (\<lambda>h. h((ns, k) := None))),
     nvs_statistics = return (500, 12), nvs_typed_entries = (\<lambda>h. ([], h)),
     key_from = (\<lambda>name. name), ITEM_SIZE = 32, ENTRIES_PER_PAGE = 126, MAX_BLOB_DATA_PER_PAGE = 4000\<rparr>"

definition ref_backend :: config_backend where
  "ref_backend = \<lparr>cb_partition = \<lparr>nvs_offset = 0x9000, nvs_size = 0x6000\<rparr>, capacity_units = 386\<rparr>"

definition ref_config :: "(kv, kv, u8 list) config_ctx" where
  "ref_config = \<lparr>cc_nvs = ref_nvs, cc_backend = ref_backend, cc_kv = storage, cc_open = (\<lambda>h. h)\<rparr>"

lemma ref_config_laws: "nvs_laws ref_config"
  by (auto simp: nvs_laws_def nvs_frame_law_def nvs_get_law_def nvs_change_law_def nvs_geometry_def ref_config_def ref_nvs_def
      nvs_open_def triple_def modify_def return_def split: option.splits nvs_value.splits)

definition blank_config :: "kv config_world" where
  "blank_config = \<lparr>cw_flash = \<lparr>storage = \<lambda>_. None\<rparr>, HEALTHY = True\<rparr>"

section \<open>Records\<close>

text \<open>C39: the record format loses nothing and accepts nothing else: decoding an encoded record gives it back, a
  byte string that decodes is exactly the encoding of what it decodes to, and everything else (short,
  wrong magic, unknown flag bits) is rejected as corrupt.\<close>

theorem record_roundtrip:
  "decode_record (encode_record g p d) = Inr (g, p, d) \<and>
   (case decode_record raw of Inr (g', p', d') \<Rightarrow> encode_record g' p' d' = raw
    | Inl e \<Rightarrow> e = CorruptRecord \<and> raw \<notin> range (\<lambda>(g, p, d). encode_record g p d))"
proof (rule conjI)
  show "decode_record (encode_record g p d) = Inr (g, p, d)" using record_codec.dec_enc [of "(g, p, d)"] by simp
  show "case decode_record raw of Inr (g', p', d') \<Rightarrow> encode_record g' p' d' = raw
    | Inl e \<Rightarrow> e = CorruptRecord \<and> raw \<notin> range (\<lambda>(g, p, d). encode_record g p d)"
  proof (cases "decode_record raw")
    case (Inl e)
    then have "e = CorruptRecord" by (auto simp: decode_record_def Let_def split: if_splits)
    then show ?thesis using record_codec.dec_rejects [of raw] Inl by auto
  next
    case (Inr r)
    then show ?thesis using record_codec.enc_dec [of raw r] by (cases r) simp
  qed
qed

section \<open>Sizes\<close>

lemma div_ceil_alt:
  assumes "0 < b"
  shows "(a + (b - 1)) div b = div_ceil a b"
proof -
  have a: "a = b * (a div b) + a mod b" "a mod b < b" using assms by simp_all
  show ?thesis
  proof (cases "a mod b = 0")
    case True
    then have "(a + (b - 1)) div b = a div b" using a assms by (intro div_nat_eqI) auto
    with True show ?thesis by (simp add: div_ceil_def)
  next
    case False
    then have "(a + (b - 1)) div b = a div b + 1"
    proof (intro div_nat_eqI)
      show "b * (a div b + 1) \<le> a + (b - 1)" "a + (b - 1) < b * Suc (a div b + 1)"
        using a False assms unfolding add_mult_distrib2 mult_Suc_right mult_1_right by linarith+
    qed
    with False show ?thesis by (simp add: div_ceil_def)
  qed
qed

lemma div_ceil_alt' [simp]: "0 < b \<Longrightarrow> (a + b - Suc 0) div b = div_ceil a b"
  using div_ceil_alt [of b a] by (simp add: Suc_leI)

definition blob_entries :: "('d, 'h, 'k) nvs_lib \<Rightarrow> nat \<Rightarrow> nat" where
  "blob_entries N n = div_ceil n (ITEM_SIZE N) + div_ceil n (MAX_BLOB_DATA_PER_PAGE N) + 1"

lemma entries_for_blob_Some:
  assumes "nvs_geometry N"
  shows "entries_for_blob N n = Some k \<longleftrightarrow> k = blob_entries N n \<and> n + ITEM_SIZE N \<le> usize_limit \<and>
     n + MAX_BLOB_DATA_PER_PAGE N \<le> usize_limit \<and> k < usize_limit"
  using assms by (auto simp: entries_for_blob_def nvs_geometry_def bind_eq_Some_conv Let_def blob_entries_def)

lemma div_ceil_mono: "0 < b \<Longrightarrow> m \<le> n \<Longrightarrow> div_ceil m b \<le> div_ceil n b"
  using div_le_mono [of "m + (b - 1)" "n + (b - 1)" b] unfolding div_ceil_alt by simp

lemma blob_entries_mono: "nvs_geometry N \<Longrightarrow> m \<le> n \<Longrightarrow> blob_entries N m \<le> blob_entries N n"
  unfolding nvs_geometry_def blob_entries_def by (intro add_mono div_ceil_mono) auto

text \<open>C40: a reservation is enough: when \<open>reservation_units\<close> gives a space its units for a budget, two
  versions of any record whose payload keeps the budget fit in them, counted in NVS entries as the
  backend counts stored blobs.  No arithmetic of the computation overflows a \<open>usize\<close> when it succeeds.\<close>

theorem reservation_covers_two_versions:
  assumes "nvs_geometry N" and "reservation_units N space budget = Some units" and "length payload \<le> budget"
  shows "\<exists>n. entries_for_blob N (length (encode_record g p payload)) = Some n \<and> 2 * n \<le> units \<and> units < usize_limit"
proof -
  from assms(2) obtain n where n: "entries_for_blob N (HEADER_LEN + budget) = Some n" "units = n * 2" "n * 2 < usize_limit"
    by (auto simp: reservation_units_def bind_eq_Some_conv split: if_splits)
  have le: "length (encode_record g p payload) \<le> HEADER_LEN + budget" using assms(3) by (simp add: record_layout)
  have k: "blob_entries N (length (encode_record g p payload)) \<le> n"
    using blob_entries_mono [OF assms(1) le] n(1) by (simp add: entries_for_blob_Some [OF assms(1)])
  have "entries_for_blob N (length (encode_record g p payload)) = Some (blob_entries N (length (encode_record g p payload)))"
    using n(1) le k unfolding entries_for_blob_Some [OF assms(1)] by linarith
  then show ?thesis using k n(2,3) by auto
qed

theorem reservation_covers_two_versions_witness:
  "reservation_units ref_nvs [119, 105, 102, 105] 100 = Some 12 \<and>
   (\<exists>n. entries_for_blob ref_nvs (length (encode_record 7 True (replicate 100 1))) = Some n \<and> 2 * n \<le> 12 \<and> (12 :: nat) < usize_limit)"
proof -
  have res: "reservation_units ref_nvs [119, 105, 102, 105] 100 = Some 12"
    by (simp add: reservation_units_def valid_space_name_def MAX_NVS_KEY_LEN_def usize_checked_add_def usize_limit_def
        HEADER_LEN_def entries_for_blob_def ref_nvs_def usize_checked_mul_def Let_def)
  have "nvs_geometry ref_nvs" by (simp add: nvs_geometry_def ref_nvs_def)
  from reservation_covers_two_versions [OF this res, of "replicate 100 1" 7 True] res show ?thesis by simp
qed

section \<open>Writing and loading\<close>

text \<open>C26: a commit that returns generation \<open>g\<close> has stored the data: the next successful load of the space
  returns exactly that data with \<open>g\<close>, and after a clear it returns nothing; the generation is one more than that of
  the record the space held before, or 1, and no other space's record changed.\<close>

theorem commit_then_load:
  assumes "nvs_laws d"
  shows "(config_commit (cc_nvs d) (cc_backend d) sp data s = (Ok g, s') \<longrightarrow>
       follows (space_records d s sp) g \<and> (\<forall>other. other \<noteq> sp \<longrightarrow> space_records d s' other = space_records d s other) \<and>
       (\<forall>r s''. config_load (cc_nvs d) (cc_backend d) sp s' = (Ok r, s'') \<longrightarrow>
          r = Some \<lparr>sn_generation = g, sn_data = data\<rparr>)) \<and>
    (config_clear (cc_nvs d) (cc_backend d) sp s = (Ok g, s') \<longrightarrow>
       follows (space_records d s sp) g \<and> (\<forall>other. other \<noteq> sp \<longrightarrow> space_records d s' other = space_records d s other) \<and>
       (\<forall>r s''. config_load (cc_nvs d) (cc_backend d) sp s' = (Ok r, s'') \<longrightarrow> r = None))"
proof -
  have "follows (space_records d s sp) g \<and> (\<forall>other. other \<noteq> sp \<longrightarrow> space_records d s' other = space_records d s other) \<and>
       (\<forall>r s''. space_load d sp s' = (Ok r, s'') \<longrightarrow> r = map_option (\<lambda>data. \<lparr>sn_generation = g, sn_data = data\<rparr>) w)"
    if run: "space_write d sp w s = (Ok g, s')" for w
    using triple_OkD [OF esp_config.write_law [OF assms] refl run] esp_config.load_after_write [OF assms run] by auto
  from this [of "Some data"] this [of None] show ?thesis
    by (simp add: space_write_def space_load_def)
qed

theorem commit_then_load_witness:
  "\<exists>s' s''. config_commit ref_nvs ref_backend [119, 105, 102, 105] [1, 2] blank_config = (Ok 1, s') \<and>
     config_load ref_nvs ref_backend [119, 105, 102, 105] s' = (Ok (Some \<lparr>sn_generation = 1, sn_data = [1, 2]\<rparr>), s'')"
proof -
  let ?c = "config_commit ref_nvs ref_backend [119, 105, 102, 105] [1, 2] blank_config"
  have commit: "?c = (Ok 1, snd ?c)"
    by (simp add: config_commit_def replace_def space_key_def valid_space_name_def MAX_NVS_KEY_LEN_def with_nvs_def on_nvs_def
        nvs_open_def ref_nvs_def ref_backend_def blank_config_def next_generation_def combinator_defs)
  have load: "fst (config_load ref_nvs ref_backend [119, 105, 102, 105] (snd ?c)) \<noteq> Err e \<and>
      fst (config_load ref_nvs ref_backend [119, 105, 102, 105] (snd ?c)) \<noteq> Panic" for e
    by (simp add: config_commit_def replace_def space_key_def valid_space_name_def MAX_NVS_KEY_LEN_def with_nvs_def on_nvs_def
        nvs_open_def ref_nvs_def ref_backend_def blank_config_def next_generation_def combinator_defs config_load_def
        found_snapshot_def NAMESPACE_def try_decode_def record_codec.dec_enc [of "(g, p, d)" for g p d, simplified])
  then obtain r s'' where run: "config_load ref_nvs ref_backend [119, 105, 102, 105] (snd ?c) = (Ok r, s'')"
    by (metis prod.collapse res.exhaust)
  have ctx: "cc_nvs ref_config = ref_nvs" "cc_backend ref_config = ref_backend" by (simp_all add: ref_config_def)
  have "r = Some \<lparr>sn_generation = 1, sn_data = [1, 2]\<rparr>"
    using commit_then_load [OF ref_config_laws, of "[119, 105, 102, 105]" "[1, 2]" blank_config 1 "snd ?c"] commit run
    unfolding ctx by blast
  with commit run show ?thesis by blast
qed

definition failed_write ::
  "('d, 'h, 'k) config_ctx \<Rightarrow> u8 list \<Rightarrow> u8 list option \<Rightarrow> 'd config_world \<Rightarrow> nvs_config_error \<Rightarrow> 'd config_world \<Rightarrow> bool" where
  "failed_write d sp w s e s' =
     (if valid_space_name sp
      then \<not> HEALTHY s' \<and> (space_records d s' = space_records d s \<or>
         (\<exists>g. follows (space_records d s sp) g \<and> space_records d s' = (space_records d s)(sp \<mapsto> written g w)))
      else e = InvalidSpace \<and> space_records d s' = space_records d s \<and> HEALTHY s' = HEALTHY s)"

text \<open>C27: how operations fail.  None panics.  A refused space name changes nothing at all.  Any other failure of
  a commit, a clear or a load clears the health flag and leaves every record as it was, except that the one
  being written may already be the complete new one, never a part of it; a success keeps the flag.\<close>

theorem config_failures:
  assumes "nvs_laws d"
  shows "(case config_commit (cc_nvs d) (cc_backend d) sp data s of
       (Ok g, s') \<Rightarrow> valid_space_name sp \<and> HEALTHY s' = HEALTHY s
     | (Err e, s') \<Rightarrow> failed_write d sp (Some data) s e s'
     | (Panic, s') \<Rightarrow> False) \<and>
    (case config_clear (cc_nvs d) (cc_backend d) sp s of
       (Ok g, s') \<Rightarrow> valid_space_name sp \<and> HEALTHY s' = HEALTHY s
     | (Err e, s') \<Rightarrow> failed_write d sp None s e s'
     | (Panic, s') \<Rightarrow> False) \<and>
    (case config_load (cc_nvs d) (cc_backend d) sp s of
       (Ok r, s') \<Rightarrow> space_records d s' = space_records d s \<and> HEALTHY s' = HEALTHY s
     | (Err e, s') \<Rightarrow> space_records d s' = space_records d s \<and>
         (if valid_space_name sp then \<not> HEALTHY s' else e = InvalidSpace \<and> HEALTHY s' = HEALTHY s)
     | (Panic, s') \<Rightarrow> False)"
proof -
  have one: "case space_write d sp w s of
       (Ok g, s') \<Rightarrow> valid_space_name sp \<and> HEALTHY s' = HEALTHY s
     | (Err e, s') \<Rightarrow> failed_write d sp w s e s'
     | (Panic, s') \<Rightarrow> False" for w
    using tripleD [OF write_triple [OF assms, where M = "cc_kv d (cw_flash s)" and b = "HEALTHY s" and space = sp and w = w], of s]
      records_in_write_values [OF assms, of sp "written g w" "cc_kv d (cw_flash s)" for g]
    by (cases "valid_space_name sp") (auto simp: space_records_def failed_write_def split: prod.splits res.splits)
  have load: "case space_load d sp s of
       (Ok r, s') \<Rightarrow> space_records d s' = space_records d s \<and> HEALTHY s' = HEALTHY s
     | (Err e, s') \<Rightarrow> space_records d s' = space_records d s \<and>
         (if valid_space_name sp then \<not> HEALTHY s' else e = InvalidSpace \<and> HEALTHY s' = HEALTHY s)
     | (Panic, s') \<Rightarrow> False"
    using tripleD [OF config_load_triple [OF assms, where M = "cc_kv d (cw_flash s)" and b = "HEALTHY s" and space = sp], of s]
    by (cases "valid_space_name sp") (auto simp: space_records_def split: prod.splits res.splits)
  show ?thesis
    using one [of "Some data"] one [of None] load
    unfolding space_write_def space_load_def option.case by blast
qed

theorem config_failures_witness:
  "config_commit ref_nvs ref_backend [0x80] [1, 2] blank_config = (Err InvalidSpace, blank_config) \<and>
   (case config_clear ref_nvs ref_backend [0x80] blank_config of (Ok g, s') \<Rightarrow> False
     | (Err e, s') \<Rightarrow> e = InvalidSpace \<and> HEALTHY s' | (Panic, s') \<Rightarrow> False)"
proof
  have bad: "\<not> valid_space_name [0x80]" by (simp add: valid_space_name_def)
  then show "config_commit ref_nvs ref_backend [0x80] [1, 2] blank_config = (Err InvalidSpace, blank_config)"
    by (simp add: config_commit_def replace_def space_key_def combinator_defs)
  show "case config_clear ref_nvs ref_backend [0x80] blank_config of (Ok g, s') \<Rightarrow> False
     | (Err e, s') \<Rightarrow> e = InvalidSpace \<and> HEALTHY s' | (Panic, s') \<Rightarrow> False"
    using config_failures [OF ref_config_laws, where sp = "[0x80]" and data = "[]" and s = blank_config] bad
    by (auto simp: failed_write_def ref_config_def blank_config_def split: prod.splits res.splits)
qed

text \<open>\<open>self_check\<close> cannot fail: it returns whether the canary could be stored, read back and removed, the
  health flag is then exactly that answer, and no record of any space is touched, whatever step failed.\<close>

theorem self_check_sets_health:
  assumes "nvs_laws d"
  shows "case self_check (cc_nvs d) (cc_backend d) s of
      (Ok ok, s') \<Rightarrow> is_healthy s' = ok \<and> space_records d s' = space_records d s
    | (Err e, s') \<Rightarrow> False
    | (Panic, s') \<Rightarrow> False"
  using tripleD [OF self_check_triple [OF assms, of "space_records d s"], of s]
  by (auto simp: is_healthy_def split: prod.splits res.splits)

theorem self_check_sets_health_witness:
  "case self_check ref_nvs ref_backend (blank_config\<lparr>HEALTHY := False\<rparr>) of
      (Ok ok, s') \<Rightarrow> is_healthy s' = ok \<and> space_records ref_config s' = space_records ref_config (blank_config\<lparr>HEALTHY := False\<rparr>)
    | (Err e, s') \<Rightarrow> False
    | (Panic, s') \<Rightarrow> False"
proof -
  have ctx: "cc_nvs ref_config = ref_nvs" "cc_backend ref_config = ref_backend" by (simp_all add: ref_config_def)
  show ?thesis using self_check_sets_health [OF ref_config_laws, of "blank_config\<lparr>HEALTHY := False\<rparr>"] unfolding ctx .
qed

section \<open>Opening the backend\<close>

lemma owned_entries_triple:
  assumes laws: "nvs_laws d"
  shows "triple (\<lambda>h. cc_open d h = M) (owned_entries (cc_nvs d)) (\<lambda>_ h. cc_open d h = M) (\<lambda>_ h. cc_open d h = M)"
proof -
  have sum: "triple (\<lambda>h. cc_open d h = M) (sum_entries (cc_nvs d) keys owned) (\<lambda>_ h. cc_open d h = M) (\<lambda>_ h. cc_open d h = M)" for keys owned
  proof (induction keys arbitrary: owned)
    case (Cons key keys)
    have "triple (\<lambda>h. cc_open d h = M) (map_err (\<lambda>_. NC_Write) (nvs_get_blob (cc_nvs d) (NAMESPACE (cc_nvs d)) key))
        (\<lambda>_ h. cc_open d h = M) (\<lambda>_ h. cc_open d h = M)"
      by (intro triple_map_err triple_conseq [OF nvs_getD(1) [OF laws]]) auto
    then show ?case
      unfolding sum_entries.simps by (rule triple_andthen, intro triple_andthen [OF triple_ok_or Cons.IH]) auto
  qed (simp add: triple_return)
  show ?thesis
  proof (rule tripleI)
    fix h assume h: "cc_open d h = M"
    obtain items h' where it: "nvs_typed_entries (cc_nvs d) h = (items, h')" by (cases "nvs_typed_entries (cc_nvs d) h")
    then have "cc_open d h' = M" using laws h unfolding nvs_laws_def by (metis snd_conv)
    then show "case owned_entries (cc_nvs d) h of (Ok a, h) \<Rightarrow> cc_open d h = M | (Err e, h) \<Rightarrow> cc_open d h = M | (Panic, h) \<Rightarrow> False"
      using tripleD [OF sum, of h'] by (auto simp: owned_entries_def it throw_def split: sum.splits)
  qed
qed

lemma config_new_triple:
  fixes d :: "('d, 'h, 'k) config_ctx"
  assumes laws: "nvs_laws d"
  shows "triple (\<lambda>s :: 'd config_world. space_records d s = C) (config_new (cc_nvs d) part)
     (\<lambda>B s. space_records d s = C \<and> HEALTHY s \<and> cb_partition B = part) (\<lambda>_ s. space_records d s = C)"
proof (rule tripleI)
  fix s :: "'d config_world" assume C: "space_records d s = C"
  let ?M = "cc_kv d (cw_flash s)"
  have stats: "triple (\<lambda>h. cc_open d h = ?M) (map_err (\<lambda>_. (True, NC_Write)) (nvs_statistics (cc_nvs d)))
      (\<lambda>_ h. cc_open d h = ?M) (\<lambda>_ h. cc_open d h = ?M)"
    using laws unfolding nvs_laws_def by (intro triple_map_err) blast
  have own: "triple (\<lambda>h. cc_open d h = ?M) (map_err (Pair False) (owned_entries (cc_nvs d)))
      (\<lambda>_ h. cc_open d h = ?M) (\<lambda>_ h. cc_open d h = ?M)"
    by (rule triple_map_err, rule owned_entries_triple [OF laws])
  have "triple (\<lambda>h. cc_open d h = ?M) (new_capacity (cc_nvs d)) (\<lambda>_ h. cc_open d h = ?M) (\<lambda>_ h. cc_open d h = ?M)"
    unfolding new_capacity_def Let_def
    by (rule triple_andthen [OF stats]) (auto intro!: triple_andthen [OF own] triple_return)
  note run = tripleD [OF on_nvs_triple [where Q = "\<lambda>_ N. N = ?M" and E = "\<lambda>_ N. N = ?M" and b = "HEALTHY s" and part = part
      and u = "(True, NC_Unavailable)", OF laws this refl], of s]
  show "case config_new (cc_nvs d) part s of
      (Ok B, s') \<Rightarrow> space_records d s' = C \<and> HEALTHY s' \<and> cb_partition B = part
    | (Err e, s') \<Rightarrow> space_records d s' = C | (Panic, s') \<Rightarrow> False"
    using run C by (auto simp: config_new_def space_records_def split: prod.splits res.splits)
qed

section \<open>Runs of the backend\<close>

datatype config_call =
    Call_new nvs_partition
  | Call_load "u8 list"
  | Call_commit "u8 list" "u8 list"
  | Call_clear "u8 list"
  | Call_self_check

inductive config_step :: "('d, 'h, 'k) config_ctx \<Rightarrow> 'd config_world \<Rightarrow> config_call \<Rightarrow> 'd config_world \<Rightarrow> bool"
  for d :: "('d, 'h, 'k) config_ctx"
where
  new: "config_new (cc_nvs d) part s = (r, s') \<Longrightarrow> config_step d s (Call_new part) s'"
| load: "config_load (cc_nvs d) (cc_backend d) sp s = (r, s') \<Longrightarrow> config_step d s (Call_load sp) s'"
| commit: "config_commit (cc_nvs d) (cc_backend d) sp data s = (r, s') \<Longrightarrow> config_step d s (Call_commit sp data) s'"
| clear: "config_clear (cc_nvs d) (cc_backend d) sp s = (r, s') \<Longrightarrow> config_step d s (Call_clear sp) s'"
| self_check: "self_check (cc_nvs d) (cc_backend d) s = (r, s') \<Longrightarrow> config_step d s Call_self_check s'"

inductive config_run :: "('d, 'h, 'k) config_ctx \<Rightarrow> 'd config_world \<Rightarrow> config_call list \<Rightarrow> 'd config_world \<Rightarrow> bool"
  for d :: "('d, 'h, 'k) config_ctx"
where
  stop: "config_run d s [] s"
| call: "config_step d s c s' \<Longrightarrow> config_run d s' cs s'' \<Longrightarrow> config_run d s (c # cs) s''"

inductive_simps config_run_simps: "config_run d s [] s'" "config_run d s (c # cs) s'"

text \<open>A space's record is only ever replaced by one of a higher generation, and never disappears.\<close>

definition record_le :: "config_record option \<Rightarrow> config_record option \<Rightarrow> bool" where
  "record_le old cur \<longleftrightarrow> old = cur \<or> (case cur of None \<Rightarrow> False
     | Some (g, _) \<Rightarrow> (case old of None \<Rightarrow> True | Some (g0, _) \<Rightarrow> unat g0 < unat g))"

lemma record_le_refl [simp]: "record_le r r"
  by (simp add: record_le_def)

lemma record_le_trans: "record_le a b \<Longrightarrow> record_le b c \<Longrightarrow> record_le a c"
  by (auto simp: record_le_def split: option.splits)

lemma record_le_follows: "follows old g \<Longrightarrow> record_le old (Some (written g w))"
  by (auto simp: record_le_def follows_def written_def split: option.splits)

lemma write_records_le:
  assumes "nvs_laws d" and "space_write d sp w s = (r, s')"
  shows "record_le (space_records d s x) (space_records d s' x)"
proof -
  have "space_records d s' = space_records d s \<or>
      (\<exists>g. follows (space_records d s sp) g \<and> space_records d s' = (space_records d s)(sp \<mapsto> written g w))"
    using tripleD [OF esp_config.write_law [OF assms(1)] refl, of s sp w] assms(2) by (cases r) auto
  then show ?thesis using record_le_follows by (auto simp: fun_upd_def)
qed

lemma config_step_le:
  assumes laws: "nvs_laws d" and step: "config_step d s c s'"
  shows "record_le (space_records d s x) (space_records d s' x)"
  using step
proof cases
  case (new part r)
  then show ?thesis using tripleD [OF config_new_triple [OF laws, of "space_records d s" part] refl] by (cases r) auto
next
  case (load sp r)
  then show ?thesis using tripleD [OF esp_config.load_law [OF laws] refl, of s sp] by (cases r) (auto simp: space_load_def)
next
  case (commit sp data r)
  then show ?thesis using write_records_le [OF laws, of sp "Some data"] by (simp add: space_write_def)
next
  case (clear sp r)
  then show ?thesis using write_records_le [OF laws, of sp None] by (simp add: space_write_def)
next
  case (self_check r)
  then show ?thesis using tripleD [OF self_check_triple [OF laws] refl, of s] by (cases r) auto
qed

text \<open>C25: a generation identifies a record.  Over any sequence of opening, loads, commits, clears and
  self-checks, successful or failed at any point, the record of every space either is what it was or has a
  strictly higher generation, and never disappears; so two readings of a space with the same
  generation are readings of the same record.\<close>

theorem generations_identify_records:
  assumes "config_run d s calls s'" and "nvs_laws d"
  shows "record_le (space_records d s sp) (space_records d s' sp) \<and>
    (\<forall>g p data p' data'. space_records d s sp = Some (g, p, data) \<longrightarrow> space_records d s' sp = Some (g, p', data') \<longrightarrow>
       p = p' \<and> data = data')"
proof -
  have "record_le (space_records d s sp) (space_records d s' sp)"
    using assms(1)
  proof induction
    case (call s c s' cs s'')
    then show ?case using config_step_le [OF assms(2) call.hyps(1), of sp] record_le_trans by blast
  qed simp
  then show ?thesis by (auto simp: record_le_def)
qed

theorem generations_identify_records_witness:
  "\<exists>s'. config_run ref_config blank_config [Call_commit [119] [1], Call_clear [119]] s' \<and>
     record_le (space_records ref_config blank_config [119]) (space_records ref_config s' [119])"
proof -
  obtain r1 s1 where one: "config_commit (cc_nvs ref_config) (cc_backend ref_config) [119] [1] blank_config = (r1, s1)"
    by (meson surj_pair)
  obtain r2 s2 where two: "config_clear (cc_nvs ref_config) (cc_backend ref_config) [119] s1 = (r2, s2)"
    by (meson surj_pair)
  have run: "config_run ref_config blank_config [Call_commit [119] [1], Call_clear [119]] s2"
    unfolding config_run_simps using config_step.commit [OF one] config_step.clear [OF two] by blast
  with generations_identify_records [OF run ref_config_laws, of "[119]"] show ?thesis by blast
qed

end
