(* ===== verification/Tls_Identity.thy ===== *)
theory Tls_Identity
  imports Prelude
begin

text \<open>
  The certificate side of \<open>services/tls/src/lib.rs\<close>: checking a certificate and key pair, generating a
  self-signed identity, the server configuration and the CA check.  MbedTLS and PSA are C libraries: their
  calls are the fields of the parameter \<open>pki_lib\<close>, acting on a world \<open>'w\<close> in which the contexts of the
  call in progress live.  A \<open>Drop\<close> implementation is the destructor of \<open>scoped\<close>.
\<close>

section \<open>Standard library\<close>

text \<open>\<open>CString::new\<close> refuses an interior NUL; the call adds the final one.\<close>

definition cstring_new :: "u8 list \<Rightarrow> u8 list option" where
  "cstring_new s = (if 0 \<in> set s then None else Some s)"

definition continuation :: "u8 \<Rightarrow> bool" where
  "continuation b \<longleftrightarrow> 0x80 \<le> b \<and> b \<le> 0xBF"

text \<open>\<open>core::str::from_utf8\<close>: shortest forms only, no surrogates, at most U+10FFFF.\<close>

fun utf8_valid :: "u8 list \<Rightarrow> bool" where
  "utf8_valid [] = True"
| "utf8_valid (a # rest) =
     (if a < 0x80 then utf8_valid rest
      else (case rest of
        [] \<Rightarrow> False
      | b # rest2 \<Rightarrow>
          if 0xC2 \<le> a \<and> a \<le> 0xDF then continuation b \<and> utf8_valid rest2
          else (case rest2 of
            [] \<Rightarrow> False
          | c # rest3 \<Rightarrow>
              if 0xE0 \<le> a \<and> a \<le> 0xEF then
                (if a = 0xE0 then 0xA0 \<le> b \<and> b \<le> 0xBF else if a = 0xED then 0x80 \<le> b \<and> b \<le> 0x9F else continuation b) \<and>
                continuation c \<and> utf8_valid rest3
              else (case rest3 of
                [] \<Rightarrow> False
              | d # rest4 \<Rightarrow>
                  0xF0 \<le> a \<and> a \<le> 0xF4 \<and>
                  (if a = 0xF0 then 0x90 \<le> b \<and> b \<le> 0xBF else if a = 0xF4 then 0x80 \<le> b \<and> b \<le> 0x8F else continuation b) \<and>
                  continuation c \<and> continuation d \<and> utf8_valid rest4))))"

text \<open>A value with a destructor goes out of scope on every exit.\<close>

definition scoped :: "('s \<Rightarrow> 's) \<Rightarrow> ('s, 'a, 'e) comp \<Rightarrow> ('s, 'a, 'e) comp" where
  "scoped dtor m s = (case m s of (r, s1) \<Rightarrow> (r, dtor s1))"

section \<open>The C libraries\<close>

record key_attributes =
  private_type :: u16
  private_bits :: nat
  private_lifetime :: u32
  private_usage :: u32
  private_alg :: u32

record 'w pki_lib =
  x509_crt_init :: "'w \<Rightarrow> 'w"
  x509_crt_parse :: "u8 list \<Rightarrow> nat \<Rightarrow> 'w \<Rightarrow> i32 \<times> 'w"
  x509_crt_free :: "'w \<Rightarrow> 'w"
  pk_init :: "'w \<Rightarrow> 'w"
  pk_parse_key :: "u8 list \<Rightarrow> nat \<Rightarrow> 'w \<Rightarrow> i32 \<times> 'w"
  pk_check_pair :: "'w \<Rightarrow> i32 \<times> 'w"
  pk_copy_from_psa :: "u32 \<Rightarrow> 'w \<Rightarrow> i32 \<times> 'w"
  pk_write_key_pem :: "nat \<Rightarrow> 'w \<Rightarrow> (i32 \<times> u8 list) \<times> 'w"
  pk_free :: "'w \<Rightarrow> 'w"
  psa_crypto_init :: "'w \<Rightarrow> i32 \<times> 'w"
  psa_generate_key :: "key_attributes \<Rightarrow> 'w \<Rightarrow> (i32 \<times> u32) \<times> 'w"
  psa_destroy_key :: "u32 \<Rightarrow> 'w \<Rightarrow> 'w"
  write_crt_init :: "'w \<Rightarrow> 'w"
  set_subject_name :: "u8 list \<Rightarrow> 'w \<Rightarrow> i32 \<times> 'w"
  set_issuer_name :: "u8 list \<Rightarrow> 'w \<Rightarrow> i32 \<times> 'w"
  set_subject_key :: "'w \<Rightarrow> 'w"
  set_issuer_key :: "'w \<Rightarrow> 'w"
  set_serial_raw :: "u8 list \<Rightarrow> 'w \<Rightarrow> i32 \<times> 'w"
  set_validity :: "u8 list \<Rightarrow> u8 list \<Rightarrow> 'w \<Rightarrow> i32 \<times> 'w"
  set_md_sha256 :: "'w \<Rightarrow> 'w"
  set_basic_constraints :: "i32 \<Rightarrow> i32 \<Rightarrow> 'w \<Rightarrow> i32 \<times> 'w"
  write_crt_pem :: "nat \<Rightarrow> 'w \<Rightarrow> (i32 \<times> u8 list) \<times> 'w"
  write_crt_free :: "'w \<Rightarrow> 'w"
  rng_read :: "nat \<Rightarrow> 'w \<Rightarrow> u8 list \<times> 'w"

definition call :: "('w \<Rightarrow> 'a \<times> 'w) \<Rightarrow> ('w, 'a, 'e) comp" where
  "call f w = (case f w of (a, w') \<Rightarrow> (Ok a, w'))"

section \<open>Pairs\<close>

datatype pair_error = InvalidCertificate | InvalidPrivateKey | Mismatch

definition validate_cert_key_pair :: "'w pki_lib \<Rightarrow> u8 list \<Rightarrow> u8 list \<Rightarrow> ('w, unit, pair_error) comp" where
  "validate_cert_key_pair L cert_pem key_pem =
     andthen (ok_or InvalidCertificate (cstring_new cert_pem)) (\<lambda>cert_c.
     andthen (ok_or InvalidPrivateKey (cstring_new key_pem)) (\<lambda>key_c.
     scoped (\<lambda>w. pk_free L (x509_crt_free L w))
       (andthen (modify (x509_crt_init L)) (\<lambda>_.
        andthen (modify (pk_init L)) (\<lambda>_.
        andthen (call (x509_crt_parse L (cert_c @ [0]) (length cert_c + 1))) (\<lambda>rc.
        andthen (reject_if (rc \<noteq> 0) InvalidCertificate) (\<lambda>_.
        andthen (call (pk_parse_key L (key_c @ [0]) (length key_c + 1))) (\<lambda>rc.
        andthen (reject_if (rc \<noteq> 0) InvalidPrivateKey) (\<lambda>_.
        andthen (call (pk_check_pair L)) (\<lambda>rc.
        reject_if (rc \<noteq> 0) Mismatch))))))))))"

section \<open>Identities\<close>

datatype identity_error =
    InvalidName | PsaInit i32 | KeyGeneration i32 | KeySetup i32 | KeyEncoding i32
  | CertificateSetup i32 | CertificateEncoding i32 | InvalidUtf8

record generated_identity =
  cert_pem :: "u8 list"
  key_pem :: "u8 list"

definition PSA_SUCCESS :: i32 where "PSA_SUCCESS = 0"

definition KEY_TYPE :: u16 where "KEY_TYPE = 0x7100 OR 0x12"

definition PSA_KEY_USAGE_EXPORT :: u32 where "PSA_KEY_USAGE_EXPORT = 0x00000001"

definition key_request :: key_attributes where
  "key_request = \<lparr>private_type = KEY_TYPE, private_bits = 256, private_lifetime = 0,
     private_usage = PSA_KEY_USAGE_EXPORT, private_alg = 0\<rparr>"

text \<open>The local \<open>Contexts\<close>: only \<open>key_id\<close> is read by the code, the others live in the world.\<close>

record 'w ident =
  key_id :: u32
  id_world :: 'w

type_synonym ('w, 'a) identc = "('w ident, 'a, identity_error) comp"

definition lib :: "('w \<Rightarrow> 'a \<times> 'w) \<Rightarrow> ('w, 'a) identc" where
  "lib f s = (case f (id_world s) of (a, w) \<Rightarrow> (Ok a, s\<lparr>id_world := w\<rparr>))"

definition drop_contexts :: "'w pki_lib \<Rightarrow> 'w ident \<Rightarrow> 'w ident" where
  "drop_contexts L s = (let w = pk_free L (write_crt_free L (id_world s)) in
     s\<lparr>id_world := (if key_id s \<noteq> 0 then psa_destroy_key L (key_id s) w else w)\<rparr>)"

definition set_up :: "('w \<Rightarrow> i32 \<times> 'w) \<Rightarrow> ('w, unit) identc" where
  "set_up f = andthen (lib f) (\<lambda>rc. if rc = 0 then return () else throw (CertificateSetup rc))"

text \<open>The first byte keeps the number positive and makes it non-zero.\<close>

definition fix_serial :: "u8 list \<Rightarrow> u8 list" where
  "fix_serial serial = serial[0 := (serial ! 0 AND 0x7F) OR 0x01]"

definition pem_string :: "u8 list \<Rightarrow> ('w, u8 list) identc" where
  "pem_string buf = (let text = takeWhile (\<lambda>b. b \<noteq> 0) buf in
     if utf8_valid text then return text else throw InvalidUtf8)"

definition build_identity :: "'w pki_lib \<Rightarrow> u8 list \<Rightarrow> ('w, generated_identity) identc" where
  "build_identity L subject =
     andthen (lib (psa_crypto_init L)) (\<lambda>rc.
     andthen (reject_if (rc \<noteq> PSA_SUCCESS) (PsaInit rc)) (\<lambda>_.
     andthen (lib (psa_generate_key L key_request)) (\<lambda>(rc, new_id).
     andthen (modify (\<lambda>s. s\<lparr>key_id := new_id\<rparr>)) (\<lambda>_.
     andthen (reject_if (rc \<noteq> PSA_SUCCESS \<or> new_id = 0) (KeyGeneration rc)) (\<lambda>_.
     andthen (lib (\<lambda>w. ((), pk_init L w))) (\<lambda>_.
     andthen (lib (pk_copy_from_psa L new_id)) (\<lambda>rc.
     andthen (reject_if (rc \<noteq> 0) (KeySetup rc)) (\<lambda>_.
     andthen (lib (\<lambda>w. ((), write_crt_init L w))) (\<lambda>_.
     andthen (set_up (set_subject_name L (subject @ [0]))) (\<lambda>_.
     andthen (set_up (set_issuer_name L (subject @ [0]))) (\<lambda>_.
     andthen (lib (\<lambda>w. ((), set_issuer_key L (set_subject_key L w)))) (\<lambda>_.
     andthen (lib (rng_read L 16)) (\<lambda>serial.
     andthen (set_up (set_serial_raw L (fix_serial serial))) (\<lambda>_.
     andthen (set_up (set_validity L (ascii ''20260101000000'' @ [0]) (ascii ''20991231235959'' @ [0]))) (\<lambda>_.
     andthen (lib (\<lambda>w. ((), set_md_sha256 L w))) (\<lambda>_.
     andthen (set_up (set_basic_constraints L 0 (-1))) (\<lambda>_.
     andthen (lib (pk_write_key_pem L 1024)) (\<lambda>(rc, key_buf).
     andthen (reject_if (rc \<noteq> 0) (KeyEncoding rc)) (\<lambda>_.
     andthen (lib (write_crt_pem L 2048)) (\<lambda>(rc, cert_buf).
     andthen (reject_if (rc \<noteq> 0) (CertificateEncoding rc)) (\<lambda>_.
     andthen (pem_string cert_buf) (\<lambda>cert.
     andthen (pem_string key_buf) (\<lambda>key.
     return \<lparr>cert_pem = cert, key_pem = key\<rparr>)))))))))))))))))))))))"

definition generate_self_signed_identity :: "'w pki_lib \<Rightarrow> u8 list \<Rightarrow> ('w, generated_identity, identity_error) comp" where
  "generate_self_signed_identity L common_name w = (case cstring_new (ascii ''CN='' @ common_name) of
       None \<Rightarrow> (Err InvalidName, w)
     | Some subject \<Rightarrow> (case scoped (drop_contexts L) (build_identity L subject) \<lparr>key_id = 0, id_world = w\<rparr> of
           (r, s) \<Rightarrow> (r, id_world s)))"

section \<open>Configurations\<close>

datatype server_config_error =
    SC_InvalidCertificatePem | SC_InvalidPrivateKeyPem | SC_InvalidCertificate | SC_InvalidPrivateKey

text \<open>The parsers of \<open>mbedtls_rs\<close>, given the PEM text.\<close>

record ('c, 'k) pem_parsers =
  certificate_new :: "u8 list \<Rightarrow> 'c option"
  private_key_new :: "u8 list \<Rightarrow> 'k option"

record ('c, 'k) credentials =
  certificate :: 'c
  private_key :: 'k

definition server_config_from_pem :: "('c, 'k) pem_parsers \<Rightarrow> u8 list \<Rightarrow> u8 list \<Rightarrow> server_config_error + ('c, 'k) credentials" where
  "server_config_from_pem P cert key = (case cstring_new cert of
       None \<Rightarrow> Inl SC_InvalidCertificatePem
     | Some cert_c \<Rightarrow> (case cstring_new key of
         None \<Rightarrow> Inl SC_InvalidPrivateKeyPem
       | Some key_c \<Rightarrow> (case certificate_new P cert_c of
           None \<Rightarrow> Inl SC_InvalidCertificate
         | Some c \<Rightarrow> (case private_key_new P key_c of
             None \<Rightarrow> Inl SC_InvalidPrivateKey
           | Some k \<Rightarrow> Inr \<lparr>certificate = c, private_key = k\<rparr>))))"

definition validate_ca_pem :: "('c, 'k) pem_parsers \<Rightarrow> u8 list \<Rightarrow> bool" where
  "validate_ca_pem P ca_pem = (case cstring_new ca_pem of
       None \<Rightarrow> False
     | Some ca_c \<Rightarrow> certificate_new P ca_c \<noteq> None)"

end
