(* ===== verification/Tls_Time.thy ===== *)
theory Tls_Time
  imports Prelude
begin

text \<open>
  \<open>epoch_to_tm\<close> of \<open>services/tls/src/lib.rs\<close>, the UTC calendar behind the TLS wall clock, and the
  Gregorian calendar by counting days as its reference.  The code's \<open>i64\<close> and \<open>i32\<close> values are \<open>int\<close>:
  every operand is non-negative and below \<open>2^48\<close>, so nothing wraps, and the truncating \<open>/\<close> and \<open>%\<close>
  agree with \<open>div\<close> and \<open>mod\<close>.
\<close>

section \<open>The conversion\<close>

record tm =
  tm_sec :: int
  tm_min :: int
  tm_hour :: int
  tm_mday :: int
  tm_mon :: int
  tm_year :: int
  tm_wday :: int
  tm_yday :: int
  tm_isdst :: int

definition CUMULATIVE :: "int list" where
  "CUMULATIVE = [0, 31, 59, 90, 120, 151, 181, 212, 243, 273, 304, 334]"

definition i64_from_u64 :: "u64 \<Rightarrow> int option" where
  "i64_from_u64 x = (if unat x < 2 ^ 63 then Some (uint x) else None)"

text \<open>Year, month and day of a day count, in the order the code computes them.\<close>

definition civil_from_days :: "int \<Rightarrow> int \<times> int \<times> int" where
  "civil_from_days days = (
     let z = days + 719468;
         era = z div 146097;
         doe = z mod 146097;
         yoe = (doe - doe div 1460 + doe div 36524 - doe div 146096) div 365;
         doy = doe - (365 * yoe + yoe div 4 - yoe div 100);
         mp = (5 * doy + 2) div 153;
         day = doy - (153 * mp + 2) div 5 + 1;
         month = (if mp < 10 then mp + 3 else mp - 9);
         year = yoe + era * 400 + (if month \<le> 2 then 1 else 0)
     in (year, month, day))"

definition is_leap :: "int \<Rightarrow> bool" where
  "is_leap year \<longleftrightarrow> year mod 4 = 0 \<and> (year mod 100 \<noteq> 0 \<or> year mod 400 = 0)"

definition epoch_to_tm :: "u64 \<Rightarrow> tm option" where
  "epoch_to_tm epoch = Option.bind (i64_from_u64 (epoch div 86400)) (\<lambda>days.
     let secs = uint (epoch mod 86400) in
     case civil_from_days days of (year, month, day) \<Rightarrow>
       if \<not> (1970 \<le> year \<and> year \<le> 9999) then None
       else
         let yday = CUMULATIVE ! nat (month - 1) + day - 1 + (if is_leap year \<and> month > 2 then 1 else 0)
         in Some \<lparr>tm_sec = secs mod 60, tm_min = secs div 60 mod 60, tm_hour = secs div 3600,
                  tm_mday = day, tm_mon = month - 1, tm_year = year - 1900,
                  tm_wday = (days + 4) mod 7, tm_yday = yday, tm_isdst = 0\<rparr>)"

text \<open>\<open>WallClock::instant\<close>: the application's clock, when it has one.\<close>

definition wall_clock_instant :: "u64 option \<Rightarrow> tm option" where
  "wall_clock_instant now = Option.bind now epoch_to_tm"

section \<open>The Gregorian calendar\<close>

definition leap :: "int \<Rightarrow> bool" where
  "leap y \<longleftrightarrow> 4 dvd y \<and> (\<not> 100 dvd y \<or> 400 dvd y)"

definition days_in_month :: "int \<Rightarrow> int \<Rightarrow> int" where
  "days_in_month y m = (if m = 2 then if leap y then 29 else 28
     else if m = 4 \<or> m = 6 \<or> m = 9 \<or> m = 11 then 30 else 31)"

text \<open>Days from 1 January 1970 to 1 January of the year \<open>1970 + k\<close>, and to a date.\<close>

primrec year_start :: "nat \<Rightarrow> int" where
  "year_start 0 = 0"
| "year_start (Suc k) = year_start k + (if leap (1970 + int k) then 366 else 365)"

definition month_start :: "int \<Rightarrow> int \<Rightarrow> int" where
  "month_start y m = (\<Sum>i \<leftarrow> [1..m - 1]. days_in_month y i)"

definition day_number :: "int \<times> int \<times> int \<Rightarrow> int" where
  "day_number d = (case d of (y, m, n) \<Rightarrow> year_start (nat (y - 1970)) + month_start y m + (n - 1))"

definition valid_date :: "int \<times> int \<times> int \<Rightarrow> bool" where
  "valid_date d \<longleftrightarrow> (case d of (y, m, n) \<Rightarrow> 1 \<le> m \<and> m \<le> 12 \<and> 1 \<le> n \<and> n \<le> days_in_month y m)"

section \<open>Counting leap days\<close>

definition leaps :: "int \<Rightarrow> int" where
  "leaps y = y div 4 - y div 100 + y div 400"

lemma div_step: "0 < k \<Longrightarrow> (y :: int) div k = (y - 1) div k + (if k dvd y then 1 else 0)"
proof -
  assume k: "0 < k"
  show ?thesis
  proof (cases "k dvd y")
    case True
    then obtain c where c: "y = k * c" by (rule dvdE)
    have "(k * c - 1) div k = c - 1" using k by (intro int_div_pos_eq [where r = "k - 1"]) (simp_all add: algebra_simps)
    with True c k show ?thesis by simp
  next
    case False
    then have "0 < y mod k" using k by (metis dvd_eq_mod_eq_0 le_less pos_mod_sign)
    then have "(y - 1) div k = y div k"
      using k pos_mod_bound [OF k, of y] by (intro int_div_pos_eq [where r = "y mod k - 1"]) (auto simp: algebra_simps)
    with False show ?thesis by simp
  qed
qed

lemma leaps_step: "leaps y = leaps (y - 1) + (if leap y then 1 else 0)"
proof -
  have "100 dvd y \<Longrightarrow> 4 dvd y" "400 dvd y \<Longrightarrow> 100 dvd y" by presburger+
  moreover have "y div 4 = (y - 1) div 4 + (if 4 dvd y then 1 else 0)" "y div 100 = (y - 1) div 100 + (if 100 dvd y then 1 else 0)"
    "y div 400 = (y - 1) div 400 + (if 400 dvd y then 1 else 0)" by (rule div_step; simp)+
  ultimately show ?thesis
    unfolding leaps_def leap_def
    by (cases "4 dvd y"; cases "100 dvd y"; cases "400 dvd y") (simp_all only: if_True if_False simp_thms)
qed

lemma year_start_closed: "year_start k = 365 * int k + leaps (1969 + int k) - leaps 1969"
proof (induction k)
  case (Suc k)
  then show ?case using leaps_step [of "1970 + int k"] by (simp add: algebra_simps)
qed simp

text \<open>1 January of a year, counted from 1 March of the year 0.\<close>

lemma year_start_march:
  assumes "1970 \<le> y"
  shows "year_start (nat (y - 1970)) + 719468 = 365 * (y - 1) + leaps (y - 1) + 306"
  using assms by (simp add: year_start_closed leaps_def algebra_simps)

lemma month_starts:
  assumes "1 \<le> m" and "m \<le> 12"
  shows "month_start y m = CUMULATIVE ! nat (m - 1) + (if leap y \<and> 2 < m then 1 else 0)"
proof -
  have "m = 1 \<or> m = 2 \<or> m = 3 \<or> m = 4 \<or> m = 5 \<or> m = 6 \<or> m = 7 \<or> m = 8 \<or> m = 9 \<or> m = 10 \<or> m = 11 \<or> m = 12"
    using assms by presburger
  then show ?thesis
    by (elim disjE; simp add: month_start_def CUMULATIVE_def days_in_month_def upto.simps)
qed

section \<open>The algorithm counts the same days\<close>

text \<open>
  A day of the 400-year era is a century \<open>q\<close>, a group \<open>p\<close> of four years in it, a year \<open>t\<close> in that and a
  day \<open>s\<close> of the year from 1 March.  The last day of a group or an era is the 366th day of its last year.
\<close>

definition era_day :: "int \<Rightarrow> int \<Rightarrow> int \<Rightarrow> int \<Rightarrow> int \<Rightarrow> bool" where
  "era_day doe q p t s \<longleftrightarrow> doe = 36524 * q + 1461 * p + 365 * t + s \<and>
     0 \<le> q \<and> q \<le> 3 \<and> 0 \<le> p \<and> p \<le> 24 \<and> 0 \<le> t \<and> t \<le> 3 \<and> 0 \<le> s \<and>
     (s \<le> 364 \<or> s = 365 \<and> t = 3 \<and> (p < 24 \<or> q = 3))"

lemma era_day_exists:
  assumes "0 \<le> doe" and "doe < 146097"
  shows "\<exists>q p t s. era_day doe q p t s"
proof -
  define q where "q = min 3 (doe div 36524)"
  define r where "r = doe - 36524 * q"
  define p where "p = r div 1461"
  define r4 where "r4 = r mod 1461"
  define t where "t = min 3 (r4 div 365)"
  have e: "36524 * (doe div 36524) \<le> doe" "doe < 36524 * (doe div 36524) + 36524" by linarith+
  have q: "0 \<le> q" "q \<le> 3" "0 \<le> r" "r \<le> 36524" "q < 3 \<longrightarrow> r \<le> 36523"
    using assms e unfolding q_def r_def min_def by (simp_all split: if_splits)
  have p: "r = 1461 * p + r4" "0 \<le> r4" "r4 \<le> 1460" by (simp_all add: p_def r4_def)
  have p': "0 \<le> p" "p \<le> 24" "p = 24 \<longrightarrow> r4 \<le> 1460 - (if q = 3 then 0 else 1)"
    using q p by (auto split: if_splits)
  have f: "365 * (r4 div 365) \<le> r4" "r4 < 365 * (r4 div 365) + 365" by linarith+
  have t: "0 \<le> t" "t \<le> 3" "0 \<le> r4 - 365 * t" "r4 - 365 * t \<le> 365" "t < 3 \<longrightarrow> r4 - 365 * t \<le> 364"
    using p(2,3) f unfolding t_def min_def by (simp_all split: if_splits)
  have "era_day doe q p t (r4 - 365 * t)"
    unfolding era_day_def using q p p' t by (auto simp: r_def split: if_splits)
  then show ?thesis by blast
qed

lemma era_day_year:
  assumes "era_day doe q p t s"
  shows "(doe - doe div 1460 + doe div 36524 - doe div 146096) div 365 = 100 * q + 4 * p + t"
proof -
  note d = assms [unfolded era_day_def]
  have B: "doe div 36524 - doe div 146096 = q"
  proof (cases "doe = 146096")
    case False
    then have "doe < 146096" "36524 * q \<le> doe" "doe < 36524 * q + 36524" using d by auto
    moreover from this have "doe div 36524 = q" by (intro int_div_pos_eq [where r = "doe - 36524 * q"]) auto
    moreover have "doe div 146096 = 0" using d \<open>doe < 146096\<close> by (intro div_pos_pos_trivial) auto
    ultimately show ?thesis by simp
  qed (use d in auto)
  define A where "A = doe div 1460"
  have A: "A = 25 * q + p \<and> 24 * q + p + 365 * t + s < 1460 \<or> A = 25 * q + p + 1 \<and> 1460 \<le> 24 * q + p + 365 * t + s"
  proof -
    have e: "doe = 1460 * (25 * q + p) + (24 * q + p + 365 * t + s)" "24 * q + p + 365 * t + s < 2920"
      "0 \<le> 24 * q + p + 365 * t + s" using d by auto
    have "doe div 1460 = 25 * q + p + (24 * q + p + 365 * t + s) div 1460" unfolding e(1) by simp
    moreover have "(24 * q + p + 365 * t + s) div 1460 = 1" if "1460 \<le> 24 * q + p + 365 * t + s"
      using that e(2) by (intro int_div_pos_eq [where r = "24 * q + p + 365 * t + s - 1460"]) auto
    ultimately show ?thesis using e(3) unfolding A_def by (cases "24 * q + p + 365 * t + s < 1460") (simp_all add: div_pos_pos_trivial)
  qed
  have "doe - A + q = 365 * (100 * q + 4 * p + t) + (s + (25 * q + p - A))" using d by (simp add: algebra_simps)
  moreover have "0 \<le> s + (25 * q + p - A)" "s + (25 * q + p - A) < 365" using A d by auto
  ultimately have "(doe - A + q) div 365 = 100 * q + 4 * p + t" by (intro int_div_pos_eq)
  then show ?thesis using B by (simp add: A_def algebra_simps)
qed

lemma group_year:
  fixes era :: int
  assumes "0 \<le> t" "t \<le> 3" "0 \<le> p" "p \<le> 24" "0 \<le> q" "q \<le> 3"
  defines "y \<equiv> 100 * q + 4 * p + t + 400 * era"
  shows "y div 4 = 25 * q + p + 100 * era" "y div 100 = q + 4 * era" "y div 400 = era"
proof -
  show "y div 4 = 25 * q + p + 100 * era"
    using assms(1,2) unfolding y_def by (intro int_div_pos_eq [where r = t]) auto
  show "y div 100 = q + 4 * era"
    using assms(1-4) unfolding y_def by (intro int_div_pos_eq [where r = "4 * p + t"]) auto
  show "y div 400 = era"
    using assms(1-6) unfolding y_def by (intro int_div_pos_eq [where r = "100 * q + 4 * p + t"]) auto
qed

text \<open>The year that begins on 1 March has a 366th day only when the year it ends in is a leap year.\<close>

lemma last_day_leap:
  assumes "era_day doe q p t s" and "s = 365"
  shows "leap (100 * q + 4 * p + t + 400 * era + 1)"
proof -
  note d = assms [unfolded era_day_def]
  then have t: "t = 3" "p < 24 \<or> q = 3" by auto
  have "100 dvd (100 * q + 4 * p + 3 + 400 * era + 1) \<longleftrightarrow> p = 24"
  proof -
    have "100 dvd (100 * q + 4 * p + 3 + 400 * era + 1) \<longleftrightarrow> 100 dvd (4 * p + 4 + 100 * (q + 4 * era))" by (simp add: algebra_simps)
    also have "\<dots> \<longleftrightarrow> 100 dvd (4 * p + 4)" by (simp add: dvd_add_left_iff)
    also have "\<dots> \<longleftrightarrow> p = 24" using d by presburger
    finally show ?thesis .
  qed
  moreover have "400 dvd (100 * q + 4 * p + 3 + 400 * era + 1)" if "p = 24" "q = 3"
    using that by (simp add: algebra_simps)
  moreover have "4 dvd (100 * q + 4 * p + 3 + 400 * era + 1)" by presburger
  ultimately show ?thesis using t by (auto simp: leap_def)
qed

text \<open>The months from March: their first days, and the day and month of a day of the year.\<close>

lemma march_month:
  fixes doy :: int
  assumes "0 \<le> doy" and "doy \<le> 365"
  defines "mp \<equiv> (5 * doy + 2) div 153"
  shows "0 \<le> mp" "mp \<le> 11" "(153 * mp + 2) div 5 \<le> doy"
    "doy < (153 * (mp + 1) + 2) div 5"
proof -
  define M where "M = (5 * doy + 2) mod 153"
  have "5 * doy + 2 = 153 * mp + M" "0 \<le> M" "M < 153" by (simp_all add: mp_def M_def)
  then have e: "153 * mp \<le> 5 * doy + 2" "5 * doy + 2 < 153 * (mp + 1)" by simp_all
  show "0 \<le> mp" unfolding mp_def by (rule pos_imp_zdiv_nonneg_iff [THEN iffD2]) (use assms(1) in auto)
  have "mp \<le> 1827 div 153" unfolding mp_def by (rule zdiv_mono1) (use assms(2) in auto)
  then show "mp \<le> 11" by simp
  have "(153 * mp + 2) div 5 \<le> (5 * doy + 4) div 5" by (rule zdiv_mono1) (use e(1) in auto)
  also have "(5 * doy + 4) div 5 = doy" by (rule int_div_pos_eq [where r = 4]) auto
  finally show "(153 * mp + 2) div 5 \<le> doy" .
  have "5 * (doy + 1) div 5 \<le> (153 * (mp + 1) + 2) div 5" by (rule zdiv_mono1) (use e(2) in auto)
  then show "doy < (153 * (mp + 1) + 2) div 5" by simp
qed

lemma leaps_mono: "a \<le> b \<Longrightarrow> leaps a \<le> leaps b"
proof (induction b rule: int_ge_induct)
  case (step i)
  then show ?case using leaps_step [of "i + 1"] by simp
qed simp

text \<open>A date after February has the year of its March-based year \<open>Y\<close>, one before March the next.\<close>

lemma civil_after_february:
  fixes Y mp s :: int
  assumes "1970 \<le> Y" and "0 \<le> mp" and "mp < 10"
    and "(153 * mp + 2) div 5 \<le> s" and "s < (153 * (mp + 1) + 2) div 5"
  shows "day_number (Y, mp + 3, s - (153 * mp + 2) div 5 + 1) + 719468 = 365 * Y + leaps Y + s \<and>
    valid_date (Y, mp + 3, s - (153 * mp + 2) div 5 + 1)"
proof -
  have "mp = 0 \<or> mp = 1 \<or> mp = 2 \<or> mp = 3 \<or> mp = 4 \<or> mp = 5 \<or> mp = 6 \<or> mp = 7 \<or> mp = 8 \<or> mp = 9"
    using assms(2,3) by presburger
  then show ?thesis
    using year_start_march [OF assms(1)] leaps_step [of Y] assms(4,5)
    by (elim disjE; simp add: day_number_def valid_date_def month_starts days_in_month_def CUMULATIVE_def)
qed

lemma civil_before_march:
  fixes Y mp s :: int
  assumes "1969 \<le> Y" and "10 \<le> mp" and "mp \<le> 11"
    and "(153 * mp + 2) div 5 \<le> s" and "s < (153 * (mp + 1) + 2) div 5" and "s \<le> 364 \<or> s = 365 \<and> leap (Y + 1)"
  shows "day_number (Y + 1, mp - 9, s - (153 * mp + 2) div 5 + 1) + 719468 = 365 * Y + leaps Y + s \<and>
    valid_date (Y + 1, mp - 9, s - (153 * mp + 2) div 5 + 1)"
proof -
  have "mp = 10 \<or> mp = 11" using assms(2,3) by presburger
  then show ?thesis
    using year_start_march [of "Y + 1"] assms(1,4-6)
    by (elim disjE; auto simp add: day_number_def valid_date_def month_starts days_in_month_def CUMULATIVE_def)
qed

lemma civil_correct:
  assumes d: "era_day doe q p t s" and days: "days + 719468 = 146097 * era + doe" "0 \<le> days"
    and c: "civil_from_days days = (y, m, n)"
  shows "day_number (y, m, n) = days \<and> valid_date (y, m, n) \<and> 1970 \<le> y"
proof -
  define Y where "Y = 100 * q + 4 * p + t + 400 * era"
  define mp where "mp = (5 * s + 2) div 153"
  note b = d [unfolded era_day_def]
  have range: "0 \<le> doe" "doe < 146097" "0 \<le> s" "s \<le> 365" using b by auto
  have split: "(days + 719468) div 146097 = era" "(days + 719468) mod 146097 = doe"
    using range(1,2) unfolding days(1) by simp_all
  have yoe: "(doe - doe div 1460 + doe div 36524 - doe div 146096) div 365 = 100 * q + 4 * p + t" by (rule era_day_year [OF d])
  note g = group_year [of t p q 0] group_year [of t p q era]
  have doy: "doe - (365 * (100 * q + 4 * p + t) + (100 * q + 4 * p + t) div 4 - (100 * q + 4 * p + t) div 100) = s"
    using g(1,2) b by simp
  have Yz: "days + 719468 = 365 * Y + leaps Y + s"
    using g(4-6) b unfolding days(1) by (simp add: Y_def leaps_def)
  note mm = march_month [OF range(3,4), folded mp_def]
  have parts: "m = (if mp < 10 then mp + 3 else mp - 9)" "n = s - (153 * mp + 2) div 5 + 1" "y = Y + (if m \<le> 2 then 1 else 0)"
    using c unfolding civil_from_days_def Let_def split yoe doy by (auto simp: mp_def Y_def)
  have lower: "365 * Y + leaps Y + s \<ge> 719468" using Yz days(2) by simp
  show ?thesis
  proof (cases "mp < 10")
    case True
    have "(153 * (mp + 1) + 2) div 5 \<le> 1532 div 5" by (rule zdiv_mono1) (use True in auto)
    then have "s < 306" using mm(4) by simp
    have "1970 \<le> Y"
    proof (rule ccontr)
      assume "\<not> 1970 \<le> Y"
      then show False using leaps_mono [of Y 1969] lower \<open>s < 306\<close> by (simp add: leaps_def [of 1969])
    qed
    with civil_after_february [OF this mm(1) True mm(3,4)] True mm(1) Yz show ?thesis unfolding parts by simp
  next
    case False
    have "1969 \<le> Y"
    proof (rule ccontr)
      assume "\<not> 1969 \<le> Y"
      then show False using leaps_mono [of Y 1968] lower range(4) by (simp add: leaps_def [of 1968])
    qed
    moreover have "s \<le> 364 \<or> s = 365 \<and> leap (Y + 1)" using last_day_leap [OF d] b unfolding Y_def by blast
    ultimately show ?thesis
      using civil_before_march [of Y mp s] False mm Yz unfolding parts by simp
  qed
qed

section \<open>The range of the calendar\<close>

lemma era_of_days:
  assumes "0 \<le> days"
  shows "\<exists>q p t s. era_day ((days + 719468) mod 146097) q p t s"
  by (rule era_day_exists) simp_all

lemma civil_from_days_correct:
  assumes "0 \<le> days" and "civil_from_days days = (y, m, n)"
  shows "day_number (y, m, n) = days" "valid_date (y, m, n)" "1970 \<le> y"
proof -
  obtain q p t s where d: "era_day ((days + 719468) mod 146097) q p t s" using era_of_days [OF assms(1)] by blast
  have "days + 719468 = 146097 * ((days + 719468) div 146097) + (days + 719468) mod 146097" by simp
  from civil_correct [OF d this assms] show "day_number (y, m, n) = days" "valid_date (y, m, n)" "1970 \<le> y" by blast+
qed

lemma day_number_range:
  assumes "valid_date (y, m, n)" and "1970 \<le> y"
  shows "year_start (nat (y - 1970)) \<le> day_number (y, m, n)" "day_number (y, m, n) < year_start (Suc (nat (y - 1970)))"
proof -
  have m: "1 \<le> m" "m \<le> 12" "1 \<le> n" "n \<le> days_in_month y m" using assms(1) by (simp_all add: valid_date_def)
  have "m = 1 \<or> m = 2 \<or> m = 3 \<or> m = 4 \<or> m = 5 \<or> m = 6 \<or> m = 7 \<or> m = 8 \<or> m = 9 \<or> m = 10 \<or> m = 11 \<or> m = 12"
    using m(1,2) by presburger
  then have "0 \<le> month_start y m + (n - 1) \<and> month_start y m + (n - 1) < (if leap y then 366 else 365)"
    using m(3,4) by (elim disjE; simp add: month_starts days_in_month_def CUMULATIVE_def split: if_splits)
  then show "year_start (nat (y - 1970)) \<le> day_number (y, m, n)" "day_number (y, m, n) < year_start (Suc (nat (y - 1970)))"
    using assms(2) by (simp_all add: day_number_def)
qed

lemma year_start_mono: "j \<le> k \<Longrightarrow> year_start j \<le> year_start k"
  by (rule lift_Suc_mono_le) auto

lemma year_10000: "year_start 8030 = 2932897"
  by (simp add: year_start_closed leaps_def)

lemma day_before_10000:
  assumes "valid_date (y, m, n)" and "1970 \<le> y"
  shows "y \<le> 9999 \<longleftrightarrow> day_number (y, m, n) < 2932897"
proof
  assume "y \<le> 9999"
  then have "year_start (Suc (nat (y - 1970))) \<le> year_start 8030" by (intro year_start_mono) auto
  then show "day_number (y, m, n) < 2932897" using day_number_range(2) [OF assms] by (simp add: year_10000)
next
  assume before: "day_number (y, m, n) < 2932897"
  show "y \<le> 9999"
  proof (rule ccontr)
    assume "\<not> y \<le> 9999"
    then have "year_start 8030 \<le> year_start (nat (y - 1970))" by (intro year_start_mono) auto
    then show False using day_number_range(1) [OF assms] before by (simp add: year_10000)
  qed
qed

lemma epoch_days:
  fixes epoch :: u64
  shows "i64_from_u64 (epoch div 86400) = Some (uint epoch div 86400)" "uint (epoch mod 86400) = uint epoch mod 86400"
proof -
  have "unat (epoch div 86400) < 2 ^ 63"
  proof -
    have "unat epoch < 2 ^ LENGTH(64)" by (rule unsigned_less)
    then have "unat epoch < 2 ^ 64" by simp
    then have "unat epoch div 86400 < 2 ^ 63" by simp
    then show ?thesis by (simp add: unat_div)
  qed
  then show "i64_from_u64 (epoch div 86400) = Some (uint epoch div 86400)" by (simp add: i64_from_u64_def uint_div)
  show "uint (epoch mod 86400) = uint epoch mod 86400" by (simp add: uint_mod)
qed

section \<open>The conversion is the calendar\<close>

definition denotes_epoch :: "tm \<Rightarrow> int \<Rightarrow> bool" where
  "denotes_epoch t e \<longleftrightarrow> (let y = tm_year t + 1900; m = tm_mon t + 1; d = day_number (y, m, tm_mday t) in
     valid_date (y, m, tm_mday t) \<and> 1970 \<le> y \<and> y \<le> 9999 \<and>
     0 \<le> tm_hour t \<and> tm_hour t < 24 \<and> 0 \<le> tm_min t \<and> tm_min t < 60 \<and> 0 \<le> tm_sec t \<and> tm_sec t < 60 \<and>
     d * 86400 + tm_hour t * 3600 + tm_min t * 60 + tm_sec t = e \<and>
     tm_wday t = (4 + d) mod 7 \<and> tm_yday t = month_start y m + (tm_mday t - 1) \<and> tm_isdst t = 0)"

lemma is_leap_eq: "is_leap = leap"
  by (simp add: is_leap_def leap_def dvd_eq_mod_eq_0 fun_eq_iff)

lemma clock_of_secs:
  fixes secs :: int
  assumes "0 \<le> secs" and "secs < 86400"
  shows "secs div 3600 * 3600 + secs div 60 mod 60 * 60 + secs mod 60 = secs" "0 \<le> secs div 3600" "secs div 3600 < 24"
proof -
  have "secs div 60 div 60 = secs div 3600" by (simp add: zdiv_zmult2_eq [symmetric])
  moreover have "secs div 60 = secs div 60 div 60 * 60 + secs div 60 mod 60" by simp
  moreover have "secs = secs div 60 * 60 + secs mod 60" by simp
  ultimately show "secs div 3600 * 3600 + secs div 60 mod 60 * 60 + secs mod 60 = secs" by linarith
  show "0 \<le> secs div 3600" using assms(1) by (simp add: pos_imp_zdiv_nonneg_iff)
  have "secs div 3600 \<le> 86399 div 3600" by (rule zdiv_mono1) (use assms(2) in auto)
  then show "secs div 3600 < 24" by simp
qed

text \<open>C31: \<open>epoch_to_tm\<close> is the Gregorian calendar: for every 64-bit epoch before the year 10000 it returns a
  valid date and time of day whose distance from 1 January 1970, counted year by year and month by month, is
  the epoch, with the right weekday and day of the year; for every later epoch it returns \<open>None\<close>.
  The clock hook returns nothing exactly when the application has no time or the time is beyond that.\<close>

theorem epoch_to_tm_is_calendar:
  "(case epoch_to_tm epoch of
      Some t \<Rightarrow> denotes_epoch t (uint epoch) \<and> uint epoch < 253402300800
    | None \<Rightarrow> 253402300800 \<le> uint epoch) \<and>
   (wall_clock_instant now = None \<longleftrightarrow> (case now of None \<Rightarrow> True | Some e \<Rightarrow> 253402300800 \<le> uint e))"
proof -
  have main: "case epoch_to_tm epoch of
      Some t \<Rightarrow> denotes_epoch t (uint epoch) \<and> uint epoch < 253402300800 | None \<Rightarrow> 253402300800 \<le> uint epoch" for epoch
  proof -
    define days where "days = uint epoch div 86400"
    define secs where "secs = uint epoch mod 86400"
    have e: "uint epoch = days * 86400 + secs" "0 \<le> secs" "secs < 86400" by (simp_all add: days_def secs_def)
    have pos: "0 \<le> days" by (simp add: days_def pos_imp_zdiv_nonneg_iff)
    obtain y m n where c: "civil_from_days days = (y, m, n)" by (metis prod_cases3)
    note date = civil_from_days_correct [OF pos c]
    have valid: "1 \<le> m" "m \<le> 12" using date(2) by (simp_all add: valid_date_def)
    have range: "y \<le> 9999 \<longleftrightarrow> uint epoch < 253402300800"
      using day_before_10000 [OF date(2,3)] date(1) e by auto
    note clock = clock_of_secs [OF e(2,3)]
    show ?thesis
    proof (cases "y \<le> 9999")
      case True
      then have "epoch_to_tm epoch = Some \<lparr>tm_sec = secs mod 60, tm_min = secs div 60 mod 60, tm_hour = secs div 3600,
                  tm_mday = n, tm_mon = m - 1, tm_year = y - 1900, tm_wday = (days + 4) mod 7,
                  tm_yday = CUMULATIVE ! nat (m - 1) + n - 1 + (if leap y \<and> m > 2 then 1 else 0), tm_isdst = 0\<rparr>"
        using date(3) by (simp add: epoch_to_tm_def epoch_days days_def [symmetric] secs_def [symmetric] c Let_def is_leap_eq)
      moreover have "denotes_epoch \<lparr>tm_sec = secs mod 60, tm_min = secs div 60 mod 60, tm_hour = secs div 3600,
                  tm_mday = n, tm_mon = m - 1, tm_year = y - 1900, tm_wday = (days + 4) mod 7,
                  tm_yday = CUMULATIVE ! nat (m - 1) + n - 1 + (if leap y \<and> m > 2 then 1 else 0), tm_isdst = 0\<rparr> (days * 86400 + secs)"
        using True date clock by (simp add: denotes_epoch_def Let_def month_starts [OF valid] add.commute [of days 4])
      ultimately show ?thesis using True range e(1) by simp
    next
      case False
      then have "epoch_to_tm epoch = None" by (simp add: epoch_to_tm_def epoch_days days_def [symmetric] c)
      then show ?thesis using False range by simp
    qed
  qed
  have "wall_clock_instant now = None \<longleftrightarrow> (case now of None \<Rightarrow> True | Some e \<Rightarrow> 253402300800 \<le> uint e)"
  proof (cases now)
    case (Some e)
    then show ?thesis using main [of e] by (auto simp: wall_clock_instant_def split: option.splits)
  qed (simp add: wall_clock_instant_def)
  with main [of epoch] show ?thesis by blast
qed

text \<open>The dates of the crate's own test, computed by the model.\<close>

lemma epoch_conversion_known_dates:
  "map_option (\<lambda>t. (tm_year t, tm_mon t, tm_mday t, tm_wday t)) (epoch_to_tm 0) = Some (70, 0, 1, 4)"
  "map_option (\<lambda>t. (tm_year t, tm_mon t, tm_mday t, tm_yday t)) (epoch_to_tm 1709164800) = Some (124, 1, 29, 59)"
proof -
  have days: "i64_from_u64 (0 div 86400) = Some 0" "i64_from_u64 (1709164800 div 86400) = Some 19782"
    by (simp_all add: i64_from_u64_def)
  have civil: "civil_from_days 0 = (1970, 1, 1)" "civil_from_days 19782 = (2024, 2, 29)"
    by code_simp+
  show "map_option (\<lambda>t. (tm_year t, tm_mon t, tm_mday t, tm_wday t)) (epoch_to_tm 0) = Some (70, 0, 1, 4)"
    unfolding epoch_to_tm_def days by (simp add: civil)
  show "map_option (\<lambda>t. (tm_year t, tm_mon t, tm_mday t, tm_yday t)) (epoch_to_tm 1709164800) = Some (124, 1, 29, 59)"
    unfolding epoch_to_tm_def days by (simp add: civil CUMULATIVE_def is_leap_def)
qed

end
