(* ===== verification/Tls_Session.thy ===== *)
theory Tls_Session
  imports Tls_Identity Tls_Time
begin

text \<open>
  The running side of \<open>services/tls/src/lib.rs\<close>: the random number adapter, the initialization of the one
  MbedTLS instance, the verifying client connection and the picoserve socket.  The chip's random
  generator, \<open>mbedtls_rs\<close>, \<open>embassy_net\<close> and \<open>picoserve\<close> are parameters.  An \<open>await\<close> that never completes is
  the outcome \<open>Waits_Forever\<close>, in which the call's values stay alive; a value that goes out of scope has
  its destructor called.
\<close>

section \<open>Random numbers\<close>

text \<open>\<open>EspCryptoRng\<close>: \<open>random\<close> and \<open>read\<close> are the chip's, acting on its generator \<open>'g\<close>.\<close>

record 'g rng_lib =
  chip_random :: "'g \<Rightarrow> u32 \<times> 'g"
  chip_read :: "nat \<Rightarrow> 'g \<Rightarrow> u8 list \<times> 'g"

definition try_next_u32 :: "'g rng_lib \<Rightarrow> 'g \<Rightarrow> u32 \<times> 'g" where
  "try_next_u32 R g = chip_random R g"

definition try_next_u64 :: "'g rng_lib \<Rightarrow> 'g \<Rightarrow> u64 \<times> 'g" where
  "try_next_u64 R g = (case chip_read R 8 g of (bytes, g') \<Rightarrow> (from_le bytes, g'))"

definition try_fill_bytes :: "'g rng_lib \<Rightarrow> nat \<Rightarrow> 'g \<Rightarrow> u8 list \<times> 'g" where
  "try_fill_bytes R len g = chip_read R len g"

text \<open>The C callback: the bytes it leaves in \<open>out\<close> and its return code.\<close>

definition mbedtls_rng :: "'g rng_lib \<Rightarrow> nat \<Rightarrow> 'g \<Rightarrow> (u8 list \<times> i32) \<times> 'g" where
  "mbedtls_rng R len g = (case chip_read R len g of (out, g') \<Rightarrow> ((out, 0), g'))"

section \<open>The MbedTLS instance\<close>

text \<open>\<open>as_millis\<close> is a \<open>u64\<close>; the cast to the signed time keeps its bits.\<close>

definition uptime_now :: "u64 \<Rightarrow> int" where
  "uptime_now millis = sint millis"

text \<open>
  The \<open>StaticCell\<close>s (filled at most once, a second \<open>init\<close> panics), the two hooks and the library's own
  state \<open>'w\<close>; a clock is a function of the moment \<open>'m\<close> at which it is read.
\<close>

record ('m, 'w) tls_statics =
  cell_wall_clock :: "('m \<Rightarrow> u64 option) option"
  cell_rng :: bool
  cell_tls :: bool
  timer_hooked :: bool
  wall_clock_hook :: "('m \<Rightarrow> u64 option) option"
  tls_library :: 'w

definition cold_statics :: "'w \<Rightarrow> ('m, 'w) tls_statics" where
  "cold_statics w = \<lparr>cell_wall_clock = None, cell_rng = False, cell_tls = False, timer_hooked = False,
     wall_clock_hook = None, tls_library = w\<rparr>"

type_synonym ('m, 'w) initc = "(('m, 'w) tls_statics, unit, unit) comp"

text \<open>\<open>Tls::new\<close> is the parameter: whether it succeeds, and its effect; \<open>expect\<close> turns a failure into a panic.\<close>

definition tls_new :: "('w \<Rightarrow> bool \<times> 'w) \<Rightarrow> ('m, 'w) initc" where
  "tls_new T s = (case T (tls_library s) of (ok, w) \<Rightarrow> (if ok then Ok () else Panic, s\<lparr>tls_library := w\<rparr>))"

definition tls_init :: "('w \<Rightarrow> bool \<times> 'w) \<Rightarrow> ('m \<Rightarrow> u64 option) \<Rightarrow> ('m, 'w) initc" where
  "tls_init T now =
     andthen (gets (\<lambda>s. cell_wall_clock s \<noteq> None)) (\<lambda>full.
     andthen (panic_if full) (\<lambda>_.
     andthen (modify (\<lambda>s. s\<lparr>cell_wall_clock := Some now\<rparr>)) (\<lambda>_.
     andthen (modify (\<lambda>s. s\<lparr>timer_hooked := True\<rparr>)) (\<lambda>_.
     andthen (modify (\<lambda>s. s\<lparr>wall_clock_hook := cell_wall_clock s\<rparr>)) (\<lambda>_.
     andthen (gets cell_rng) (\<lambda>full.
     andthen (panic_if full) (\<lambda>_.
     andthen (modify (\<lambda>s. s\<lparr>cell_rng := True\<rparr>)) (\<lambda>_.
     andthen (tls_new T) (\<lambda>_.
     andthen (gets cell_tls) (\<lambda>full.
     andthen (panic_if full) (\<lambda>_.
     modify (\<lambda>s. s\<lparr>cell_tls := True\<rparr>))))))))))))"

text \<open>What MbedTLS reads when it checks a validity date, at moment \<open>t\<close>.\<close>

definition certificate_clock :: "('m, 'w) tls_statics \<Rightarrow> 'm \<Rightarrow> tm option" where
  "certificate_clock s t = Option.bind (wall_clock_hook s) (\<lambda>now. wall_clock_instant (now t))"

section \<open>Client connections\<close>

datatype ('t, 'x) client_error = BadCa | Dns | Tcp 't | Handshake 'x

datatype 'e stop = Failed 'e | Waits_Forever

record ('c, 'd) client_config =
  ca_chain :: "'c option"
  server_name :: "u8 list option"
  other_settings :: 'd

record ('w, 'c, 'd, 'a, 'sock, 'sess, 't, 'x) client_lib =
  dns_query_a :: "u8 list \<Rightarrow> 'w \<Rightarrow> ('a list option \<times> 'w) option"
  socket_new :: "'w \<Rightarrow> 'sock \<times> 'w"
  socket_connect :: "'sock \<Rightarrow> 'a \<times> u16 \<Rightarrow> 'w \<Rightarrow> (('t + unit) \<times> 'w) option"
  socket_drop :: "'sock \<Rightarrow> 'w \<Rightarrow> 'w"
  client_config_new :: "('c, 'd) client_config"
  session_new :: "'sock \<Rightarrow> ('c, 'd) client_config \<Rightarrow> 'w \<Rightarrow> ('x + 'sess) \<times> 'w"
  session_connect :: "'sess \<Rightarrow> 'w \<Rightarrow> (('x + unit) \<times> 'w) option"
  session_drop :: "'sess \<Rightarrow> 'w \<Rightarrow> 'w"

definition wait_for :: "('w \<Rightarrow> ('a \<times> 'w) option) \<Rightarrow> ('w, 'a, 'e stop) comp" where
  "wait_for f w = (case f w of None \<Rightarrow> (Err Waits_Forever, w) | Some (a, w') \<Rightarrow> (Ok a, w'))"

definition first_address :: "'a list option \<Rightarrow> 'a option" where
  "first_address found = (case found of None \<Rightarrow> None | Some [] \<Rightarrow> None | Some (ip # _) \<Rightarrow> Some ip)"

definition client_config_for :: "('c, 'd) client_config \<Rightarrow> 'c \<Rightarrow> u8 list \<Rightarrow> ('c, 'd) client_config" where
  "client_config_for defaults ca host = defaults\<lparr>ca_chain := Some ca, server_name := Some host\<rparr>"

text \<open>The handshake over a connected socket, which the session owns from then on.\<close>

definition start_session ::
  "('w, 'c, 'd, 'a, 'sock, 'sess, 't, 'x) client_lib \<Rightarrow> 'sock \<Rightarrow> ('c, 'd) client_config \<Rightarrow> ('w, 'sess, ('t, 'x) client_error stop) comp" where
  "start_session L sock config =
     andthen (call (session_new L sock config)) (\<lambda>created.
     case created of
       Inl e \<Rightarrow> throw (Failed (Handshake e))
     | Inr session \<Rightarrow>
         andthen (wait_for (session_connect L session)) (\<lambda>shaken.
         case shaken of
           Inl e \<Rightarrow> andthen (modify (session_drop L session)) (\<lambda>_. throw (Failed (Handshake e)))
         | Inr _ \<Rightarrow> return session))"

definition connect_client ::
  "('w, 'c, 'd, 'a, 'sock, 'sess, 't, 'x) client_lib \<Rightarrow> ('c, 'k) pem_parsers \<Rightarrow> u8 list \<Rightarrow> u16 \<Rightarrow> u8 list \<Rightarrow>
     ('w, 'sess, ('t, 'x) client_error stop) comp" where
  "connect_client L P host port ca_pem =
     andthen (ok_or (Failed BadCa) (cstring_new ca_pem)) (\<lambda>ca_c.
     andthen (ok_or (Failed BadCa) (certificate_new P ca_c)) (\<lambda>ca.
     andthen (reject_if (\<not> utf8_valid host) (Failed Dns)) (\<lambda>_.
     andthen (wait_for (dns_query_a L host)) (\<lambda>found.
     andthen (ok_or (Failed Dns) (first_address found)) (\<lambda>ip.
     andthen (call (socket_new L)) (\<lambda>sock.
     andthen (wait_for (socket_connect L sock (ip, port))) (\<lambda>opened.
     case opened of
       Inl e \<Rightarrow> andthen (modify (socket_drop L sock)) (\<lambda>_. throw (Failed (Tcp e)))
     | Inr _ \<Rightarrow> start_session L sock (client_config_for (client_config_new L) ca host))))))))"

section \<open>The picoserve socket\<close>

text \<open>
  A connected session of \<open>mbedtls_rs\<close> and the TCP stream below it.  Both halves of a \<open>TlsSocket\<close> hold the
  same mutex; this theory has the operations of one half that runs alone, Tls_Halves interleaves the two.
\<close>

record ('s, 'x) session_lib =
  session_read :: "nat \<Rightarrow> 's \<Rightarrow> (('x + u8 list) \<times> 's) option"
  session_write :: "u8 list \<Rightarrow> 's \<Rightarrow> (('x + nat) \<times> 's) option"
  session_flush :: "'s \<Rightarrow> (('x + unit) \<times> 's) option"
  session_close :: "'s \<Rightarrow> (('x + unit) \<times> 's) option"
  stream_abort :: "'s \<Rightarrow> 's"
  stream_close :: "'s \<Rightarrow> 's"

type_synonym ('s, 'a, 'x) sockc = "('s, 'a, 'x stop) comp"

definition locked :: "('s \<Rightarrow> (('x + 'a) \<times> 's) option) \<Rightarrow> ('s, 'a, 'x) sockc" where
  "locked f = andthen (wait_for f) (\<lambda>r. case r of Inl e \<Rightarrow> throw (Failed e) | Inr a \<Rightarrow> return a)"

definition half_read :: "('s, 'x) session_lib \<Rightarrow> nat \<Rightarrow> ('s, u8 list, 'x) sockc" where
  "half_read S len = locked (session_read S len)"

definition half_write :: "('s, 'x) session_lib \<Rightarrow> u8 list \<Rightarrow> ('s, nat, 'x) sockc" where
  "half_write S buf = locked (session_write S buf)"

definition half_flush :: "('s, 'x) session_lib \<Rightarrow> ('s, unit, 'x) sockc" where
  "half_flush S = locked (session_flush S)"

text \<open>
  \<open>write_with\<close>: the closure fills a buffer of 1024 bytes through a cursor, which refuses more.  The count
  that the session's \<open>write\<close> returns is not read.
\<close>

definition WRITE_WITH_BUFFER :: nat where "WRITE_WITH_BUFFER = 1024"

definition half_write_with :: "('s, 'x) session_lib \<Rightarrow> (nat \<Rightarrow> u8 list \<times> 'r) \<Rightarrow> ('s, 'r, 'x) sockc" where
  "half_write_with S f = (case f WRITE_WITH_BUFFER of (filled, result) \<Rightarrow>
     andthen (half_write S filled) (\<lambda>_. return result))"

definition socket_abort :: "('s, 'x) session_lib \<Rightarrow> ('s, unit, 'x) sockc" where
  "socket_abort S = modify (stream_abort S)"

definition socket_shutdown :: "('s, 'x) session_lib \<Rightarrow> ('s, unit, 'x) sockc" where
  "socket_shutdown S = andthen (wait_for (session_close S)) (\<lambda>_. modify (stream_close S))"

end
