(* ===== verification/Tls_Theorems.thy ===== *)
theory Tls_Theorems
  imports Tls_Session
begin

text \<open>
  What the TLS service guarantees.  The C libraries enter through what their documentation says of each
  call: which of the contexts it fills or releases, which PSA key slots it takes or gives back, and when its
  code is zero.  A \<open>holding\<close> is the part of the world those statements speak of.
\<close>

section \<open>Documented behaviour of MbedTLS and PSA\<close>

record ('c, 'k) holding =
  crt_held :: "'c option"
  pk_held :: "'k option"
  write_held :: bool
  slots :: "u32 set"

record ('c, 'k) pem_meaning =
  cert_of :: "u8 list \<Rightarrow> 'c option"
  key_of :: "u8 list \<Rightarrow> 'k option"
  same_pair :: "'c \<Rightarrow> 'k \<Rightarrow> bool"

text \<open>The calls of the certificate check.\<close>

definition parse_laws :: "'w pki_lib \<Rightarrow> ('w \<Rightarrow> ('c, 'k) holding) \<Rightarrow> ('c, 'k) pem_meaning \<Rightarrow> bool" where
  "parse_laws L V M \<longleftrightarrow>
     (\<forall>w. V (x509_crt_init L w) = V w) \<and> (\<forall>w. V (pk_init L w) = V w) \<and>
     (\<forall>w. V (x509_crt_free L w) = (V w)\<lparr>crt_held := None\<rparr>) \<and>
     (\<forall>w. V (pk_free L w) = (V w)\<lparr>pk_held := None\<rparr>) \<and>
     (\<forall>text w rc w'. x509_crt_parse L text (length text) w = (rc, w') \<longrightarrow>
        (rc = 0 \<longleftrightarrow> cert_of M text \<noteq> None) \<and>
        (\<exists>c. V w' = (V w)\<lparr>crt_held := c\<rparr> \<and> (rc = 0 \<longrightarrow> c = cert_of M text))) \<and>
     (\<forall>text w rc w'. pk_parse_key L text (length text) w = (rc, w') \<longrightarrow>
        (rc = 0 \<longleftrightarrow> key_of M text \<noteq> None) \<and>
        (\<exists>k. V w' = (V w)\<lparr>pk_held := k\<rparr> \<and> (rc = 0 \<longrightarrow> k = key_of M text))) \<and>
     (\<forall>w rc w'. pk_check_pair L w = (rc, w') \<longrightarrow> V w' = V w \<and>
        (\<forall>c k. crt_held (V w) = Some c \<and> pk_held (V w) = Some k \<longrightarrow> (rc = 0 \<longleftrightarrow> same_pair M c k)))"

text \<open>A call that leaves the parsed certificate and the PSA key slots alone.\<close>

definition spares :: "('w \<Rightarrow> ('c, 'k) holding) \<Rightarrow> ('w \<Rightarrow> 'a \<times> 'w) \<Rightarrow> bool" where
  "spares V f \<longleftrightarrow> (\<forall>w. crt_held (V (snd (f w))) = crt_held (V w) \<and> slots (V (snd (f w))) = slots (V w))"

text \<open>
  A failed key generation leaves the null identifier; a successful one a fresh identifier, which is never
  null.  Everything else the identity uses spares the slots, and the two \<open>free\<close> calls empty their context.
\<close>

definition key_laws :: "'w pki_lib \<Rightarrow> ('w \<Rightarrow> ('c, 'k) holding) \<Rightarrow> bool" where
  "key_laws L V \<longleftrightarrow>
     (\<forall>w rc i w'. psa_generate_key L key_request w = ((rc, i), w') \<longrightarrow> crt_held (V w') = crt_held (V w) \<and>
        (if rc = PSA_SUCCESS then i \<noteq> 0 \<and> i \<notin> slots (V w) \<and> slots (V w') = insert i (slots (V w))
         else i = 0 \<and> slots (V w') = slots (V w))) \<and>
     (\<forall>i w. V (psa_destroy_key L i w) = (V w)\<lparr>slots := slots (V w) - {i}\<rparr>) \<and>
     (\<forall>w. V (write_crt_free L w) = (V w)\<lparr>write_held := False\<rparr>) \<and>
     (\<forall>w. V (pk_free L w) = (V w)\<lparr>pk_held := None\<rparr>)"

definition sparing_laws :: "'w pki_lib \<Rightarrow> ('w \<Rightarrow> ('c, 'k) holding) \<Rightarrow> bool" where
  "sparing_laws L V \<longleftrightarrow>
     spares V (psa_crypto_init L) \<and> spares V (\<lambda>w. ((), pk_init L w)) \<and> (\<forall>i. spares V (pk_copy_from_psa L i)) \<and>
     spares V (\<lambda>w. ((), write_crt_init L w)) \<and> (\<forall>n. spares V (set_subject_name L n)) \<and>
     (\<forall>n. spares V (set_issuer_name L n)) \<and> spares V (\<lambda>w. ((), set_issuer_key L (set_subject_key L w))) \<and>
     (\<forall>n. spares V (rng_read L n)) \<and> (\<forall>n. spares V (set_serial_raw L n)) \<and>
     (\<forall>a b. spares V (set_validity L a b)) \<and> spares V (\<lambda>w. ((), set_md_sha256 L w)) \<and>
     (\<forall>a b. spares V (set_basic_constraints L a b)) \<and> (\<forall>n. spares V (pk_write_key_pem L n)) \<and>
     (\<forall>n. spares V (write_crt_pem L n))"

section \<open>Certificate and key pairs\<close>

text \<open>The specification: a verdict on the two texts, whatever the state of the libraries.\<close>

definition pair_verdict :: "('c, 'k) pem_meaning \<Rightarrow> u8 list \<Rightarrow> u8 list \<Rightarrow> (unit, pair_error) res" where
  "pair_verdict M cert key =
     (if 0 \<in> set cert then Err InvalidCertificate
      else if 0 \<in> set key then Err InvalidPrivateKey
      else case cert_of M (cert @ [0]) of
        None \<Rightarrow> Err InvalidCertificate
      | Some c \<Rightarrow> (case key_of M (key @ [0]) of
          None \<Rightarrow> Err InvalidPrivateKey
        | Some k \<Rightarrow> if same_pair M c k then Ok () else Err Mismatch))"

lemma scoped_run: "m s = (r, s1) \<Longrightarrow> scoped dtor m s = (r, dtor s1)"
  by (simp add: scoped_def)

lemma call_run: "f w = (a, w') \<Longrightarrow> call f w = (Ok a, w')"
  by (simp add: call_def)

lemma pair_checked:
  fixes L :: "'w pki_lib" and V :: "'w \<Rightarrow> ('c, 'k) holding"
  assumes laws: "parse_laws L V M" and nul: "0 \<notin> set cert" "0 \<notin> set key"
  shows "\<exists>w1. validate_cert_key_pair L cert key w = (pair_verdict M cert key, pk_free L (x509_crt_free L w1)) \<and>
    write_held (V w1) = write_held (V w) \<and> slots (V w1) = slots (V w)"
proof -
  let ?w0 = "pk_init L (x509_crt_init L w)" and ?c = "cert @ [0 :: u8]" and ?k = "key @ [0 :: u8]"
  have V0: "V ?w0 = V w" using laws by (simp add: parse_laws_def)
  obtain rc w1 where p: "x509_crt_parse L ?c (length ?c) ?w0 = (rc, w1)" by (metis surj_pair)
  then obtain c where c: "rc = 0 \<longleftrightarrow> cert_of M ?c \<noteq> None" "V w1 = (V w)\<lparr>crt_held := c\<rparr>" "rc = 0 \<longrightarrow> c = cert_of M ?c"
    using laws V0 unfolding parse_laws_def by metis
  obtain rk w2 where q: "pk_parse_key L ?k (length ?k) w1 = (rk, w2)" by (metis surj_pair)
  then obtain k where k: "rk = 0 \<longleftrightarrow> key_of M ?k \<noteq> None" "V w2 = (V w1)\<lparr>pk_held := k\<rparr>" "rk = 0 \<longrightarrow> k = key_of M ?k"
    using laws unfolding parse_laws_def by metis
  obtain rm w3 where r: "pk_check_pair L w2 = (rm, w3)" by (metis surj_pair)
  then have m: "V w3 = V w2" "\<And>a b. crt_held (V w2) = Some a \<Longrightarrow> pk_held (V w2) = Some b \<Longrightarrow> (rm = 0 \<longleftrightarrow> same_pair M a b)"
    using laws unfolding parse_laws_def by metis+
  note unfolded = validate_cert_key_pair_def cstring_new_def scoped_def combinator_defs call_def
  note pq = p [simplified] q [simplified]
  consider "cert_of M ?c = None" | "cert_of M ?c \<noteq> None" "key_of M ?k = None"
    | a b where "cert_of M ?c = Some a" "key_of M ?k = Some b" by auto
  then show ?thesis
  proof cases
    case 1
    then have "validate_cert_key_pair L cert key w = (pair_verdict M cert key, pk_free L (x509_crt_free L w1))"
      using c(1) nul pq by (simp add: unfolded pair_verdict_def)
    with c(2) show ?thesis by auto
  next
    case 2
    then have "validate_cert_key_pair L cert key w = (pair_verdict M cert key, pk_free L (x509_crt_free L w2))"
      using c(1) k(1) nul pq by (auto simp: unfolded pair_verdict_def)
    with c(2) k(2) show ?thesis by auto
  next
    case 3
    then have "rm = 0 \<longleftrightarrow> same_pair M a b" using m(2) c k by simp
    with 3 have "validate_cert_key_pair L cert key w = (pair_verdict M cert key, pk_free L (x509_crt_free L w3))"
      using c(1) k(1) nul pq r by (auto simp: unfolded pair_verdict_def)
    with c(2) k(2) m(1) show ?thesis by auto
  qed
qed

text \<open>C33: the check of a certificate and a key decides exactly the specification: a verdict that depends on
  the two texts alone, with the error of the first step that fails, and success only for a pair that
  belongs together.  On every one of those paths both MbedTLS contexts are released again.\<close>

theorem pair_check_decides:
  assumes "parse_laws L V M" and "crt_held (V w) = None" and "pk_held (V w) = None"
  shows "fst (validate_cert_key_pair L cert key w) = pair_verdict M cert key \<and>
    V (snd (validate_cert_key_pair L cert key w)) = V w"
proof (cases "0 \<in> set cert \<or> 0 \<in> set key")
  case True
  then show ?thesis by (auto simp: validate_cert_key_pair_def cstring_new_def combinator_defs pair_verdict_def)
next
  case False
  with pair_checked [OF assms(1), of cert key w] obtain w1 where
    run: "validate_cert_key_pair L cert key w = (pair_verdict M cert key, pk_free L (x509_crt_free L w1))"
    and same: "write_held (V w1) = write_held (V w)" "slots (V w1) = slots (V w)" by blast
  have "V (pk_free L (x509_crt_free L w1)) = (V w1)\<lparr>crt_held := None, pk_held := None\<rparr>"
    using assms(1) by (simp add: parse_laws_def)
  with same assms(2,3) have "V (pk_free L (x509_crt_free L w1)) = V w" by simp
  with run show ?thesis by simp
qed

section \<open>A reference library\<close>

text \<open>
  Texts stand for their first byte; there is one PSA key slot, with identifier 1.
\<close>

type_synonym ref_world = "(u8, u8) holding"

definition ref_meaning :: "(u8, u8) pem_meaning" where
  "ref_meaning = \<lparr>cert_of = (\<lambda>text. if length text < 2 then None else Some (text ! 0)),
     key_of = (\<lambda>text. if length text < 2 then None else Some (text ! 0)), same_pair = (\<lambda>c k. c = k)\<rparr>"

definition ref_parse :: "(u8 option \<Rightarrow> ref_world \<Rightarrow> ref_world) \<Rightarrow> u8 list \<Rightarrow> nat \<Rightarrow> ref_world \<Rightarrow> i32 \<times> ref_world" where
  "ref_parse hold text n w = (if length text < 2 then (- 1, w) else (0, hold (Some (text ! 0)) w))"

definition pad_to :: "nat \<Rightarrow> u8 list \<Rightarrow> u8 list" where
  "pad_to n text = take n (text @ replicate n 0)"

definition ref_pki :: "ref_world pki_lib" where
  "ref_pki = \<lparr>
     x509_crt_init = id,
     x509_crt_parse = ref_parse (\<lambda>c w. w\<lparr>crt_held := c\<rparr>),
     x509_crt_free = (\<lambda>w. w\<lparr>crt_held := None\<rparr>),
     pk_init = id,
     pk_parse_key = ref_parse (\<lambda>k w. w\<lparr>pk_held := k\<rparr>),
     pk_check_pair = (\<lambda>w. (if crt_held w = pk_held w then 0 else - 1, w)),
     pk_copy_from_psa = (\<lambda>i w. (0, w\<lparr>pk_held := Some 7\<rparr>)),
     pk_write_key_pem = (\<lambda>n w. ((0, pad_to n (ascii ''KEY'')), w)),
     pk_free = (\<lambda>w. w\<lparr>pk_held := None\<rparr>),
     psa_crypto_init = (\<lambda>w. (0, w)),
     psa_generate_key = (\<lambda>_ w. if 1 \<in> slots w then ((- 141, 0), w) else ((0, 1), w\<lparr>slots := insert 1 (slots w)\<rparr>)),
     psa_destroy_key = (\<lambda>i w. w\<lparr>slots := slots w - {i}\<rparr>),
     write_crt_init = id,
     set_subject_name = (\<lambda>_ w. (0, w\<lparr>write_held := True\<rparr>)),
     set_issuer_name = (\<lambda>_ w. (0, w)),
     set_subject_key = id,
     set_issuer_key = id,
     set_serial_raw = (\<lambda>_ w. (0, w)),
     set_validity = (\<lambda>_ _ w. (0, w)),
     set_md_sha256 = id,
     set_basic_constraints = (\<lambda>_ _ w. (0, w)),
     write_crt_pem = (\<lambda>n w. ((0, pad_to n (ascii ''CERT'')), w)),
     write_crt_free = (\<lambda>w. w\<lparr>write_held := False\<rparr>),
     rng_read = (\<lambda>n w. (replicate n 0xAB, w))\<rparr>"

definition ref_idle :: ref_world where
  "ref_idle = \<lparr>crt_held = None, pk_held = None, write_held = False, slots = {}\<rparr>"

lemma ref_parse_laws: "parse_laws ref_pki (\<lambda>w. w) ref_meaning"
proof -
  have *: "w\<lparr>crt_held := crt_held w\<rparr> = w" "w\<lparr>pk_held := pk_held w\<rparr> = w" for w :: ref_world by simp_all
  have "\<exists>c. w = w\<lparr>crt_held := c\<rparr>" "\<exists>c. w = w\<lparr>pk_held := c\<rparr>" for w :: ref_world by (metis *)+
  then show ?thesis
    by (simp add: parse_laws_def ref_pki_def ref_parse_def ref_meaning_def)
qed

lemma ref_key_laws: "key_laws ref_pki (\<lambda>w. w)"
  by (simp add: key_laws_def ref_pki_def PSA_SUCCESS_def split: if_splits)

lemma ref_sparing_laws: "sparing_laws ref_pki (\<lambda>w. w)"
  by (simp add: sparing_laws_def spares_def ref_pki_def)

theorem pair_check_decides_witness:
  "fst (validate_cert_key_pair ref_pki [7, 1] [7, 2] ref_idle) = Ok () \<and>
   fst (validate_cert_key_pair ref_pki [7, 1] [8, 2] ref_idle) = Err Mismatch \<and>
   fst (validate_cert_key_pair ref_pki [7, 1] [] ref_idle) = Err InvalidPrivateKey \<and>
   snd (validate_cert_key_pair ref_pki [7, 1] [8, 2] ref_idle) = ref_idle"
proof -
  have idle: "crt_held ref_idle = None" "pk_held ref_idle = None" by (simp_all add: ref_idle_def)
  note spec = pair_check_decides [OF ref_parse_laws idle]
  have "pair_verdict ref_meaning [7, 1] [7, 2] = Ok ()" "pair_verdict ref_meaning [7, 1] [8, 2] = Err Mismatch"
    "pair_verdict ref_meaning [7, 1] [] = Err InvalidPrivateKey" by (simp_all add: pair_verdict_def ref_meaning_def)
  then show ?thesis using spec [of "[7, 1]" "[7, 2]"] spec [of "[7, 1]" "[8, 2]"] spec [of "[7, 1]" "[]"] by simp
qed

section \<open>Identities\<close>

lemma triple_lib:
  "(\<And>s a w. P s \<Longrightarrow> f (id_world s) = (a, w) \<Longrightarrow> Q a (s\<lparr>id_world := w\<rparr>)) \<Longrightarrow> triple P (lib f) Q E"
  by (simp add: triple_def lib_def split: prod.splits)

lemma triple_set_up:
  assumes "triple J (lib f) (\<lambda>_. J) (\<lambda>_. J)"
  shows "triple J (set_up f) (\<lambda>_. J) (\<lambda>_. J)"
  unfolding set_up_def by (rule triple_andthen [where R = "\<lambda>_. J", OF assms]) (auto intro: wp)

text \<open>
  What holds between two calls: the parsed certificate is untouched, and the key slots are the ones of the
  start and the key the destructor would destroy.
\<close>

definition key_scoped :: "('w \<Rightarrow> ('c, 'k) holding) \<Rightarrow> 'c option \<Rightarrow> u32 set \<Rightarrow> 'w ident \<Rightarrow> bool" where
  "key_scoped V c S s \<longleftrightarrow> crt_held (V (id_world s)) = c \<and>
     (if key_id s = 0 then slots (V (id_world s)) = S
      else key_id s \<notin> S \<and> slots (V (id_world s)) = insert (key_id s) S)"

lemma sparesD:
  "spares V f \<Longrightarrow> f w = (a, w') \<Longrightarrow> crt_held (V w') = crt_held (V w) \<and> slots (V w') = slots (V w)"
  unfolding spares_def by (metis snd_conv)

lemma key_scoped_move:
  "spares V f \<Longrightarrow> f (id_world s) = (a, w) \<Longrightarrow> key_scoped V c S s \<Longrightarrow> key_scoped V c S (s\<lparr>id_world := w\<rparr>)"
  by (drule (1) sparesD) (simp add: key_scoped_def split: if_splits)

lemma key_scoped_lib:
  "spares V f \<Longrightarrow> triple (key_scoped V c S) (lib f) (\<lambda>_. key_scoped V c S) (\<lambda>_. key_scoped V c S)"
  by (rule triple_lib) (erule (2) key_scoped_move)

lemma triple_pem_string: "triple J (pem_string buf) (\<lambda>_. J) (\<lambda>_. J)"
  by (auto simp: pem_string_def Let_def intro!: triple_if wp)

lemma key_scoped_step:
  assumes "spares V f" and "\<And>a. triple (key_scoped V c S) (k a) (\<lambda>_. key_scoped V c S) (\<lambda>_. key_scoped V c S)"
  shows "triple (key_scoped V c S) (andthen (lib f) k) (\<lambda>_. key_scoped V c S) (\<lambda>_. key_scoped V c S)"
  by (rule triple_andthen [where R = "\<lambda>_. key_scoped V c S", OF key_scoped_lib [OF assms(1)] assms(2)])

lemma key_scoped_reject:
  assumes "triple (key_scoped V c S) (k ()) (\<lambda>_. key_scoped V c S) (\<lambda>_. key_scoped V c S)"
  shows "triple (key_scoped V c S) (andthen (reject_if b e) k) (\<lambda>_. key_scoped V c S) (\<lambda>_. key_scoped V c S)"
  by (rule triple_andthen [where R = "\<lambda>_. key_scoped V c S"]) (auto intro: wp simp: assms)

lemma key_scoped_set_up:
  assumes "spares V f" and "\<And>a. triple (key_scoped V c S) (k a) (\<lambda>_. key_scoped V c S) (\<lambda>_. key_scoped V c S)"
  shows "triple (key_scoped V c S) (andthen (set_up f) k) (\<lambda>_. key_scoped V c S) (\<lambda>_. key_scoped V c S)"
  by (rule triple_andthen [where R = "\<lambda>_. key_scoped V c S", OF triple_set_up [OF key_scoped_lib [OF assms(1)]] assms(2)])

lemma key_scoped_pem:
  assumes "\<And>a. triple (key_scoped V c S) (k a) (\<lambda>_. key_scoped V c S) (\<lambda>_. key_scoped V c S)"
  shows "triple (key_scoped V c S) (andthen (pem_string buf) k) (\<lambda>_. key_scoped V c S) (\<lambda>_. key_scoped V c S)"
  by (rule triple_andthen [where R = "\<lambda>_. key_scoped V c S", OF triple_pem_string assms])

lemmas key_scoped_rules = key_scoped_step key_scoped_reject key_scoped_set_up key_scoped_pem

lemma triple_generate:
  assumes "key_laws L V"
    and "\<And>r. triple (key_scoped V c S) (k r) (\<lambda>_. key_scoped V c S) (\<lambda>_. key_scoped V c S)"
  shows "triple (\<lambda>s. key_scoped V c S s \<and> key_id s = 0)
    (andthen (lib (psa_generate_key L key_request)) (\<lambda>r. andthen (modify (\<lambda>s. s\<lparr>key_id := snd r\<rparr>)) (\<lambda>_. k r)))
    (\<lambda>_. key_scoped V c S) (\<lambda>_. key_scoped V c S)"
proof (rule triple_andthen [where R = "\<lambda>r s. key_scoped V c S (s\<lparr>key_id := snd r\<rparr>)"])
  show "triple (\<lambda>s. key_scoped V c S s \<and> key_id s = 0) (lib (psa_generate_key L key_request))
      (\<lambda>r s. key_scoped V c S (s\<lparr>key_id := snd r\<rparr>)) (\<lambda>_. key_scoped V c S)"
  proof (rule triple_lib)
    fix s :: "'a ident" and a w assume s: "key_scoped V c S s \<and> key_id s = 0" and "psa_generate_key L key_request (id_world s) = (a, w)"
    then obtain rc i where gen: "psa_generate_key L key_request (id_world s) = ((rc, i), w)" "a = (rc, i)" by (cases a) simp
    from assms(1) gen(1) have "crt_held (V w) = crt_held (V (id_world s)) \<and>
        (if rc = PSA_SUCCESS then i \<noteq> 0 \<and> i \<notin> slots (V (id_world s)) \<and> slots (V w) = insert i (slots (V (id_world s)))
         else i = 0 \<and> slots (V w) = slots (V (id_world s)))"
      unfolding key_laws_def by blast
    with s gen(2) show "key_scoped V c S (s\<lparr>id_world := w\<rparr>\<lparr>key_id := snd a\<rparr>)"
      by (simp add: key_scoped_def split: if_splits)
  qed
next
  fix r show "triple (\<lambda>s. key_scoped V c S (s\<lparr>key_id := snd r\<rparr>))
      (andthen (modify (\<lambda>s. s\<lparr>key_id := snd r\<rparr>)) (\<lambda>_. k r)) (\<lambda>_. key_scoped V c S) (\<lambda>_. key_scoped V c S)"
    by (intro triple_andthen [where R = "\<lambda>_. key_scoped V c S"] triple_modify assms(2))
qed

lemma build_identity_scoped:
  assumes laws: "key_laws L V" and spare: "sparing_laws L V"
  shows "triple (\<lambda>s. key_scoped V c S s \<and> key_id s = 0) (build_identity L subject) (\<lambda>_. key_scoped V c S) (\<lambda>_. key_scoped V c S)"
proof -
  note sp = spare [unfolded sparing_laws_def]
  have first: "triple (\<lambda>s. key_scoped V c S s \<and> key_id s = 0) (lib (psa_crypto_init L))
      (\<lambda>_ s. key_scoped V c S s \<and> key_id s = 0) (\<lambda>_. key_scoped V c S)"
    by (rule triple_lib) (use sp in \<open>auto intro: key_scoped_move\<close>)
  show ?thesis
    unfolding build_identity_def case_prod_beta
    apply (rule triple_andthen [OF first])
    apply (rule triple_andthen [where R = "\<lambda>_ s. key_scoped V c S s \<and> key_id s = 0"])
     apply (rule triple_reject_if; simp)
    apply (rule triple_generate [OF laws])
    apply (intro key_scoped_rules triple_return)
    using sp apply simp_all
    done
qed

text \<open>C29: generating an identity leaves nothing behind.  Whatever step fails, and when none does, the call
  returns without a panic, the volatile PSA key it generated is destroyed, no other key slot is touched and
  both MbedTLS contexts are released: afterwards the libraries hold exactly what they held before.\<close>

theorem identity_leaves_no_key:
  assumes "key_laws L V" and "sparing_laws L V" and "pk_held (V w) = None" and "\<not> write_held (V w)"
  shows "fst (generate_self_signed_identity L name w) \<noteq> Panic \<and> V (snd (generate_self_signed_identity L name w)) = V w"
proof (cases "cstring_new (ascii ''CN='' @ name)")
  case None
  then show ?thesis by (simp add: generate_self_signed_identity_def)
next
  case (Some subject)
  let ?s = "\<lparr>key_id = 0, id_world = w\<rparr>" and ?J = "key_scoped V (crt_held (V w)) (slots (V w))"
  obtain r s where run: "build_identity L subject ?s = (r, s)" by (metis surj_pair)
  have "?J ?s \<and> key_id ?s = 0" by (simp add: key_scoped_def)
  from tripleD [OF build_identity_scoped [OF assms(1,2)] this, of subject] have "r \<noteq> Panic \<and> ?J s"
    by (simp add: run split: res.splits)
  then have "r \<noteq> Panic" and s: "?J s" by blast+
  have "V (id_world (drop_contexts L s)) = V w"
    using s assms(1,3,4) unfolding drop_contexts_def key_laws_def key_scoped_def by (simp add: Let_def split: if_splits)
  with \<open>r \<noteq> Panic\<close> show ?thesis by (simp add: generate_self_signed_identity_def Some scoped_run [where m = "build_identity L subject", OF run])
qed

lemma ref_identity:
  "fst (generate_self_signed_identity ref_pki (ascii ''host'') ref_idle) = Ok \<lparr>cert_pem = ascii ''CERT'', key_pem = ascii ''KEY''\<rparr>"
  by (simp add: generate_self_signed_identity_def build_identity_def cstring_new_def ascii_def scoped_def drop_contexts_def
      combinator_defs lib_def set_up_def ref_pki_def ref_idle_def PSA_SUCCESS_def pem_string_def pad_to_def utf8_valid.simps)

theorem identity_leaves_no_key_witness:
  "fst (generate_self_signed_identity ref_pki (ascii ''host'') ref_idle) = Ok \<lparr>cert_pem = ascii ''CERT'', key_pem = ascii ''KEY''\<rparr> \<and>
   slots (snd (generate_self_signed_identity ref_pki (ascii ''host'') ref_idle)) = {}"
  using identity_leaves_no_key [OF ref_key_laws ref_sparing_laws, of ref_idle "ascii ''host''"] ref_identity
  by (simp add: ref_idle_def)

text \<open>What \<open>pem_string\<close> returns is a C string in valid UTF-8.\<close>

definition pem_text :: "nat \<Rightarrow> u8 list \<Rightarrow> bool" where
  "pem_text n text \<longleftrightarrow> 0 \<notin> set text \<and> utf8_valid text \<and> length text \<le> n"

lemma triple_pem_text: "triple (\<lambda>s. length buf = n) (pem_string buf) (\<lambda>text _. pem_text n text) (\<lambda>_ _. True)"
proof -
  have "0 \<notin> set (takeWhile (\<lambda>b. b \<noteq> 0) buf)" by (auto dest: set_takeWhileD)
  moreover have "length (takeWhile (\<lambda>b. b \<noteq> 0) buf) \<le> length buf" by (rule length_takeWhile_le)
  ultimately show ?thesis
    unfolding pem_string_def Let_def by (intro triple_if) (auto simp: pem_text_def intro!: wp)
qed

definition buffer_laws :: "'w pki_lib \<Rightarrow> bool" where
  "buffer_laws L \<longleftrightarrow>
     (\<forall>n w. length (snd (fst (pk_write_key_pem L n w))) = n) \<and> (\<forall>n w. length (snd (fst (write_crt_pem L n w))) = n) \<and>
     (\<forall>n w. length (fst (rng_read L n w)) = n)"

text \<open>A call whose value does not matter, one that produces a buffer, and a text taken out of one.\<close>

definition harmless :: "('w, 'a) identc \<Rightarrow> bool" where
  "harmless m \<longleftrightarrow> triple (\<lambda>_. True) m (\<lambda>_ _. True) (\<lambda>_ _. True)"

lemma harmless_lib: "harmless (lib f)"
  unfolding harmless_def by (rule triple_lib) simp

lemma harmless_calls: "harmless (set_up g)" "harmless (modify h)" "harmless (reject_if b e)"
  using triple_set_up [of "\<lambda>_. True" g] harmless_lib [of g] by (simp_all add: harmless_def wp)

lemma any_step:
  "harmless m \<Longrightarrow> (\<And>a. triple (\<lambda>_. True) (k a) Q (\<lambda>_ _. True)) \<Longrightarrow> triple (\<lambda>_. True) (andthen m k) Q (\<lambda>_ _. True)"
  unfolding harmless_def by (rule triple_andthen)

lemma buffer_step:
  assumes "\<And>w. length (snd (fst (f w))) = n" and "\<And>r. length (snd r) = n \<Longrightarrow> triple (\<lambda>_. True) (k r) Q (\<lambda>_ _. True)"
  shows "triple (\<lambda>_. True) (andthen (lib f) k) Q (\<lambda>_ _. True)"
proof (rule triple_andthen [where R = "\<lambda>r s. length (snd r) = n \<and> True"])
  show "triple (\<lambda>_. True) (lib f) (\<lambda>r s. length (snd r) = n \<and> True) (\<lambda>_ _. True)"
    by (rule triple_lib) (metis assms(1) fst_conv)
qed (rule triple_pure, rule assms(2))

lemma pem_step:
  assumes "length buf = n" and "\<And>text. pem_text n text \<Longrightarrow> triple (\<lambda>_. True) (k text) Q (\<lambda>_ _. True)"
  shows "triple (\<lambda>_. True) (andthen (pem_string buf) k) Q (\<lambda>_ _. True)"
proof (rule triple_andthen [where R = "\<lambda>text s. pem_text n text \<and> True"])
  show "triple (\<lambda>_. True) (pem_string buf) (\<lambda>text s. pem_text n text \<and> True) (\<lambda>_ _. True)"
    by (rule triple_pre [OF triple_conseq [OF triple_pem_text [of buf n]]]) (use assms(1) in simp_all)
qed (rule triple_pure, rule assms(2))

lemma build_identity_texts:
  assumes "buffer_laws L"
  shows "triple (\<lambda>_. True) (build_identity L subject) (\<lambda>i _. pem_text 2048 (cert_pem i) \<and> pem_text 1024 (key_pem i)) (\<lambda>_ _. True)"
proof -
  have key: "length (snd (fst (pk_write_key_pem L n w))) = n" and crt: "length (snd (fst (write_crt_pem L n w))) = n" for n w
    using assms by (simp_all add: buffer_laws_def)
  show ?thesis
    unfolding build_identity_def case_prod_beta
    by (rule buffer_step [OF key] buffer_step [OF crt] | rule pem_step, assumption | rule any_step [OF harmless_lib]
        any_step [OF harmless_calls(1)] any_step [OF harmless_calls(2)] any_step [OF harmless_calls(3)]
      | rule triple_return, simp)+
qed

text \<open>The serial number as the certificate encodes it, most significant byte first.\<close>

definition big_endian :: "u8 list \<Rightarrow> nat" where
  "big_endian bs = fold (\<lambda>b n. 256 * n + unat b) bs 0"

lemma fold_big_endian: "fold (\<lambda>b n. 256 * n + unat b) bs m = 256 ^ length bs * m + big_endian bs"
proof (induction bs arbitrary: m)
  case (Cons b bs)
  show ?case using Cons.IH [of "256 * m + unat b"] Cons.IH [of "unat b"] by (simp add: big_endian_def algebra_simps)
qed (simp add: big_endian_def)

lemma big_endian_bound: "big_endian bs < 256 ^ length bs"
proof (induction bs)
  case (Cons b bs)
  have "unat b < 2 ^ LENGTH(8)" by (rule unsigned_less)
  then have "unat b + 1 \<le> 256" by simp
  then have "256 ^ length bs * (unat b + 1) \<le> 256 ^ length bs * (256 :: nat)" by (rule mult_le_mono2)
  then have "256 ^ length bs * unat b + 256 ^ length bs \<le> 256 ^ length bs * (256 :: nat)"
    by (simp only: distrib_left mult_1_right)
  then have "256 ^ length bs * unat b + big_endian bs < 256 ^ length bs * 256" using Cons.IH by linarith
  then have "256 ^ length bs * unat b + big_endian bs < 256 ^ length (b # bs)" by (simp only: length_Cons power_Suc2)
  moreover have "big_endian (b # bs) = 256 ^ length bs * unat b + big_endian bs"
    using fold_big_endian [of bs "unat b"] by (simp add: big_endian_def)
  ultimately show ?case by simp
qed (simp add: big_endian_def)

lemma first_byte: "1 \<le> unat ((b AND 0x7F) OR 0x01 :: u8) \<and> unat ((b AND 0x7F) OR 0x01 :: u8) \<le> 127"
proof -
  define x :: u8 where "x = (b AND 0x7F) OR 0x01"
  have top: "\<not> bit x 7" and low: "bit x 0" by (simp_all add: x_def bit_simps)
  have "take_bit 7 x = x"
  proof (rule bit_word_eqI)
    fix n assume "n < LENGTH(8)"
    then have "n < 7 \<or> n = 7" by auto
    then show "bit (take_bit 7 x) n \<longleftrightarrow> bit x n" using top by (auto simp: bit_take_bit_iff)
  qed
  then have "unat x < 2 ^ 7" by (metis take_bit_nat_less_exp unsigned_take_bit_eq)
  moreover have "x \<noteq> 0" using low by auto
  then have "unat x \<noteq> 0" by (simp add: unat_eq_zero)
  ultimately show ?thesis by (simp add: x_def)
qed

lemma serial_positive:
  assumes "length serial = 16"
  shows "length (fix_serial serial) = 16 \<and> 2 ^ 120 \<le> big_endian (fix_serial serial) \<and> big_endian (fix_serial serial) < 2 ^ 127"
proof -
  obtain b bs where s: "serial = b # bs" "length bs = 15" using assms by (cases serial) auto
  let ?x = "(b AND 0x7F) OR 0x01 :: u8"
  have eq: "fix_serial serial = ?x # bs" by (simp add: fix_serial_def s)
  have val: "big_endian (?x # bs) = 256 ^ 15 * unat ?x + big_endian bs"
    using fold_big_endian [of bs "unat ?x"] s(2) by (simp add: big_endian_def)
  have "256 ^ 15 * 1 \<le> 256 ^ 15 * unat ?x" "256 ^ 15 * unat ?x \<le> 256 ^ 15 * 127" using first_byte [of b] by (intro mult_le_mono2; simp)+
  moreover have "big_endian bs < 256 ^ 15" using big_endian_bound [of bs] s(2) by simp
  ultimately show ?thesis using s(2) by (simp add: eq val)
qed

text \<open>
  A serial number fit for a certificate; and a library that does anything at all (\<open>g\<close>) when it is handed
  another one.
\<close>

definition fit_serial :: "u8 list \<Rightarrow> bool" where
  "fit_serial serial \<longleftrightarrow> length serial = 16 \<and> 2 ^ 120 \<le> big_endian serial \<and> big_endian serial < 2 ^ 127"

definition unless_fit :: "'w pki_lib \<Rightarrow> (u8 list \<Rightarrow> 'w \<Rightarrow> i32 \<times> 'w) \<Rightarrow> 'w pki_lib" where
  "unless_fit L g = L\<lparr>set_serial_raw := (\<lambda>serial w. if fit_serial serial then set_serial_raw L serial w else g serial w)\<rparr>"

lemma serial_requested_fit:
  fixes L :: "'w pki_lib"
  assumes "buffer_laws L"
  shows "build_identity (unless_fit L g) subject = build_identity L subject"
proof -
  have fit: "fit_serial (fix_serial serial)" if "rng_read L 16 w = (serial, w')" for serial w w'
    using assms that serial_positive [of serial] unfolding buffer_laws_def fit_serial_def by (metis fst_conv)
  have eq: "andthen (lib (rng_read L 16)) (\<lambda>serial. andthen (set_up (\<lambda>w. if fit_serial (fix_serial serial)
          then set_serial_raw L (fix_serial serial) w else g (fix_serial serial) w)) k) =
        andthen (lib (rng_read L 16)) (\<lambda>serial. andthen (set_up (set_serial_raw L (fix_serial serial))) k)" for k :: "unit \<Rightarrow> ('w, generated_identity) identc"
    by (rule ext) (simp add: andthen_def lib_def fit split: prod.split)
  show ?thesis by (simp add: build_identity_def unless_fit_def eq)
qed

lemma drop_contexts_unless_fit: "drop_contexts (unless_fit L g) = drop_contexts L"
  by (rule ext) (simp add: drop_contexts_def unless_fit_def Let_def)

text \<open>A refused serial number is the end: no identity comes out.\<close>

lemma serial_required:
  assumes "rc \<noteq> 0"
  shows "triple (\<lambda>_. True) (build_identity (L\<lparr>set_serial_raw := \<lambda>_ w. (rc, w)\<rparr>) subject) (\<lambda>_ _. False) (\<lambda>_ _. True)"
proof -
  have refused: "triple (\<lambda>_. True) (set_up (\<lambda>w. (rc, w))) (\<lambda>_ _. False) (\<lambda>_ _. True)"
    using assms by (simp add: triple_def set_up_def lib_def combinator_defs)
  have ends: "triple (\<lambda>_. True) (andthen (set_up (\<lambda>w. (rc, w))) k) (\<lambda>_ _. False) (\<lambda>_ _. True)" for k :: "unit \<Rightarrow> ('a, generated_identity) identc"
    by (rule triple_andthen [OF refused]) (simp add: triple_def)
  show ?thesis
    unfolding build_identity_def case_prod_beta
    by simp (rule ends | rule any_step [OF harmless_lib] any_step [OF harmless_calls(1)] any_step [OF harmless_calls(2)]
        any_step [OF harmless_calls(3)])+
qed

lemma generated:
  assumes "\<And>subject. triple (\<lambda>_. True) (build_identity L subject) (\<lambda>i _. Q i) (\<lambda>_ _. True)"
  shows "case generate_self_signed_identity L name w of (Ok i, w') \<Rightarrow> Q i | (Err e, w') \<Rightarrow> True | (Panic, w') \<Rightarrow> False"
proof (cases "cstring_new (ascii ''CN='' @ name)")
  case (Some subject)
  obtain r s where run: "build_identity L subject \<lparr>key_id = 0, id_world = w\<rparr> = (r, s)" by fastforce
  have "triple (\<lambda>_. True) (build_identity L subject) (\<lambda>i _. Q i) (\<lambda>_ _. True)" by (rule assms)
  from tripleD [OF this, of "\<lparr>key_id = 0, id_world = w\<rparr>"] show ?thesis
    by (simp add: generate_self_signed_identity_def scoped_def Some run split: res.splits)
qed (simp add: generate_self_signed_identity_def)

text \<open>C38: what a generated identity looks like.  Both texts are valid UTF-8 no longer than their buffers and C
  strings as they are, so the server configuration built from them and the check of the certificate as a CA fail,
  if at all, in the parsers: never because of the strings.  The only serial numbers that are ever requested
  are positive integers of exactly 16 octets with at least 120 significant bits: a library that does something
  else for any other number makes no difference, whatever the outcome; and no identity is returned whose
  serial number was refused.\<close>

theorem identity_texts:
  assumes "buffer_laws L"
  shows "(case generate_self_signed_identity L name w of
      (Ok i, w') \<Rightarrow> pem_text 2048 (cert_pem i) \<and> pem_text 1024 (key_pem i) \<and>
        cstring_new (cert_pem i) = Some (cert_pem i) \<and> cstring_new (key_pem i) = Some (key_pem i) \<and>
        server_config_from_pem P (cert_pem i) (key_pem i) = (case certificate_new P (cert_pem i) of
            None \<Rightarrow> Inl SC_InvalidCertificate
          | Some c \<Rightarrow> (case private_key_new P (key_pem i) of
              None \<Rightarrow> Inl SC_InvalidPrivateKey | Some k \<Rightarrow> Inr \<lparr>certificate = c, private_key = k\<rparr>)) \<and>
        validate_ca_pem P (cert_pem i) = (certificate_new P (cert_pem i) \<noteq> None)
    | (Err e, w') \<Rightarrow> True | (Panic, w') \<Rightarrow> False) \<and>
    generate_self_signed_identity (unless_fit L g) name w = generate_self_signed_identity L name w \<and>
    (rc \<noteq> 0 \<longrightarrow> (case generate_self_signed_identity (L\<lparr>set_serial_raw := \<lambda>_ w. (rc, w)\<rparr>) name w of
      (Ok i, w') \<Rightarrow> False | (Err e, w') \<Rightarrow> True | (Panic, w') \<Rightarrow> False))"
proof (intro conjI impI)
  show "case generate_self_signed_identity L name w of
      (Ok i, w') \<Rightarrow> pem_text 2048 (cert_pem i) \<and> pem_text 1024 (key_pem i) \<and>
        cstring_new (cert_pem i) = Some (cert_pem i) \<and> cstring_new (key_pem i) = Some (key_pem i) \<and>
        server_config_from_pem P (cert_pem i) (key_pem i) = (case certificate_new P (cert_pem i) of
            None \<Rightarrow> Inl SC_InvalidCertificate
          | Some c \<Rightarrow> (case private_key_new P (key_pem i) of
              None \<Rightarrow> Inl SC_InvalidPrivateKey | Some k \<Rightarrow> Inr \<lparr>certificate = c, private_key = k\<rparr>)) \<and>
        validate_ca_pem P (cert_pem i) = (certificate_new P (cert_pem i) \<noteq> None)
    | (Err e, w') \<Rightarrow> True | (Panic, w') \<Rightarrow> False"
  proof (rule generated, rule triple_conseq [OF build_identity_texts [OF assms]])
    fix i s
    assume "pem_text 2048 (cert_pem i) \<and> pem_text 1024 (key_pem i)"
    moreover from this have "cstring_new (cert_pem i) = Some (cert_pem i)" "cstring_new (key_pem i) = Some (key_pem i)"
      by (simp_all add: pem_text_def cstring_new_def)
    ultimately show "pem_text 2048 (cert_pem i) \<and> pem_text 1024 (key_pem i) \<and>
        cstring_new (cert_pem i) = Some (cert_pem i) \<and> cstring_new (key_pem i) = Some (key_pem i) \<and>
        server_config_from_pem P (cert_pem i) (key_pem i) = (case certificate_new P (cert_pem i) of
            None \<Rightarrow> Inl SC_InvalidCertificate
          | Some c \<Rightarrow> (case private_key_new P (key_pem i) of
              None \<Rightarrow> Inl SC_InvalidPrivateKey | Some k \<Rightarrow> Inr \<lparr>certificate = c, private_key = k\<rparr>)) \<and>
        validate_ca_pem P (cert_pem i) = (certificate_new P (cert_pem i) \<noteq> None)"
      by (simp add: server_config_from_pem_def validate_ca_pem_def)
  qed simp_all
  show "generate_self_signed_identity (unless_fit L g) name w = generate_self_signed_identity L name w"
    by (simp only: generate_self_signed_identity_def serial_requested_fit [OF assms] drop_contexts_unless_fit)
  assume "rc \<noteq> 0"
  show "case generate_self_signed_identity (L\<lparr>set_serial_raw := \<lambda>_ w. (rc, w)\<rparr>) name w of
      (Ok i, w') \<Rightarrow> False | (Err e, w') \<Rightarrow> True | (Panic, w') \<Rightarrow> False"
    by (rule generated [OF serial_required [OF \<open>rc \<noteq> 0\<close>]])
qed

lemma ref_buffer_laws: "buffer_laws ref_pki"
  by (auto simp: buffer_laws_def ref_pki_def pad_to_def ascii_def min_def)

theorem identity_texts_witness:
  "(\<exists>i. fst (generate_self_signed_identity ref_pki (ascii ''host'') ref_idle) = Ok i \<and>
     pem_text 2048 (cert_pem i) \<and> pem_text 1024 (key_pem i)) \<and>
   fst (generate_self_signed_identity (unless_fit ref_pki (\<lambda>_ w. (- 1, w))) (ascii ''host'') ref_idle) =
     fst (generate_self_signed_identity ref_pki (ascii ''host'') ref_idle) \<and>
   (\<exists>e. fst (generate_self_signed_identity (ref_pki\<lparr>set_serial_raw := \<lambda>_ w. (- 1, w)\<rparr>) (ascii ''host'') ref_idle) = Err e)"
proof -
  obtain i w where run: "generate_self_signed_identity ref_pki (ascii ''host'') ref_idle = (Ok i, w)"
    using ref_identity by (metis prod.collapse)
  note spec = identity_texts [where P = "undefined :: (unit, unit) pem_parsers" and g = "\<lambda>_ w. (- 1, w)" and rc = "- 1",
      OF ref_buffer_laws, of "ascii ''host''" ref_idle]
  have "pem_text 2048 (cert_pem i) \<and> pem_text 1024 (key_pem i)" using spec [THEN conjunct1] unfolding run by simp
  moreover note spec [THEN conjunct2, THEN conjunct1]
  moreover have "\<exists>e. fst (generate_self_signed_identity (ref_pki\<lparr>set_serial_raw := \<lambda>_ w. (- 1, w)\<rparr>) (ascii ''host'') ref_idle) = Err e"
    using spec [THEN conjunct2, THEN conjunct2] by (simp split: prod.splits res.splits)
  ultimately show ?thesis by (simp only: run fst_conv) blast
qed

section \<open>The one MbedTLS instance\<close>

text \<open>
  The library is initialized once.  The first \<open>init\<close> succeeds when \<open>Tls::new\<close> does, and from then on
  certificate dates are checked against the application's clock, failing closed while that clock is not set;
  every further \<open>init\<close> panics before it changes anything, so the clock can never be exchanged.
\<close>

lemma tls_init_once:
  assumes "T w = (True, w')"
  shows "\<exists>s. tls_init T now (cold_statics w) = (Ok (), s) \<and> timer_hooked s \<and>
     (\<forall>t. certificate_clock s t = (case now t of None \<Rightarrow> None | Some epoch \<Rightarrow> epoch_to_tm epoch)) \<and>
     (\<forall>later. tls_init T later s = (Panic, s))"
proof -
  let ?s = "\<lparr>cell_wall_clock = Some now, cell_rng = True, cell_tls = True, timer_hooked = True,
    wall_clock_hook = Some now, tls_library = w'\<rparr>"
  have "tls_init T now (cold_statics w) = (Ok (), ?s)"
    by (simp add: tls_init_def tls_new_def cold_statics_def combinator_defs assms)
  moreover have "tls_init T later ?s = (Panic, ?s)" for later by (simp add: tls_init_def combinator_defs)
  moreover have "certificate_clock ?s t = (case now t of None \<Rightarrow> None | Some epoch \<Rightarrow> epoch_to_tm epoch)" for t
    by (simp add: certificate_clock_def wall_clock_instant_def split: option.splits)
  ultimately show ?thesis by (intro exI [of _ ?s]) simp
qed

section \<open>Client connections\<close>

text \<open>
  What is observed of the network: the sockets that are open, the socket and the settings of a session, and
  whether its handshake was completed under them.
\<close>

record ('w, 'c, 'd, 'sock, 'sess) client_view =
  open_sockets :: "'w \<Rightarrow> 'sock set"
  socket_of :: "'sess \<Rightarrow> 'sock"
  settings_of :: "'sess \<Rightarrow> ('c, 'd) client_config"
  handshake_done :: "'sess \<Rightarrow> 'w \<Rightarrow> bool"

definition client_laws ::
  "('w, 'c, 'd, 'a, 'sock, 'sess, 't, 'x) client_lib \<Rightarrow> ('w, 'c, 'd, 'sock, 'sess) client_view \<Rightarrow> bool" where
  "client_laws L V \<longleftrightarrow>
     (\<forall>host w r w'. dns_query_a L host w = Some (r, w') \<longrightarrow> open_sockets V w' = open_sockets V w) \<and>
     (\<forall>w k w'. socket_new L w = (k, w') \<longrightarrow> k \<notin> open_sockets V w \<and> open_sockets V w' = insert k (open_sockets V w)) \<and>
     (\<forall>k to w r w'. socket_connect L k to w = Some (r, w') \<longrightarrow> open_sockets V w' = open_sockets V w) \<and>
     (\<forall>k w. open_sockets V (socket_drop L k w) = open_sockets V w - {k}) \<and>
     (\<forall>k config w e w'. session_new L k config w = (Inl e, w') \<longrightarrow> open_sockets V w' = open_sockets V w - {k}) \<and>
     (\<forall>k config w x w'. session_new L k config w = (Inr x, w') \<longrightarrow>
        open_sockets V w' = open_sockets V w \<and> socket_of V x = k \<and> settings_of V x = config) \<and>
     (\<forall>x w r w'. session_connect L x w = Some (r, w') \<longrightarrow> open_sockets V w' = open_sockets V w \<and>
        (\<forall>u. r = Inr u \<longrightarrow> handshake_done V x w')) \<and>
     (\<forall>x w. open_sockets V (session_drop L x w) = open_sockets V w - {socket_of V x})"

lemma triple_wait_for:
  assumes "\<And>w a w'. P w \<Longrightarrow> f w = Some (a, w') \<Longrightarrow> Q a w'" and "\<And>w. P w \<Longrightarrow> E Waits_Forever w"
  shows "triple P (wait_for f) Q E"
  using assms by (auto simp: triple_def wait_for_def split: option.splits prod.splits)

lemma triple_call: "(\<And>w a w'. P w \<Longrightarrow> f w = (a, w') \<Longrightarrow> Q a w') \<Longrightarrow> triple P (call f) Q E"
  by (auto simp: triple_def call_def split: prod.splits)

text \<open>The session's outcome, from a world in which the socket \<open>k\<close> was added to the open ones.\<close>

definition session_outcome ::
  "('w, 'c, 'd, 'sock, 'sess) client_view \<Rightarrow> 'sock set \<Rightarrow> ('c, 'd) client_config \<Rightarrow> 'sess \<Rightarrow> 'w \<Rightarrow> bool" where
  "session_outcome V S config x w \<longleftrightarrow> socket_of V x \<notin> S \<and> open_sockets V w = insert (socket_of V x) S \<and>
     settings_of V x = config \<and> handshake_done V x w"

definition failure_outcome ::
  "('w, 'c, 'd, 'sock, 'sess) client_view \<Rightarrow> 'sock set \<Rightarrow> ('t, 'x) client_error stop \<Rightarrow> 'w \<Rightarrow> bool" where
  "failure_outcome V S e w \<longleftrightarrow> e \<noteq> Waits_Forever \<longrightarrow> e \<noteq> Failed BadCa \<and> open_sockets V w = S"

lemma start_session_outcome:
  assumes laws: "client_laws L V" and k: "k \<notin> S"
  shows "triple (\<lambda>w. open_sockets V w = insert k S) (start_session L k config) (session_outcome V S config) (failure_outcome V S)"
  unfolding start_session_def
proof (rule triple_andthen [OF triple_call])
  fix w r w' assume w: "open_sockets V w = insert k S" and new: "session_new L k config w = (r, w')"
  show "case r of Inl _ \<Rightarrow> open_sockets V w' = S
      | Inr x \<Rightarrow> open_sockets V w' = insert k S \<and> socket_of V x = k \<and> settings_of V x = config"
    using w new laws k unfolding client_laws_def by (cases r) auto
next
  fix r
  show "triple (\<lambda>w. case r of Inl _ \<Rightarrow> open_sockets V w = S
      | Inr x \<Rightarrow> open_sockets V w = insert k S \<and> socket_of V x = k \<and> settings_of V x = config)
    (case r of Inl e \<Rightarrow> throw (Failed (Handshake e))
     | Inr session \<Rightarrow> andthen (wait_for (session_connect L session)) (\<lambda>shaken. case shaken of
         Inl e \<Rightarrow> andthen (modify (session_drop L session)) (\<lambda>_. throw (Failed (Handshake e)))
       | Inr _ \<Rightarrow> return session)) (session_outcome V S config) (failure_outcome V S)"
  proof (cases r)
    case (Inl e)
    then show ?thesis by (auto simp: failure_outcome_def intro: wp)
  next
    case (Inr x)
    let ?I = "\<lambda>w. open_sockets V w = insert k S \<and> socket_of V x = k \<and> settings_of V x = config"
    have "triple ?I (wait_for (session_connect L x)) (\<lambda>r w. ?I w \<and> (\<forall>u. r = Inr u \<longrightarrow> handshake_done V x w)) (failure_outcome V S)"
      using laws by (intro triple_wait_for) (auto simp: failure_outcome_def client_laws_def)
    moreover have "triple (\<lambda>w. ?I w \<and> (\<forall>u. r' = Inr u \<longrightarrow> handshake_done V x w)) (case r' of
         Inl e \<Rightarrow> andthen (modify (session_drop L x)) (\<lambda>_. throw (Failed (Handshake e))) | Inr _ \<Rightarrow> return x)
       (session_outcome V S config) (failure_outcome V S)" for r' :: "'h + unit"
      using laws k by (cases r') (auto simp: triple_def combinator_defs session_outcome_def failure_outcome_def client_laws_def)
    ultimately show ?thesis unfolding Inr sum.case by (rule triple_andthen)
  qed
qed

lemma connect_tail_outcome:
  assumes laws: "client_laws L V"
  shows "triple (\<lambda>w. open_sockets V w = S)
    (andthen (wait_for (dns_query_a L host)) (\<lambda>found.
     andthen (ok_or (Failed Dns) (first_address found)) (\<lambda>ip.
     andthen (call (socket_new L)) (\<lambda>sock.
     andthen (wait_for (socket_connect L sock (ip, port))) (\<lambda>opened.
     case opened of
       Inl e \<Rightarrow> andthen (modify (socket_drop L sock)) (\<lambda>_. throw (Failed (Tcp e)))
     | Inr _ \<Rightarrow> start_session L sock config)))))
    (session_outcome V S config) (failure_outcome V S)" (is "triple ?I _ ?Q ?E")
proof (rule triple_andthen [where R = "\<lambda>_. ?I"])
  show "triple ?I (wait_for (dns_query_a L host)) (\<lambda>_. ?I) ?E"
    using laws by (intro triple_wait_for) (auto simp: failure_outcome_def client_laws_def)
next
  fix found
  have new: "\<And>w k w'. socket_new L w = (k, w') \<Longrightarrow> k \<notin> open_sockets V w \<and> open_sockets V w' = insert k (open_sockets V w)"
    by (rule laws [unfolded client_laws_def, THEN conjunct2, THEN conjunct1, rule_format])
  have sock: "triple ?I (call (socket_new L)) (\<lambda>k w. k \<notin> S \<and> open_sockets V w = insert k S) ?E"
  proof (rule triple_call)
    fix w k w' assume "?I w" "socket_new L w = (k, w')"
    with new [OF this(2)] show "k \<notin> S \<and> open_sockets V w' = insert k S" by simp
  qed
  have tcp: "triple (\<lambda>w. k \<notin> S \<and> open_sockets V w = insert k S) (wait_for (socket_connect L k to))
      (\<lambda>_ w. k \<notin> S \<and> open_sockets V w = insert k S) ?E" for k to
    by (rule triple_wait_for)
      (use laws [unfolded client_laws_def, THEN conjunct2, THEN conjunct2, THEN conjunct1, rule_format]
        in \<open>simp_all add: failure_outcome_def\<close>)
  have refused: "triple (\<lambda>w. open_sockets V w = insert k S) (andthen (modify (socket_drop L k)) (\<lambda>_. throw (Failed (Tcp e)))) ?Q ?E"
    if "k \<notin> S" for k e
    using laws that by (auto simp: triple_def combinator_defs failure_outcome_def client_laws_def)
  show "triple ?I (andthen (ok_or (Failed Dns) (first_address found)) (\<lambda>ip. andthen (call (socket_new L)) (\<lambda>sock.
     andthen (wait_for (socket_connect L sock (ip, port))) (\<lambda>opened. case opened of
       Inl e \<Rightarrow> andthen (modify (socket_drop L sock)) (\<lambda>_. throw (Failed (Tcp e)))
     | Inr _ \<Rightarrow> start_session L sock config)))) ?Q ?E"
    by (rule triple_andthen [where R = "\<lambda>_. ?I"], (auto intro!: wp simp: failure_outcome_def)[1], rule triple_andthen [OF sock],
        rule triple_andthen [OF tcp], rule triple_pure, auto intro: refused start_session_outcome [OF laws] split: sum.split)
qed

text \<open>C28: a client connection verifies its server and leaks no socket.  On success the session's handshake was
  completed under settings that demand a chain to the given CA and a certificate for the given host, with
  every other setting the library's default, and it owns one new socket.  On failure every socket is
  closed again; the error is \<open>BadCa\<close> exactly when the CA text is unusable, and then, as for a host name that
  is not UTF-8, the network was not touched.  There is no panic.\<close>

theorem client_outcomes:
  fixes L :: "('w, 'c, 'd, 'a, 'sock, 'sess, 't, 'x) client_lib" and P :: "('c, 'k) pem_parsers"
  assumes laws: "client_laws L V" and run: "connect_client L P host port ca_pem w = (r, w')"
  shows "case r of
      Ok x \<Rightarrow> (\<exists>ca. certificate_new P ca_pem = Some ca \<and> handshake_done V x w' \<and>
         settings_of V x = \<lparr>ca_chain = Some ca, server_name = Some host, other_settings = other_settings (client_config_new L)\<rparr> \<and>
         socket_of V x \<notin> open_sockets V w \<and> open_sockets V w' = insert (socket_of V x) (open_sockets V w))
    | Err (Failed e) \<Rightarrow> open_sockets V w' = open_sockets V w \<and>
         (e = BadCa \<longleftrightarrow> 0 \<in> set ca_pem \<or> certificate_new P ca_pem = None) \<and> (e = BadCa \<or> \<not> utf8_valid host \<longrightarrow> w' = w)
    | Err Waits_Forever \<Rightarrow> utf8_valid host
    | Panic \<Rightarrow> False"
proof (cases "0 \<in> set ca_pem \<or> certificate_new P ca_pem = None")
  case True
  then have "connect_client L P host port ca_pem w = (Err (Failed BadCa), w)"
    by (auto simp: connect_client_def cstring_new_def combinator_defs)
  then have "r = Err (Failed BadCa)" "w' = w" using run by simp_all
  with True show ?thesis by simp
next
  case False
  then obtain ca where ca: "0 \<notin> set ca_pem" "certificate_new P ca_pem = Some ca" by blast
  let ?config = "client_config_for (client_config_new L) ca host"
  show ?thesis
  proof (cases "utf8_valid host")
    case host: False
    with ca have "connect_client L P host port ca_pem w = (Err (Failed Dns), w)"
      by (simp add: connect_client_def cstring_new_def combinator_defs)
    then have "r = Err (Failed Dns)" "w' = w" using run by simp_all
    with ca host show ?thesis by simp
  next
    case True
    with ca have "connect_client L P host port ca_pem = (andthen (wait_for (dns_query_a L host)) (\<lambda>found.
       andthen (ok_or (Failed Dns) (first_address found)) (\<lambda>ip. andthen (call (socket_new L)) (\<lambda>sock.
       andthen (wait_for (socket_connect L sock (ip, port))) (\<lambda>opened. case opened of
         Inl e \<Rightarrow> andthen (modify (socket_drop L sock)) (\<lambda>_. throw (Failed (Tcp e)))
       | Inr _ \<Rightarrow> start_session L sock ?config)))))"
      by (simp add: connect_client_def cstring_new_def ok_or_def reject_if_def monad)
    with connect_tail_outcome [OF laws, of "open_sockets V w" host port ?config]
    have "triple (\<lambda>u. open_sockets V u = open_sockets V w) (connect_client L P host port ca_pem)
        (session_outcome V (open_sockets V w) ?config) (failure_outcome V (open_sockets V w))" by simp
    from tripleD [OF this, of w] run ca True show ?thesis
      by (auto simp: session_outcome_def failure_outcome_def client_config_for_def split: res.splits stop.splits)
  qed
qed

text \<open>A network in which host "h" has one address, whose server accepts every connection but to port 0.\<close>

type_synonym ref_net = "nat list \<times> nat list"

definition ref_client :: "(ref_net, u8, unit, u8, nat, nat \<times> (u8, unit) client_config, unit, unit) client_lib" where
  "ref_client = \<lparr>
     dns_query_a = (\<lambda>host w. Some (if host = [104] then Some [1] else None, w)),
     socket_new = (\<lambda>w. (Suc (sum_list (fst w)), Suc (sum_list (fst w)) # fst w, snd w)),
     socket_connect = (\<lambda>k to w. Some (if snd to = 0 then Inl () else Inr (), w)),
     socket_drop = (\<lambda>k w. (removeAll k (fst w), snd w)),
     client_config_new = \<lparr>ca_chain = None, server_name = None, other_settings = ()\<rparr>,
     session_new = (\<lambda>k config w. if ca_chain config = None then (Inl (), removeAll k (fst w), snd w) else (Inr (k, config), w)),
     session_connect = (\<lambda>x w. Some (Inr (), fst w, fst x # snd w)),
     session_drop = (\<lambda>x w. (removeAll (fst x) (fst w), snd w))\<rparr>"

definition ref_view :: "(ref_net, u8, unit, nat, nat \<times> (u8, unit) client_config) client_view" where
  "ref_view = \<lparr>open_sockets = (\<lambda>w. set (fst w)), socket_of = fst, settings_of = snd,
     handshake_done = (\<lambda>x w. fst x \<in> set (snd w))\<rparr>"

lemma ref_client_laws: "client_laws ref_client ref_view"
proof -
  have "Suc (sum_list S) \<notin> set S" for S :: "nat list" using member_le_sum_list [of "Suc (sum_list S)" S] by auto
  then show ?thesis
    unfolding client_laws_def ref_client_def ref_view_def by (auto split: if_splits)
qed

definition ref_parsers :: "(u8, u8) pem_parsers" where
  "ref_parsers = \<lparr>certificate_new = (\<lambda>text. if text = [] then None else Some (hd text)),
     private_key_new = (\<lambda>text. if text = [] then None else Some (hd text))\<rparr>"

theorem client_outcomes_witness:
  "(\<exists>x w. connect_client ref_client ref_parsers [104] 443 [7] ([], []) = (Ok x, w) \<and> ca_chain (snd x) = Some 7 \<and>
     server_name (snd x) = Some [104] \<and> set (fst w) = {fst x}) \<and>
   (\<exists>w. connect_client ref_client ref_parsers [104] 0 [7] ([], []) = (Err (Failed (Tcp ())), w) \<and> fst w = [])"
proof -
  note unfolded = connect_client_def cstring_new_def first_address_def wait_for_def call_def start_session_def
    client_config_for_def combinator_defs ref_client_def ref_parsers_def utf8_valid.simps
  obtain x w where ok: "connect_client ref_client ref_parsers [104] 443 [7] ([], []) = (Ok x, w)" by (simp add: unfolded)
  obtain w2 where refused: "connect_client ref_client ref_parsers [104] 0 [7] ([], []) = (Err (Failed (Tcp ())), w2)"
    by (simp add: unfolded)
  show ?thesis
    using client_outcomes [OF ref_client_laws ok] client_outcomes [OF ref_client_laws refused] ok refused
    by (auto simp: ref_view_def ref_parsers_def)
qed

section \<open>The picoserve socket\<close>

text \<open>What \<open>write\<close> promises: it takes a prefix of the bytes and returns its length.\<close>

definition write_law :: "('s, 'x) session_lib \<Rightarrow> ('s \<Rightarrow> u8 list) \<Rightarrow> bool" where
  "write_law S sent \<longleftrightarrow> (\<forall>buf s n s'. session_write S buf s = Some (Inr n, s') \<longrightarrow>
     n \<le> length buf \<and> sent s' = sent s @ take n buf)"

text \<open>C8: \<open>write_with\<close> hands the bytes the closure produced to one \<open>write\<close> of the session.  When that accepts
  \<open>n\<close> of them, exactly the first \<open>n\<close> were sent, and the closure's result is returned whatever \<open>n\<close> is: the
  caller is told of success also when the rest was dropped, and everything was sent only if \<open>n\<close> was the
  whole length.  An error of the session, or a \<open>write\<close> that never completes, is passed on; it never panics.\<close>

theorem write_with_sends_prefix:
  assumes law: "write_law S sent" and f: "f WRITE_WITH_BUFFER = (filled, result)"
  shows "case half_write_with S f s of
      (Ok r, s') \<Rightarrow> r = result \<and> (\<exists>n. session_write S filled s = Some (Inr n, s') \<and> n \<le> length filled \<and>
         sent s' = sent s @ take n filled \<and> (sent s' = sent s @ filled \<longleftrightarrow> n = length filled))
    | (Err e, s') \<Rightarrow> (case e of
         Failed x \<Rightarrow> session_write S filled s = Some (Inl x, s')
       | Waits_Forever \<Rightarrow> session_write S filled s = None \<and> s' = s)
    | (Panic, s') \<Rightarrow> False"
proof (cases "session_write S filled s")
  case (Some o1)
  obtain q s' where o1: "o1 = (q, s')" by (metis surj_pair)
  show ?thesis
  proof (cases q)
    case (Inr n)
    have prefix: "n \<le> length filled" "sent s' = sent s @ take n filled"
      using law Some o1 Inr unfolding write_law_def by blast+
    have "sent s' = sent s @ filled \<longleftrightarrow> n = length filled"
      using prefix arg_cong [where f = length, of "take n filled" filled] by auto
    with prefix show ?thesis
      by (simp add: half_write_with_def half_write_def locked_def wait_for_def combinator_defs f Some o1 Inr)
  qed (simp add: half_write_with_def half_write_def locked_def wait_for_def combinator_defs f Some o1)
qed (simp add: half_write_with_def half_write_def locked_def wait_for_def combinator_defs f)

definition ref_session :: "(u8 list, unit) session_lib" where
  "ref_session = \<lparr>
     session_read = (\<lambda>len s. Some (Inr [], s)),
     session_write = (\<lambda>buf s. Some (Inr (min 2 (length buf)), s @ take 2 buf)),
     session_flush = (\<lambda>s. Some (Inr (), s)),
     session_close = (\<lambda>s. Some (Inr (), s)),
     stream_abort = id,
     stream_close = id\<rparr>"

theorem write_with_sends_prefix_witness:
  "half_write_with ref_session (\<lambda>_. ([1, 2, 3], True)) [] = (Ok True, [1, 2]) \<and>
   session_write ref_session [1, 2, 3] [] = Some (Inr 2, [1, 2])"
proof -
  have law: "write_law ref_session (\<lambda>s. s)" by (auto simp: write_law_def ref_session_def min_def)
  have run: "half_write_with ref_session (\<lambda>_. ([1, 2, 3], True)) [] = (Ok True, [1, 2])"
    by (simp add: half_write_with_def half_write_def locked_def wait_for_def combinator_defs ref_session_def)
  from write_with_sends_prefix [OF law, of "\<lambda>_. ([1, 2, 3], True)" "[1, 2, 3]" True "[]"]
  obtain n where n: "session_write ref_session [1, 2, 3] [] = Some (Inr n, [1, 2])" "[1, 2] = take n [1, 2, 3 :: u8]"
    by (auto simp: run)
  have "n = 2" using arg_cong [where f = length, OF n(2)] by simp
  then show ?thesis using run n(1) by simp
qed

section \<open>Random numbers\<close>

text \<open>The adapter hands on the chip's bytes in order: a \<open>u64\<close> is the little-endian value of the next eight.\<close>

lemma rng_words:
  assumes "chip_read R 8 g = (bytes, g')" and "length bytes = 8"
  shows "try_fill_bytes R 8 g = (to_le 8 (fst (try_next_u64 R g)), snd (try_next_u64 R g))"
proof -
  have "to_le 8 (from_le bytes :: u64) = bytes" by (rule to_le_from_le [OF assms(2)]) simp
  then show ?thesis using assms(1) by (simp add: try_fill_bytes_def try_next_u64_def)
qed

end
