(* ===== verification/Tls_Halves.thy ===== *)
theory Tls_Halves
  imports Tls_Session
begin

text \<open>
  The two halves of a \<open>TlsSocket\<close> as picoserve drives them: each half runs at most one operation, an
  \<open>async fn\<close> that first takes the mutex and then polls the session, and that its caller may drop before it
  completes.  The executor polls the two futures in any order, and the network acts between two polls
  (relation \<open>net\<close>).  The mutex (\<open>embassy_sync\<close>) and the session (\<open>mbedtls_rs\<close>) are parameters.
\<close>

section \<open>The socket, its halves and one poll of a half\<close>

record 'm mutex_lib =
  mutex_new :: 'm
  try_lock :: "'m \<Rightarrow> 'm option"
  unlock :: "'m \<Rightarrow> 'm"

text \<open>What the mutex promises: it is free when new, is taken only while it is free, and unlocking frees it.\<close>

definition mutex_laws :: "'m mutex_lib \<Rightarrow> ('m \<Rightarrow> bool) \<Rightarrow> bool" where
  "mutex_laws M held \<longleftrightarrow> \<not> held (mutex_new M) \<and>
     (\<forall>m. if held m then try_lock M m = None else \<exists>m'. try_lock M m = Some m' \<and> held m') \<and>
     (\<forall>m. \<not> held (unlock M m))"

text \<open>One poll of each operation of the session: its result when it completes, and the session after it.\<close>

record ('s, 'x) session_polls =
  poll_read :: "nat \<Rightarrow> 's \<Rightarrow> ('x + u8 list) option \<times> 's"
  poll_write :: "u8 list \<Rightarrow> 's \<Rightarrow> ('x + nat) option \<times> 's"
  poll_flush :: "'s \<Rightarrow> ('x + unit) option \<times> 's"

datatype half = Read_Half | Write_Half

definition other_half :: "half \<Rightarrow> half" where
  "other_half h = (case h of Read_Half \<Rightarrow> Write_Half | Write_Half \<Rightarrow> Read_Half)"

datatype half_call = Read_Into nat | Write_Bytes "u8 list" | Flush_All

datatype 'x reply = Read_Done "'x + u8 list" | Write_Done "'x + nat" | Flush_Done "'x + unit"

text \<open>The future of an operation: not there, waiting for the mutex, or past it with the guard in hand.\<close>

datatype task = Idle | Waiting half_call | Holding half_call

record ('m, 's) tls_socket =
  ts_mutex :: 'm
  ts_session :: 's
  ts_tasks :: "half \<Rightarrow> task"

text \<open>\<open>TlsSocket::new\<close> puts the session behind a new mutex; the two halves that \<open>split\<close> makes hold that mutex.\<close>

definition tls_socket_new :: "'m mutex_lib \<Rightarrow> 's \<Rightarrow> 'm \<times> 's" where
  "tls_socket_new M session = (mutex_new M, session)"

definition tls_socket_split :: "'m \<times> 's \<Rightarrow> ('m, 's) tls_socket" where
  "tls_socket_split sock = \<lparr>ts_mutex = fst sock, ts_session = snd sock, ts_tasks = (\<lambda>_. Idle)\<rparr>"

definition poll_call :: "('s, 'x) session_polls \<Rightarrow> half_call \<Rightarrow> 's \<Rightarrow> 'x reply option \<times> 's" where
  "poll_call P c s = (case c of
     Read_Into n \<Rightarrow> apfst (map_option Read_Done) (poll_read P n s)
   | Write_Bytes bytes \<Rightarrow> apfst (map_option Write_Done) (poll_write P bytes s)
   | Flush_All \<Rightarrow> apfst (map_option Flush_Done) (poll_flush P s))"

text \<open>
  \<open>read\<close>, \<open>write\<close> and \<open>flush\<close> of a half create the future of their call; \<open>write_with\<close> runs its closure first
  and then creates the future of the \<open>write\<close> of what the closure produced.
\<close>

definition half_begin :: "half \<Rightarrow> half_call \<Rightarrow> ('m, 's) tls_socket \<Rightarrow> ('m, 's) tls_socket" where
  "half_begin h c k = k\<lparr>ts_tasks := (ts_tasks k)(h := Waiting c)\<rparr>"

definition half_begin_with :: "half \<Rightarrow> (nat \<Rightarrow> u8 list \<times> 'r) \<Rightarrow> ('m, 's) tls_socket \<Rightarrow> 'r \<times> ('m, 's) tls_socket" where
  "half_begin_with h f k = (case f WRITE_WITH_BUFFER of (filled, result) \<Rightarrow> (result, half_begin h (Write_Bytes filled) k))"

text \<open>The session polled under the guard; the guard is dropped at the end of the statement.\<close>

definition poll_session :: "'m mutex_lib \<Rightarrow> ('s, 'x) session_polls \<Rightarrow> half \<Rightarrow> half_call \<Rightarrow> ('m, 's) tls_socket \<Rightarrow>
    'x reply option \<times> ('m, 's) tls_socket" where
  "poll_session M P h c k = (case poll_call P c (ts_session k) of
     (None, s) \<Rightarrow> (None, k\<lparr>ts_session := s, ts_tasks := (ts_tasks k)(h := Holding c)\<rparr>)
   | (Some r, s) \<Rightarrow> (Some r, k\<lparr>ts_mutex := unlock M (ts_mutex k), ts_session := s, ts_tasks := (ts_tasks k)(h := Idle)\<rparr>))"

definition half_poll :: "'m mutex_lib \<Rightarrow> ('s, 'x) session_polls \<Rightarrow> half \<Rightarrow> ('m, 's) tls_socket \<Rightarrow>
    'x reply option \<times> ('m, 's) tls_socket" where
  "half_poll M P h k = (case ts_tasks k h of
     Idle \<Rightarrow> (None, k)
   | Waiting c \<Rightarrow> (case try_lock M (ts_mutex k) of
       None \<Rightarrow> (None, k)
     | Some m \<Rightarrow> poll_session M P h c (k\<lparr>ts_mutex := m\<rparr>))
   | Holding c \<Rightarrow> poll_session M P h c k)"

text \<open>The caller drops the future: a guard it holds is dropped with it, wherever the session's operation stands.\<close>

definition half_drop :: "'m mutex_lib \<Rightarrow> half \<Rightarrow> ('m, 's) tls_socket \<Rightarrow> ('m, 's) tls_socket" where
  "half_drop M h k = (case ts_tasks k h of
     Holding c \<Rightarrow> k\<lparr>ts_mutex := unlock M (ts_mutex k), ts_tasks := (ts_tasks k)(h := Idle)\<rparr>
   | _ \<Rightarrow> k\<lparr>ts_tasks := (ts_tasks k)(h := Idle)\<rparr>)"

section \<open>Every interleaving\<close>

text \<open>
  The sockets that any sequence of events leads to, with the calls that ended on the way: the half, the
  call, and its reply, or no reply when the call was dropped while it held the session.
\<close>

type_synonym 'x served = "half \<times> half_call \<times> 'x reply option"

definition holds :: "('m, 's) tls_socket \<Rightarrow> half \<Rightarrow> half_call \<Rightarrow> bool" where
  "holds k h c \<longleftrightarrow> ts_tasks k h = Holding c"

definition called :: "('m, 's) tls_socket \<Rightarrow> half \<Rightarrow> half_call \<Rightarrow> bool" where
  "called k h c \<longleftrightarrow> ts_tasks k h = Waiting c \<or> holds k h c"

inductive halves_run :: "'m mutex_lib \<Rightarrow> ('s, 'x) session_polls \<Rightarrow> ('s \<Rightarrow> 's \<Rightarrow> bool) \<Rightarrow> 's \<Rightarrow>
    ('m, 's) tls_socket \<Rightarrow> 'x served list \<Rightarrow> bool"
  for M P net s0 where
  run_split: "halves_run M P net s0 (tls_socket_split (tls_socket_new M s0)) []"
| run_begin: "halves_run M P net s0 k L \<Longrightarrow> ts_tasks k h = Idle \<Longrightarrow> halves_run M P net s0 (half_begin h c k) L"
| run_pending: "halves_run M P net s0 k L \<Longrightarrow> half_poll M P h k = (None, k') \<Longrightarrow> halves_run M P net s0 k' L"
| run_ready: "halves_run M P net s0 k L \<Longrightarrow> called k h c \<Longrightarrow> half_poll M P h k = (Some r, k') \<Longrightarrow>
    halves_run M P net s0 k' (L @ [(h, c, Some r)])"
| run_drop_waiting: "halves_run M P net s0 k L \<Longrightarrow> ts_tasks k h = Waiting c \<Longrightarrow> halves_run M P net s0 (half_drop M h k) L"
| run_drop_holding: "halves_run M P net s0 k L \<Longrightarrow> holds k h c \<Longrightarrow>
    halves_run M P net s0 (half_drop M h k) (L @ [(h, c, None)])"
| run_net: "halves_run M P net s0 k L \<Longrightarrow> net (ts_session k) s \<Longrightarrow> halves_run M P net s0 (k\<lparr>ts_session := s\<rparr>) L"

section \<open>The serial specification\<close>

text \<open>A call that has the session to itself: begun, with the network acting between its polls, and then completed.\<close>

inductive begun :: "('s, 'x) session_polls \<Rightarrow> ('s \<Rightarrow> 's \<Rightarrow> bool) \<Rightarrow> half_call \<Rightarrow> 's \<Rightarrow> 's \<Rightarrow> bool"
  for P net c s0 where
  begun_start: "begun P net c s0 s0"
| begun_net: "begun P net c s0 s \<Longrightarrow> net s s' \<Longrightarrow> begun P net c s0 s'"
| begun_poll: "begun P net c s0 s \<Longrightarrow> poll_call P c s = (None, s') \<Longrightarrow> begun P net c s0 s'"

definition completes :: "('s, 'x) session_polls \<Rightarrow> ('s \<Rightarrow> 's \<Rightarrow> bool) \<Rightarrow> half_call \<Rightarrow> 's \<Rightarrow> 'x reply \<Rightarrow> 's \<Rightarrow> bool" where
  "completes P net c s r s' \<longleftrightarrow> (\<exists>s1. begun P net c s s1 \<and> poll_call P c s1 = (Some r, s'))"

text \<open>The calls one after the other, each completed or dropped before the next begins.\<close>

inductive serial :: "('s, 'x) session_polls \<Rightarrow> ('s \<Rightarrow> 's \<Rightarrow> bool) \<Rightarrow> 's \<Rightarrow> 'x served list \<Rightarrow> 's \<Rightarrow> bool"
  for P net s0 where
  serial_start: "serial P net s0 [] s0"
| serial_net: "serial P net s0 L s \<Longrightarrow> net s s' \<Longrightarrow> serial P net s0 L s'"
| serial_done: "serial P net s0 L s \<Longrightarrow> completes P net c s r s' \<Longrightarrow> serial P net s0 (L @ [(h, c, Some r)]) s'"
| serial_dropped: "serial P net s0 L s \<Longrightarrow> begun P net c s s' \<Longrightarrow> serial P net s0 (L @ [(h, c, None)]) s'"

section \<open>What every interleaving keeps\<close>

text \<open>Either the mutex is free and the session is between two calls, or exactly one half is partway through its call.\<close>

definition halves_ok :: "('m \<Rightarrow> bool) \<Rightarrow> ('s, 'x) session_polls \<Rightarrow> ('s \<Rightarrow> 's \<Rightarrow> bool) \<Rightarrow> 's \<Rightarrow>
    ('m, 's) tls_socket \<Rightarrow> 'x served list \<Rightarrow> bool" where
  "halves_ok held P net s0 k L \<longleftrightarrow>
     (if held (ts_mutex k)
      then \<exists>h c s. holds k h c \<and> (\<forall>h' c'. holds k h' c' \<longrightarrow> h' = h) \<and> serial P net s0 L s \<and> begun P net c s (ts_session k)
      else (\<forall>h c. \<not> holds k h c) \<and> serial P net s0 L (ts_session k))"

lemma halves_ok_cong:
  "holds k' = holds k \<Longrightarrow> ts_mutex k' = ts_mutex k \<Longrightarrow> ts_session k' = ts_session k \<Longrightarrow>
   halves_ok held P net s0 k' L = halves_ok held P net s0 k L"
  by (simp only: halves_ok_def)

text \<open>While a half holds the session, it is the only one, and the session is partway through its call.\<close>

lemma halves_ok_holder:
  assumes ok: "halves_ok held P net s0 k L" and h: "holds k h c"
  obtains s where "held (ts_mutex k)" and "\<forall>h' c'. holds k h' c' \<longrightarrow> h' = h"
    and "serial P net s0 L s" and "begun P net c s (ts_session k)"
proof -
  have held: "held (ts_mutex k)"
  proof (rule ccontr)
    assume "\<not> held (ts_mutex k)"
    then have "\<not> holds k h c" using ok by (simp add: halves_ok_def)
    with h show False by simp
  qed
  with ok obtain h0 c0 s where h0: "holds k h0 c0" and only: "\<forall>h' c'. holds k h' c' \<longrightarrow> h' = h0"
    and rest: "serial P net s0 L s" "begun P net c0 s (ts_session k)" by (simp add: halves_ok_def) blast
  have "h0 = h" using only h by blast
  moreover from this have "c0 = c" using h0 h by (simp add: holds_def)
  ultimately show thesis using that held only rest by blast
qed

lemma poll_session_ok:
  assumes laws: "mutex_laws M held" and held: "held (ts_mutex k)" and alone: "\<forall>h' c'. holds k h' c' \<longrightarrow> h' = h"
    and ser: "serial P net s0 L s" and beg: "begun P net c s (ts_session k)"
    and run: "poll_session M P h c k = (r, k')"
  shows "halves_ok held P net s0 k' (L @ (case r of None \<Rightarrow> [] | Some r \<Rightarrow> [(h, c, Some r)]))"
proof (cases "poll_call P c (ts_session k)")
  case (Pair reply s')
  show ?thesis
  proof (cases reply)
    case None
    with Pair run have k': "k' = k\<lparr>ts_session := s', ts_tasks := (ts_tasks k)(h := Holding c)\<rparr>" and r: "r = None"
      by (auto simp: poll_session_def)
    have "begun P net c s s'" using begun_poll [OF beg] Pair None by simp
    moreover have "holds k' h c" "\<forall>h' c'. holds k' h' c' \<longrightarrow> h' = h" using alone by (auto simp: k' holds_def)
    ultimately show ?thesis using held ser by (auto simp: halves_ok_def k' r)
  next
    case (Some a)
    with Pair run have k': "k' = k\<lparr>ts_mutex := unlock M (ts_mutex k), ts_session := s', ts_tasks := (ts_tasks k)(h := Idle)\<rparr>"
      and r: "r = Some a" by (auto simp: poll_session_def)
    have "completes P net c s a s'" using beg Pair Some by (auto simp: completes_def)
    with ser have "serial P net s0 (L @ [(h, c, Some a)]) s'" by (rule serial_done)
    moreover have "\<forall>h' c'. \<not> holds k' h' c'" using alone by (auto simp: k' holds_def)
    moreover have "\<not> held (ts_mutex k')" using laws by (simp add: k' mutex_laws_def)
    ultimately show ?thesis by (simp add: halves_ok_def r) (simp add: k')
  qed
qed

lemma try_lock_held:
  assumes "mutex_laws M held"
  shows "try_lock M m = None \<longleftrightarrow> held m" and "try_lock M m = Some m' \<Longrightarrow> \<not> held m \<and> held m'"
  using assms unfolding mutex_laws_def by (metis option.distinct(1) option.inject)+

lemma half_poll_ok:
  assumes laws: "mutex_laws M held" and ok: "halves_ok held P net s0 k L" and run: "half_poll M P h k = (r, k')"
  shows "(case r of None \<Rightarrow> halves_ok held P net s0 k' L
     | Some a \<Rightarrow> \<forall>c. called k h c \<longrightarrow> halves_ok held P net s0 k' (L @ [(h, c, Some a)]))"
proof (cases "ts_tasks k h")
  case Idle
  with run ok show ?thesis by (simp add: half_poll_def)
next
  case (Waiting c)
  show ?thesis
  proof (cases "try_lock M (ts_mutex k)")
    case None
    with run ok Waiting show ?thesis by (simp add: half_poll_def)
  next
    case (Some m)
    let ?k = "k\<lparr>ts_mutex := m\<rparr>"
    have free: "\<not> held (ts_mutex k)" and held: "held (ts_mutex ?k)" using try_lock_held(2) [OF laws Some] by simp_all
    with ok have none: "\<forall>h' c'. holds ?k h' c' \<longrightarrow> h' = h" and ser: "serial P net s0 L (ts_session k)"
      by (simp_all add: halves_ok_def holds_def)
    have "poll_session M P h c ?k = (r, k')" using run Waiting Some by (simp add: half_poll_def)
    from poll_session_ok [OF laws held none ser _ this]
    have "halves_ok held P net s0 k' (L @ (case r of None \<Rightarrow> [] | Some r \<Rightarrow> [(h, c, Some r)]))" by (simp add: begun_start)
    with Waiting show ?thesis by (auto simp: called_def holds_def split: option.splits)
  qed
next
  case (Holding c)
  then have "holds k h c" by (simp add: holds_def)
  then obtain s where held: "held (ts_mutex k)" and only: "\<forall>h' c'. holds k h' c' \<longrightarrow> h' = h"
    and ser: "serial P net s0 L s" and beg: "begun P net c s (ts_session k)" by (rule halves_ok_holder [OF ok])
  have "poll_session M P h c k = (r, k')" using run Holding by (simp add: half_poll_def)
  from poll_session_ok [OF laws held only ser beg this]
  have "halves_ok held P net s0 k' (L @ (case r of None \<Rightarrow> [] | Some r \<Rightarrow> [(h, c, Some r)]))" .
  with Holding show ?thesis by (auto simp: called_def holds_def split: option.splits)
qed

lemma half_begin_ok:
  assumes "halves_ok held P net s0 k L" and "ts_tasks k h = Idle"
  shows "halves_ok held P net s0 (half_begin h c k) L"
proof -
  have "holds (half_begin h c k) = holds k" using assms(2) by (auto simp: half_begin_def holds_def fun_eq_iff)
  moreover have "ts_mutex (half_begin h c k) = ts_mutex k" "ts_session (half_begin h c k) = ts_session k"
    by (simp_all add: half_begin_def)
  ultimately have "halves_ok held P net s0 (half_begin h c k) L = halves_ok held P net s0 k L" by (rule halves_ok_cong)
  with assms(1) show ?thesis by simp
qed

lemma half_drop_ok:
  assumes laws: "mutex_laws M held" and ok: "halves_ok held P net s0 k L"
  shows "ts_tasks k h = Waiting c \<Longrightarrow> halves_ok held P net s0 (half_drop M h k) L"
    and "holds k h c \<Longrightarrow> halves_ok held P net s0 (half_drop M h k) (L @ [(h, c, None)])"
proof -
  assume w: "ts_tasks k h = Waiting c"
  then have "holds (half_drop M h k) = holds k" by (auto simp: half_drop_def holds_def fun_eq_iff)
  moreover have "ts_mutex (half_drop M h k) = ts_mutex k" "ts_session (half_drop M h k) = ts_session k"
    using w by (simp_all add: half_drop_def)
  ultimately have "halves_ok held P net s0 (half_drop M h k) L = halves_ok held P net s0 k L" by (rule halves_ok_cong)
  with ok show "halves_ok held P net s0 (half_drop M h k) L" by simp
next
  assume h: "holds k h c"
  then have k': "half_drop M h k = k\<lparr>ts_mutex := unlock M (ts_mutex k), ts_tasks := (ts_tasks k)(h := Idle)\<rparr>"
    by (simp add: half_drop_def holds_def)
  from h obtain s where only: "\<forall>h' c'. holds k h' c' \<longrightarrow> h' = h"
    and ser: "serial P net s0 L s" and beg: "begun P net c s (ts_session k)" by (rule halves_ok_holder [OF ok])
  have "serial P net s0 (L @ [(h, c, None)]) (ts_session (half_drop M h k))"
    using serial_dropped [OF ser beg] by (simp add: k')
  moreover have "\<not> held (ts_mutex (half_drop M h k))" using laws by (simp add: k' mutex_laws_def)
  moreover have "\<forall>h' c'. \<not> holds (half_drop M h k) h' c'" using only by (auto simp: k' holds_def)
  ultimately show "halves_ok held P net s0 (half_drop M h k) (L @ [(h, c, None)])"
    by (simp add: halves_ok_def)
qed

lemma halves_net_ok:
  assumes ok: "halves_ok held P net s0 k L" and net: "net (ts_session k) s"
  shows "halves_ok held P net s0 (k\<lparr>ts_session := s\<rparr>) L"
proof -
  have h: "holds (k\<lparr>ts_session := s\<rparr>) = holds k" by (simp add: holds_def fun_eq_iff)
  show ?thesis
    using ok net by (auto simp: halves_ok_def h intro: serial_net begun_net split: if_splits)
qed

lemma halves_run_ok:
  assumes "mutex_laws M held" and "halves_run M P net s0 k L"
  shows "halves_ok held P net s0 k L"
  using assms(2)
proof induction
  case run_split
  show ?case using assms(1) by (simp add: halves_ok_def tls_socket_split_def tls_socket_new_def holds_def mutex_laws_def serial_start)
next
  case (run_pending k L h k')
  then show ?case using half_poll_ok [OF assms(1) run_pending.IH] by fastforce
next
  case (run_ready k L h c r k')
  then show ?case using half_poll_ok [OF assms(1) run_ready.IH] by fastforce
qed (blast intro: half_begin_ok half_drop_ok [OF assms(1)] halves_net_ok)+

text \<open>Taking the mutex: a waiting half runs its call on the session exactly when the mutex is free.\<close>

lemma half_poll_waiting:
  assumes laws: "mutex_laws M held" and w: "ts_tasks k h = Waiting c"
  shows "held (ts_mutex k) \<Longrightarrow> half_poll M P h k = (None, k)"
    and "\<not> held (ts_mutex k) \<Longrightarrow> fst (half_poll M P h k) = fst (poll_call P c (ts_session k)) \<and>
      ts_session (snd (half_poll M P h k)) = snd (poll_call P c (ts_session k))"
proof -
  show "half_poll M P h k = (None, k)" if "held (ts_mutex k)"
    using that w by (simp add: half_poll_def try_lock_held(1) [OF laws, THEN iffD2])
  assume "\<not> held (ts_mutex k)"
  then obtain m where "try_lock M (ts_mutex k) = Some m" using try_lock_held(1) [OF laws] by blast
  then show "fst (half_poll M P h k) = fst (poll_call P c (ts_session k)) \<and>
      ts_session (snd (half_poll M P h k)) = snd (poll_call P c (ts_session k))"
    using w by (simp add: half_poll_def poll_session_def split: prod.splits option.splits)
qed

section \<open>The two properties\<close>

text \<open>C30: the two halves of a TLS socket never mix their traffic.  However their operations are interleaved, polled,
  dropped halfway and overtaken by the network, the session sees the calls one after the other, each completed
  or dropped before the next begins, with exactly the replies the halves were given; and at any moment at most
  one half is inside its call.
\<close>

theorem halves_serialised:
  assumes "mutex_laws M held" and "halves_run M P net s0 k L"
  shows "\<exists>s. serial P net s0 L s \<and> ((\<forall>h c. \<not> holds k h c) \<longrightarrow> ts_session k = s) \<and>
    (\<forall>h c. holds k h c \<longrightarrow> begun P net c s (ts_session k) \<and> (\<forall>c'. \<not> holds k (other_half h) c'))"
proof (cases "\<exists>h c. holds k h c")
  case True
  then obtain h c where h: "holds k h c" by blast
  obtain s where only: "\<forall>h' c'. holds k h' c' \<longrightarrow> h' = h" and ser: "serial P net s0 L s"
    and beg: "begun P net c s (ts_session k)" by (rule halves_ok_holder [OF halves_run_ok [OF assms] h])
  have "c' = c" if "holds k h c'" for c' using that h by (simp add: holds_def)
  moreover have "other_half h \<noteq> h" by (simp add: other_half_def split: half.splits)
  ultimately show ?thesis using only ser beg h by blast
next
  case False
  then have "serial P net s0 L (ts_session k)" using halves_run_ok [OF assms] by (simp add: halves_ok_def split: if_splits)
  with False show ?thesis by blast
qed

text \<open>C32: a half never waits for nothing.  One that waits for the session finds it busy only while the other half is
  inside its call, and is then left as it is however often it is polled (a read for which no data arrives holds
  every write back); as soon as the other half's call has completed or was dropped, the next poll runs the
  waiting call on the session as it then is.
\<close>

theorem halves_hand_over:
  assumes laws: "mutex_laws M held" and run: "halves_run M P net s0 k L" and w: "ts_tasks k h = Waiting c"
  shows "if \<exists>c'. holds k (other_half h) c'
    then half_poll M P h k = (None, k) \<and>
      fst (half_poll M P h (half_drop M (other_half h) k)) = fst (poll_call P c (ts_session k)) \<and>
      (\<forall>r k'. half_poll M P (other_half h) k = (Some r, k') \<longrightarrow>
         fst (half_poll M P h k') = fst (poll_call P c (ts_session k')))
    else fst (half_poll M P h k) = fst (poll_call P c (ts_session k))"
proof -
  have other: "h' = h \<or> h' = other_half h" for h' by (cases h; cases h'; simp add: other_half_def)
  have ne: "other_half h \<noteq> h" by (simp add: other_half_def split: half.splits)
  have ok: "halves_ok held P net s0 k L" by (rule halves_run_ok [OF laws run])
  show ?thesis
  proof (cases "\<exists>c'. holds k (other_half h) c'")
    case True
    then obtain c' where o: "ts_tasks k (other_half h) = Holding c'" by (auto simp: holds_def)
    then have "holds k (other_half h) c'" by (simp add: holds_def)
    then have "held (ts_mutex k)" by (rule halves_ok_holder [OF ok])
    then have busy: "half_poll M P h k = (None, k)" by (rule half_poll_waiting(1) [OF laws w])
    have free: "\<not> held (unlock M m)" for m using laws by (simp add: mutex_laws_def)
    have dropped: "fst (half_poll M P h (half_drop M (other_half h) k)) = fst (poll_call P c (ts_session k))"
      using half_poll_waiting(2) [OF laws, of "half_drop M (other_half h) k" h c P] o w ne free
      by (simp add: half_drop_def)
    have "fst (half_poll M P h k') = fst (poll_call P c (ts_session k'))"
      if "half_poll M P (other_half h) k = (Some r, k')" for r k'
      using that half_poll_waiting(2) [OF laws, of k' h c P] o w ne free
      by (auto simp: half_poll_def poll_session_def split: prod.splits option.splits)
    with True busy dropped show ?thesis by simp
  next
    case False
    have "\<not> holds k h' c'" for h' c' using False other [of h'] w by (auto simp: holds_def)
    then have "\<not> held (ts_mutex k)" using ok by (auto simp: halves_ok_def split: if_splits)
    from half_poll_waiting(2) [OF laws w this, of P] False show ?thesis by simp
  qed
qed

section \<open>A half that runs alone\<close>

text \<open>
  A call polled until it completes, with no value when it never does: what the operations of Tls_Session take
  the session's functions to be.
\<close>

partial_function (option) alone :: "('s, 'x) session_polls \<Rightarrow> half_call \<Rightarrow> 's \<Rightarrow> ('x reply \<times> 's) option" where
  "alone pl c s = (case poll_call pl c s of (None, s') \<Rightarrow> alone pl c s' | (Some r, s') \<Rightarrow> Some (r, s'))"

definition session_of_polls :: "('s, 'x) session_polls \<Rightarrow> ('s, 'x) session_lib \<Rightarrow> bool" where
  "session_of_polls P S \<longleftrightarrow>
     (\<forall>n s. map_option (apfst Read_Done) (session_read S n s) = alone P (Read_Into n) s) \<and>
     (\<forall>bytes s. map_option (apfst Write_Done) (session_write S bytes s) = alone P (Write_Bytes bytes) s) \<and>
     (\<forall>s. map_option (apfst Flush_Done) (session_flush S s) = alone P Flush_All s)"

lemma alone_holding:
  fixes P :: "('s, 'x) session_polls"
  assumes run: "alone P c s = Some (r, s')" and k: "halves_run M P net s0 k L" "holds k h c" "ts_session k = s"
  shows "\<exists>k'. halves_run M P net s0 k' (L @ [(h, c, Some r)]) \<and> ts_session k' = s' \<and> ts_tasks k' = (ts_tasks k)(h := Idle)"
proof -
  let ?ends = "\<lambda>s r s'. \<forall>k. halves_run M P net s0 k L \<and> holds k h c \<and> ts_session k = s \<longrightarrow>
    (\<exists>k'. halves_run M P net s0 k' (L @ [(h, c, Some r)]) \<and> ts_session k' = s' \<and> ts_tasks k' = (ts_tasks k)(h := Idle))"
  have "(case (r, s') of (r, s') \<Rightarrow> P' = P \<longrightarrow> c' = c \<longrightarrow> ?ends s r s')" if "alone P' c' s = Some (r, s')" for P' c' s r s'
  proof (rule alone.raw_induct [where P = "\<lambda>P' c' s y. case y of (r, s') \<Rightarrow> P' = P \<longrightarrow> c' = c \<longrightarrow> ?ends s r s'", OF _ that])
    fix f :: "('s, 'x) session_polls \<Rightarrow> half_call \<Rightarrow> 's \<Rightarrow> ('x reply \<times> 's) option" and P' c' s y
    assume IH: "\<And>P' c' s y. f P' c' s = Some y \<Longrightarrow> case y of (r, s') \<Rightarrow> P' = P \<longrightarrow> c' = c \<longrightarrow> ?ends s r s'"
      and eq: "(case poll_call P' c' s of (None, s') \<Rightarrow> f P' c' s' | (Some r, s') \<Rightarrow> Some (r, s')) = Some y"
    obtain r s' where y: "y = (r, s')" by (cases y)
    have "?ends s r s'" if same: "P' = P" "c' = c"
    proof (intro allI impI)
      fix k assume k: "halves_run M P net s0 k L \<and> holds k h c \<and> ts_session k = s"
      then have poll: "half_poll M P h k = poll_session M P h c k" by (simp add: half_poll_def holds_def)
      show "\<exists>k'. halves_run M P net s0 k' (L @ [(h, c, Some r)]) \<and> ts_session k' = s' \<and> ts_tasks k' = (ts_tasks k)(h := Idle)"
      proof (cases "poll_call P c s")
        case (Pair reply t)
        show ?thesis
        proof (cases reply)
          case None
          let ?k = "k\<lparr>ts_session := t, ts_tasks := (ts_tasks k)(h := Holding c)\<rparr>"
          have "half_poll M P h k = (None, ?k)" using poll k Pair None by (simp add: poll_session_def)
          from run_pending [OF conjunct1 [OF k] this] have "halves_run M P net s0 ?k L" .
          moreover have "?ends t r s'" using IH [of P c t y] eq y same Pair None by simp
          ultimately obtain k' where "halves_run M P net s0 k' (L @ [(h, c, Some r)])" "ts_session k' = s'"
            "ts_tasks k' = (ts_tasks ?k)(h := Idle)" by (auto simp: holds_def)
          then show ?thesis by auto
        next
          case (Some a)
          let ?k = "k\<lparr>ts_mutex := unlock M (ts_mutex k), ts_session := t, ts_tasks := (ts_tasks k)(h := Idle)\<rparr>"
          have "half_poll M P h k = (Some a, ?k)" using poll k Pair Some by (simp add: poll_session_def)
          moreover have "called k h c" using k by (simp add: called_def)
          ultimately have "halves_run M P net s0 ?k (L @ [(h, c, Some a)])"
            using run_ready [OF conjunct1 [OF k]] by blast
          moreover have "a = r" "t = s'" using eq y same Pair Some by simp_all
          ultimately show ?thesis by (intro exI [of _ ?k]) simp
        qed
      qed
    qed
    with y show "case y of (r, s') \<Rightarrow> P' = P \<longrightarrow> c' = c \<longrightarrow> ?ends s r s'" by simp
  qed
  from this [OF run] k show ?thesis by simp
qed

lemma lone_half_run:
  assumes laws: "mutex_laws M held" and run: "halves_run M P net s0 k L" and idle: "\<And>h. ts_tasks k h = Idle"
    and alone: "alone P c (ts_session k) = Some (r, s')"
  shows "\<exists>k'. halves_run M P net s0 k' (L @ [(h, c, Some r)]) \<and> ts_session k' = s' \<and> (\<forall>h. ts_tasks k' h = Idle)"
proof -
  let ?b = "half_begin h c k"
  have b: "halves_run M P net s0 ?b L" by (rule run_begin [OF run idle])
  have sel: "ts_session ?b = ts_session k" "ts_tasks ?b = (ts_tasks k)(h := Waiting c)" by (simp_all add: half_begin_def)
  have "\<not> holds ?b h' c'" for h' c' using idle by (simp add: holds_def sel)
  then have "\<not> held (ts_mutex ?b)" using halves_run_ok [OF laws b] by (auto simp: halves_ok_def split: if_splits)
  then obtain m where "try_lock M (ts_mutex ?b) = Some m" using try_lock_held(1) [OF laws] by blast
  then have poll: "half_poll M P h ?b = poll_session M P h c (?b\<lparr>ts_mutex := m\<rparr>)" by (simp add: half_poll_def sel)
  obtain reply t where call: "poll_call P c (ts_session k) = (reply, t)" by (cases "poll_call P c (ts_session k)")
  show ?thesis
  proof (cases reply)
    case None
    let ?k = "?b\<lparr>ts_mutex := m, ts_session := t, ts_tasks := (ts_tasks k)(h := Holding c)\<rparr>"
    have "half_poll M P h ?b = (None, ?k)" using poll call None by (simp add: poll_session_def sel)
    from run_pending [OF b this] have "halves_run M P net s0 ?k L" .
    moreover have "alone P c t = Some (r, s')" using alone call None by (simp add: alone.simps [of P c "ts_session k"])
    moreover have "holds ?k h c" by (simp add: holds_def)
    ultimately obtain k' where k': "halves_run M P net s0 k' (L @ [(h, c, Some r)])" "ts_session k' = s'"
      "ts_tasks k' = (ts_tasks ?k)(h := Idle)" using alone_holding [of P c t r s' M net s0 ?k L h] by auto
    then have "\<forall>h. ts_tasks k' h = Idle" using idle by simp
    with k'(1,2) show ?thesis by blast
  next
    case (Some a)
    let ?k = "?b\<lparr>ts_mutex := unlock M m, ts_session := t, ts_tasks := (ts_tasks k)(h := Idle)\<rparr>"
    have "half_poll M P h ?b = (Some a, ?k)" using poll call Some by (simp add: poll_session_def sel)
    with run_ready [OF b, of h c] have "halves_run M P net s0 ?k (L @ [(h, c, Some a)])" by (simp add: called_def sel)
    moreover have "a = r" "t = s'" using alone call Some by (simp_all add: alone.simps [of P c "ts_session k"])
    ultimately show ?thesis using idle by (intro exI [of _ ?k]) simp
  qed
qed

text \<open>So the operations of Tls_Session are the runs of a half whose other half is idle.\<close>

lemma half_operations_alone:
  assumes "session_of_polls P S"
  shows "half_read S n s = (case alone P (Read_Into n) s of
      Some (Read_Done (Inr bytes), s') \<Rightarrow> (Ok bytes, s') | Some (Read_Done (Inl e), s') \<Rightarrow> (Err (Failed e), s')
    | _ \<Rightarrow> (Err Waits_Forever, s))"
    and "half_write S bytes s = (case alone P (Write_Bytes bytes) s of
      Some (Write_Done (Inr m), s') \<Rightarrow> (Ok m, s') | Some (Write_Done (Inl e), s') \<Rightarrow> (Err (Failed e), s')
    | _ \<Rightarrow> (Err Waits_Forever, s))"
    and "half_flush S s = (case alone P Flush_All s of
      Some (Flush_Done (Inr _), s') \<Rightarrow> (Ok (), s') | Some (Flush_Done (Inl e), s') \<Rightarrow> (Err (Failed e), s')
    | _ \<Rightarrow> (Err Waits_Forever, s))"
proof -
  note defs = half_read_def half_write_def half_flush_def locked_def wait_for_def andthen_def throw_def return_def
  have eqs: "alone P (Read_Into n) s = map_option (apfst Read_Done) (session_read S n s)"
    "alone P (Write_Bytes bytes) s = map_option (apfst Write_Done) (session_write S bytes s)"
    "alone P Flush_All s = map_option (apfst Flush_Done) (session_flush S s)"
    using assms by (simp_all add: session_of_polls_def)
  show "half_read S n s = (case alone P (Read_Into n) s of
      Some (Read_Done (Inr bytes), s') \<Rightarrow> (Ok bytes, s') | Some (Read_Done (Inl e), s') \<Rightarrow> (Err (Failed e), s')
    | _ \<Rightarrow> (Err Waits_Forever, s))"
    unfolding eqs(1) by (simp add: defs split: option.splits prod.splits sum.splits)
  show "half_write S bytes s = (case alone P (Write_Bytes bytes) s of
      Some (Write_Done (Inr m), s') \<Rightarrow> (Ok m, s') | Some (Write_Done (Inl e), s') \<Rightarrow> (Err (Failed e), s')
    | _ \<Rightarrow> (Err Waits_Forever, s))"
    unfolding eqs(2) by (simp add: defs split: option.splits prod.splits sum.splits)
  show "half_flush S s = (case alone P Flush_All s of
      Some (Flush_Done (Inr _), s') \<Rightarrow> (Ok (), s') | Some (Flush_Done (Inl e), s') \<Rightarrow> (Err (Failed e), s')
    | _ \<Rightarrow> (Err Waits_Forever, s))"
    unfolding eqs(3) by (simp add: defs split: option.splits prod.splits sum.splits)
qed

section \<open>A session to evaluate\<close>

text \<open>
  A mutex that is a flag, and a session that is the number of bytes that have arrived: a read of an empty
  session is pending, a write is taken whole, and the network brings one byte at a time.
\<close>

definition flag_mutex :: "bool mutex_lib" where
  "flag_mutex = \<lparr>mutex_new = False, try_lock = (\<lambda>m. if m then None else Some True), unlock = (\<lambda>_. False)\<rparr>"

definition counting_session :: "(nat, unit) session_polls" where
  "counting_session = \<lparr>
     poll_read = (\<lambda>n s. if s = 0 then (None, s) else (Some (Inr (replicate (min n s) 7)), s - min n s)),
     poll_write = (\<lambda>bytes s. (Some (Inr (length bytes)), s)),
     poll_flush = (\<lambda>s. (Some (Inr ()), s))\<rparr>"

definition byte_arrives :: "nat \<Rightarrow> nat \<Rightarrow> bool" where
  "byte_arrives s s' \<longleftrightarrow> s' = Suc s"

lemma flag_mutex_laws: "mutex_laws flag_mutex (\<lambda>m. m)"
  by (auto simp: mutex_laws_def flag_mutex_def)

text \<open>The read half waits for data inside its call while the write half waits for the session.\<close>

definition both_called :: "(bool, nat) tls_socket" where
  "both_called = half_begin Write_Half (Write_Bytes [1, 2])
     (snd (half_poll flag_mutex counting_session Read_Half
       (half_begin Read_Half (Read_Into 4) (tls_socket_split (tls_socket_new flag_mutex 0)))))"

lemmas halves_eval = both_called_def half_begin_def half_poll_def poll_session_def poll_call_def half_drop_def
  tls_socket_split_def tls_socket_new_def flag_mutex_def counting_session_def other_half_def holds_def called_def

lemma both_called_run: "halves_run flag_mutex counting_session byte_arrives 0 both_called []"
proof -
  let ?k = "half_begin Read_Half (Read_Into 4) (tls_socket_split (tls_socket_new flag_mutex 0))"
  let ?k' = "snd (half_poll flag_mutex counting_session Read_Half ?k)"
  have "halves_run flag_mutex counting_session byte_arrives 0 ?k []"
    by (rule run_begin [OF run_split]) (simp add: tls_socket_split_def)
  then have "halves_run flag_mutex counting_session byte_arrives 0 ?k' []"
    by (rule run_pending [of _ _ _ _ _ _ Read_Half]) (simp add: halves_eval)
  then show ?thesis unfolding both_called_def by (rule run_begin) (simp add: halves_eval)
qed

text \<open>A byte arrives and the read completes with it.\<close>

definition read_served :: "(bool, nat) tls_socket" where
  "read_served = snd (half_poll flag_mutex counting_session Read_Half (both_called\<lparr>ts_session := 1\<rparr>))"

lemma read_served_run:
  "halves_run flag_mutex counting_session byte_arrives 0 read_served
     [(Read_Half, Read_Into 4, Some (Read_Done (Inr [7])))]"
proof -
  have "halves_run flag_mutex counting_session byte_arrives 0 (both_called\<lparr>ts_session := 1\<rparr>) []"
    by (rule run_net [OF both_called_run]) (simp add: halves_eval byte_arrives_def)
  then have "halves_run flag_mutex counting_session byte_arrives 0 read_served
      ([] @ [(Read_Half, Read_Into 4, Some (Read_Done (Inr [7])))])"
    by (rule run_ready) (simp_all add: read_served_def halves_eval)
  then show ?thesis by simp
qed

theorem halves_serialised_witness:
  "serial counting_session byte_arrives 0 [(Read_Half, Read_Into 4, Some (Read_Done (Inr [7])))] 0 \<and>
   ts_tasks read_served Write_Half = Waiting (Write_Bytes [1, 2])"
proof
  have "\<forall>h c. \<not> holds read_served h c" "ts_session read_served = 0"
    by (auto simp: read_served_def halves_eval)
  with halves_serialised [OF flag_mutex_laws read_served_run]
  show "serial counting_session byte_arrives 0 [(Read_Half, Read_Into 4, Some (Read_Done (Inr [7])))] 0" by auto
  show "ts_tasks read_served Write_Half = Waiting (Write_Bytes [1, 2])" by (simp add: read_served_def halves_eval)
qed

theorem halves_hand_over_witness:
  "half_poll flag_mutex counting_session Write_Half both_called = (None, both_called) \<and>
   fst (half_poll flag_mutex counting_session Write_Half (half_drop flag_mutex Read_Half both_called)) =
     Some (Write_Done (Inr 2))"
proof -
  have w: "ts_tasks both_called Write_Half = Waiting (Write_Bytes [1, 2])" by (simp add: halves_eval)
  have "\<exists>c'. holds both_called (other_half Write_Half) c'" by (simp add: halves_eval)
  moreover have "fst (poll_call counting_session (Write_Bytes [1, 2]) s) = Some (Write_Done (Inr 2))" for s
    by (simp add: halves_eval)
  ultimately show ?thesis
    using halves_hand_over [OF flag_mutex_laws both_called_run w] by (simp add: other_half_def)
qed

end
