(* ===== verification/Wifi.thy ===== *)
theory Wifi
  imports Prelude
begin

text \<open>
  \<open>services/wifi/src/lib.rs\<close>: the station manager.  The radio driver, the network stack and the executor
  are the parameter \<open>radio_lib\<close>, acting on the outside world \<open>'w\<close>; names and passwords are bytes.  Every
  \<open>await\<close>, on the driver or on the stack, may never complete: that is the outcome \<open>Waits_Forever\<close> of the computation,
  which the Rust function never returns.  Log output is not modelled.
\<close>

section \<open>The radio and the network stack\<close>

type_synonym i8 = "8 word"

datatype auth_method = Auth_None | Auth_Other

record access_point =
  ap_ssid :: "u8 list"
  ap_bssid :: "u8 list"
  ap_strength :: i8
  ap_auth :: "auth_method option"

record station_config =
  sc_ssid :: "u8 list"
  sc_password :: "u8 list"
  sc_bssid :: "u8 list option"

definition default_station :: station_config where
  "default_station = \<lparr>sc_ssid = [], sc_password = [], sc_bssid = None\<rparr>"

record ('w, 'c, 's) radio_lib =
  wifi_new :: "'w \<Rightarrow> 'c option \<times> 'w"
  drop_controller :: "'c \<Rightarrow> 'w \<Rightarrow> 'w"
  set_config :: "'c \<Rightarrow> station_config \<Rightarrow> 'w \<Rightarrow> bool \<times> 'w"
  net_new :: "'w \<Rightarrow> 's \<times> 'w"
  spawn_net_task :: "'s \<Rightarrow> 'w \<Rightarrow> bool \<times> 'w"
  scan_async :: "'c \<Rightarrow> nat \<Rightarrow> 'w \<Rightarrow> (access_point list option \<times> 'w) option"
  is_connected :: "'c \<Rightarrow> 'w \<Rightarrow> bool"
  disconnect_async :: "'c \<Rightarrow> 'w \<Rightarrow> (bool \<times> 'w) option"
  connect_async :: "'c \<Rightarrow> 'w \<Rightarrow> (bool \<times> 'w) option"
  config_v4 :: "'s \<Rightarrow> 'w \<Rightarrow> u32 option"
  is_config_up :: "'s \<Rightarrow> 'w \<Rightarrow> bool"
  wait_config_down :: "'s \<Rightarrow> 'w \<Rightarrow> (unit \<times> 'w) option"
  wait_config_up :: "'s \<Rightarrow> 'w \<Rightarrow> (unit \<times> 'w) option"

datatype waiting = Waits_Forever

section \<open>The manager\<close>

record network =
  nw_ssid :: "u8 list"
  signal_strength :: i8
  secured :: bool

text \<open>\<open>Option\<close> fields that are only ever taken are the flags \<open>peripheral\<close> and \<open>resources\<close>.\<close>

record ('w, 'c, 's) wifi_manager =
  peripheral :: bool
  resources :: bool
  radio :: "('c \<times> 's) option"
  strongest_bssid :: "(u8 list \<times> u8 list) list"
  outside :: 'w

type_synonym ('w, 'c, 's, 'a) wifi = "(('w, 'c, 's) wifi_manager, 'a, waiting) comp"

definition wifi_manager_new :: "'w \<Rightarrow> ('w, 'c, 's) wifi_manager" where
  "wifi_manager_new w = \<lparr>peripheral = True, resources = True, radio = None, strongest_bssid = [], outside = w\<rparr>"

definition ip :: "('w, 'c, 's) radio_lib \<Rightarrow> ('w, 'c, 's) wifi_manager \<Rightarrow> u32 option" where
  "ip L m = Option.bind (radio m) (\<lambda>(c, st). config_v4 L st (outside m))"

definition ip_stack :: "('w, 'c, 's) radio_lib \<Rightarrow> ('w, 'c, 's) wifi_manager \<Rightarrow> 's option" where
  "ip_stack L m = Option.bind (radio m) (\<lambda>(c, st). Option.bind (config_v4 L st (outside m)) (\<lambda>_. Some st))"

definition is_online :: "('w, 'c, 's) radio_lib \<Rightarrow> ('w, 'c, 's) wifi_manager \<Rightarrow> bool" where
  "is_online L m \<longleftrightarrow> ip_stack L m \<noteq> None"

text \<open>A call of the driver: its result is returned, its effect on the world kept.\<close>

definition drive :: "('w \<Rightarrow> 'a \<times> 'w) \<Rightarrow> ('w, 'c, 's, 'a) wifi" where
  "drive f m = (case f (outside m) of (a, w) \<Rightarrow> (Ok a, m\<lparr>outside := w\<rparr>))"

text \<open>An \<open>await\<close>: the world and the answer when it completes; one that never completes keeps the world it waits in.\<close>

definition await :: "('w \<Rightarrow> ('a \<times> 'w) option) \<Rightarrow> ('w, 'c, 's, 'a) wifi" where
  "await f m = (case f (outside m) of Some (a, w) \<Rightarrow> (Ok a, m\<lparr>outside := w\<rparr>) | None \<Rightarrow> (Err Waits_Forever, m))"

text \<open>\<open>radio\<close>: the controller of a failed initialization is dropped, its peripheral is gone.\<close>

definition start_radio :: "('w, 'c, 's) radio_lib \<Rightarrow> ('w, 'c, 's, ('c \<times> 's) option) wifi" where
  "start_radio L =
     andthen (gets peripheral) (\<lambda>available.
     if \<not> available then return None
     else
       andthen (modify (\<lambda>m. m\<lparr>peripheral := False\<rparr>)) (\<lambda>_.
       andthen (drive (wifi_new L)) (\<lambda>started.
       case started of
         None \<Rightarrow> return None
       | Some controller \<Rightarrow>
           andthen (drive (set_config L controller default_station)) (\<lambda>ok.
           if \<not> ok then andthen (drive (\<lambda>w. ((), drop_controller L controller w))) (\<lambda>_. return None)
           else
             andthen (gets resources) (\<lambda>have_resources.
             if \<not> have_resources then andthen (drive (\<lambda>w. ((), drop_controller L controller w))) (\<lambda>_. return None)
             else
               andthen (modify (\<lambda>m. m\<lparr>resources := False\<rparr>)) (\<lambda>_.
               andthen (drive (net_new L)) (\<lambda>stack.
               andthen (drive (spawn_net_task L stack)) (\<lambda>spawned.
               andthen (panic_if (\<not> spawned)) (\<lambda>_.
               andthen (modify (\<lambda>m. m\<lparr>radio := Some (controller, stack)\<rparr>)) (\<lambda>_.
               return (Some (controller, stack))))))))))))"

definition get_radio :: "('w, 'c, 's) radio_lib \<Rightarrow> ('w, 'c, 's, ('c \<times> 's) option) wifi" where
  "get_radio L = andthen (gets radio) (\<lambda>r. case r of Some cs \<Rightarrow> return (Some cs) | None \<Rightarrow> start_radio L)"

section \<open>Scanning\<close>

type_synonym seen = "u8 list \<times> u8 list \<times> i8 \<times> bool"

definition is_secured :: "auth_method option \<Rightarrow> bool" where
  "is_secured a = (\<not> (case a of None \<Rightarrow> True | Some Auth_None \<Rightarrow> True | Some Auth_Other \<Rightarrow> False))"

definition seen_of :: "access_point \<Rightarrow> seen" where
  "seen_of ap = (ap_ssid ap, ap_bssid ap, ap_strength ap, is_secured (ap_auth ap))"

text \<open>The search for the entry of the name and its update in place, or the push of a new one.\<close>

fun keep_stronger :: "seen list \<Rightarrow> seen \<Rightarrow> seen list" where
  "keep_stronger [] new = [new]"
| "keep_stronger ((known, bssid, strength, sec) # rest) (ssid, b, st, s) =
     (if known = ssid then
        (if sint st \<le> sint strength then (known, bssid, strength, sec) else (ssid, b, st, s)) # rest
      else (known, bssid, strength, sec) # keep_stronger rest (ssid, b, st, s))"

fun strongest_of :: "access_point list \<Rightarrow> seen list \<Rightarrow> seen list" where
  "strongest_of [] strongest = strongest"
| "strongest_of (ap # aps) strongest =
     strongest_of aps (if ap_ssid ap = [] then strongest else keep_stronger strongest (seen_of ap))"

definition scan :: "('w, 'c, 's) radio_lib \<Rightarrow> ('w, 'c, 's, network list) wifi" where
  "scan L =
     andthen (get_radio L) (\<lambda>r.
     case r of
       None \<Rightarrow> return []
     | Some (controller, stack) \<Rightarrow>
         andthen (await (scan_async L controller 20)) (\<lambda>found.
         case found of
           None \<Rightarrow> return []
         | Some access_points \<Rightarrow>
             let strongest = strongest_of access_points [] in
             andthen (modify (\<lambda>m. m\<lparr>strongest_bssid := map (\<lambda>(ssid, bssid, _). (ssid, bssid)) strongest\<rparr>)) (\<lambda>_.
             return (map (\<lambda>(ssid, _, st, s). \<lparr>nw_ssid = ssid, signal_strength = st, secured = s\<rparr>) strongest))))"

section \<open>Connecting\<close>

definition connect :: "('w, 'c, 's) radio_lib \<Rightarrow> u8 list \<Rightarrow> u8 list \<Rightarrow> ('w, 'c, 's, bool) wifi" where
  "connect L ssid password =
     andthen (gets (\<lambda>m. map_of (strongest_bssid m) ssid)) (\<lambda>bssid.
     andthen (get_radio L) (\<lambda>r.
     case r of
       None \<Rightarrow> return False
     | Some (controller, stack) \<Rightarrow>
         andthen (gets (\<lambda>m. is_connected L controller (outside m))) (\<lambda>associated.
         andthen (if associated then await (disconnect_async L controller) else return True) (\<lambda>released.
         if \<not> released then return False
         else
           andthen (gets (\<lambda>m. is_config_up L stack (outside m))) (\<lambda>up.
           andthen (if up then await (wait_config_down L stack) else return ()) (\<lambda>_.
           andthen (drive (set_config L controller \<lparr>sc_ssid = ssid, sc_password = password, sc_bssid = bssid\<rparr>)) (\<lambda>configured.
           andthen (if configured then await (connect_async L controller) else return False) (\<lambda>connected.
           if \<not> connected then return False
           else andthen (await (wait_config_up L stack)) (\<lambda>_. return True)))))))))"

end
