(* ===== verification/Wifi_Theorems.thy ===== *)
theory Wifi_Theorems
  imports Wifi
begin

text \<open>
  What the station manager guarantees: a scan reports each name once, with its strongest access point; the
  radio is brought up at most once; a connection that is reported went through the whole protocol and is
  online, with the access point of the last scan.
\<close>

section \<open>The strongest access point of each name\<close>

lemma names_keep_stronger:
  "map fst (keep_stronger S x) = (if fst x \<in> set (map fst S) then map fst S else map fst S @ [fst x])"
  by (induction S x rule: keep_stronger.induct) auto

lemma map_of_keep_stronger:
  "map_of (keep_stronger S (k, b, st, sec)) n =
     (if n = k then (case map_of S k of
          Some (b0, st0, sec0) \<Rightarrow> Some (if sint st \<le> sint st0 then (b0, st0, sec0) else (b, st, sec))
        | None \<Rightarrow> Some (b, st, sec))
      else map_of S n)"
  by (induction S "(k, b, st, sec)" arbitrary: k b st sec rule: keep_stronger.induct) auto

lemma strongest_of_snoc:
  "strongest_of (aps @ [ap]) S =
     (if ap_ssid ap = [] then strongest_of aps S else keep_stronger (strongest_of aps S) (seen_of ap))"
  by (induction aps arbitrary: S) simp_all

text \<open>Of the access points of a name, the first among the strongest.\<close>

definition strongest_at :: "access_point list \<Rightarrow> u8 list \<Rightarrow> access_point \<Rightarrow> bool" where
  "strongest_at aps name ap \<longleftrightarrow> (\<exists>before after. aps = before @ ap # after \<and> ap_ssid ap = name \<and>
     (\<forall>x \<in> set before. ap_ssid x = name \<longrightarrow> sint (ap_strength x) < sint (ap_strength ap)) \<and>
     (\<forall>x \<in> set after. ap_ssid x = name \<longrightarrow> sint (ap_strength x) \<le> sint (ap_strength ap)))"

lemma strongest_at_snoc:
  assumes "strongest_at aps name ap" and "ap_ssid new = name \<longrightarrow> sint (ap_strength new) \<le> sint (ap_strength ap)"
  shows "strongest_at (aps @ [new]) name ap"
proof -
  from assms(1) obtain before after where "aps = before @ ap # after" "ap_ssid ap = name"
    "\<forall>x \<in> set before. ap_ssid x = name \<longrightarrow> sint (ap_strength x) < sint (ap_strength ap)"
    "\<forall>x \<in> set after. ap_ssid x = name \<longrightarrow> sint (ap_strength x) \<le> sint (ap_strength ap)"
    unfolding strongest_at_def by blast
  then show ?thesis
    unfolding strongest_at_def using assms(2) by (intro exI [of _ before] exI [of _ "after @ [new]"]) auto
qed

lemma strongest_at_new:
  assumes "\<And>x. x \<in> set aps \<Longrightarrow> ap_ssid x = ap_ssid new \<Longrightarrow> sint (ap_strength x) < sint (ap_strength new)"
  shows "strongest_at (aps @ [new]) (ap_ssid new) new"
  unfolding strongest_at_def using assms by (intro exI [of _ aps] exI [of _ "[]"]) auto

lemma strongest_at_max:
  "strongest_at aps name ap \<Longrightarrow> x \<in> set aps \<Longrightarrow> ap_ssid x = name \<Longrightarrow> sint (ap_strength x) \<le> sint (ap_strength ap)"
  unfolding strongest_at_def by force

lemma strongest_of_spec:
  "distinct (map fst (strongest_of aps [])) \<and> set (map fst (strongest_of aps [])) = ap_ssid ` set aps - {[]} \<and>
   (\<forall>name v. map_of (strongest_of aps []) name = Some v \<longrightarrow> (\<exists>ap. strongest_at aps name ap \<and> (name, v) = seen_of ap))"
proof (induction aps rule: rev_induct)
  case (snoc new aps)
  let ?S = "strongest_of aps []"
  show ?case
  proof (cases "ap_ssid new = []")
    case True
    have same: "strongest_of (aps @ [new]) [] = ?S" using True by (simp add: strongest_of_snoc)
    have kept: "strongest_at (aps @ [new]) name ap" if "strongest_at aps name ap" "name \<noteq> []" for name ap
      by (rule strongest_at_snoc [OF that(1)]) (use that(2) True in simp)
    have named: "name \<noteq> []" if "map_of ?S name = Some v" for name v
    proof -
      have "name \<in> set (map fst ?S)" using map_of_SomeD [OF that] by force
      moreover have "set (map fst ?S) = ap_ssid ` set aps - {[]}" using snoc.IH by blast
      ultimately show ?thesis by simp
    qed
    have "ap_ssid ` set (aps @ [new]) - {[]} = ap_ssid ` set aps - {[]}" using True by auto
    then show ?thesis unfolding same using snoc.IH kept named by metis
  next
    case False
    have names: "map fst (strongest_of (aps @ [new]) []) =
        (if ap_ssid new \<in> set (map fst ?S) then map fst ?S else map fst ?S @ [ap_ssid new])"
      using False by (simp only: strongest_of_snoc if_False names_keep_stronger) (simp add: seen_of_def)
    have upd: "map_of (strongest_of (aps @ [new]) []) name =
        (if name = ap_ssid new then (case map_of ?S (ap_ssid new) of
            Some (b0, st0, sec0) \<Rightarrow> Some (if sint (ap_strength new) \<le> sint st0 then (b0, st0, sec0)
              else (ap_bssid new, ap_strength new, is_secured (ap_auth new)))
          | None \<Rightarrow> Some (ap_bssid new, ap_strength new, is_secured (ap_auth new)))
         else map_of ?S name)" for name
      using False by (simp add: strongest_of_snoc seen_of_def map_of_keep_stronger)
    have "\<exists>ap. strongest_at (aps @ [new]) name ap \<and> (name, v) = seen_of ap"
      if v: "map_of (strongest_of (aps @ [new]) []) name = Some v" for name v
    proof (cases "name = ap_ssid new")
      case other: False
      have "map_of ?S name = Some v" using v unfolding upd [of name] if_not_P [OF other] .
      with snoc.IH obtain ap where ap: "strongest_at aps name ap" "(name, v) = seen_of ap" by blast
      have "strongest_at (aps @ [new]) name ap" by (rule strongest_at_snoc [OF ap(1)]) (use other in simp)
      with ap(2) show ?thesis by (intro exI conjI)
    next
      case same: True
      show ?thesis
      proof (cases "map_of ?S (ap_ssid new)")
        case None
        then have "ap_ssid new \<notin> ap_ssid ` set aps" using snoc.IH False by (auto simp: map_of_eq_None_iff)
        then have "strongest_at (aps @ [new]) (ap_ssid new) new" by (intro strongest_at_new) (metis image_eqI)
        moreover have "(name, v) = seen_of new"
          using v unfolding upd [of name] if_P [OF same] None by (simp add: seen_of_def same)
        ultimately show ?thesis unfolding same by (intro exI conjI)
      next
        case (Some v0)
        with snoc.IH obtain ap where ap: "strongest_at aps (ap_ssid new) ap" "(ap_ssid new, v0) = seen_of ap" by blast
        show ?thesis
        proof (cases "sint (ap_strength new) \<le> sint (ap_strength ap)")
          case True
          then have "v = v0" using v ap(2) unfolding upd [of name] if_P [OF same] Some by (auto simp: seen_of_def)
          moreover have "strongest_at (aps @ [new]) name ap" unfolding same by (rule strongest_at_snoc [OF ap(1)]) (simp add: True)
          ultimately show ?thesis using ap(2) same by (intro exI [of _ ap]) simp
        next
          case weaker: False
          then have "strongest_at (aps @ [new]) (ap_ssid new) new"
            using strongest_at_max [OF ap(1)] by (intro strongest_at_new) force
          moreover have "(name, v) = seen_of new"
            using v ap(2) weaker unfolding upd [of name] if_P [OF same] Some by (auto simp: seen_of_def same)
          ultimately show ?thesis unfolding same by (intro exI conjI)
        qed
      qed
    qed
    moreover have "distinct (map fst (strongest_of (aps @ [new]) []))" using names snoc.IH by auto
    moreover have "set (map fst (strongest_of (aps @ [new]) [])) = ap_ssid ` set (aps @ [new]) - {[]}"
      using names snoc.IH False by auto
    ultimately show ?thesis by blast
  qed
qed (simp add: strongest_at_def)

section \<open>Bringing the radio up\<close>

text \<open>Only the first call with the peripheral present starts the radio; \<open>radio\<close> is set only by its success.\<close>

definition manager_ok :: "('w, 'c, 's) wifi_manager \<Rightarrow> bool" where
  "manager_ok m \<longleftrightarrow> (radio m \<noteq> None \<longleftrightarrow> \<not> resources m) \<and> (\<not> resources m \<longrightarrow> \<not> peripheral m)"

text \<open>
  Starting the radio panics exactly when \<open>net_task\<close> hands out no task, because the one task of its pool is
  already running: \<open>w\<close> is the world the start begins in.
\<close>

definition net_task_refused :: "('w, 'c, 's) radio_lib \<Rightarrow> 'w \<Rightarrow> bool" where
  "net_task_refused L w \<longleftrightarrow> (\<exists>c w1 w2 st w3. wifi_new L w = (Some c, w1) \<and> set_config L c default_station w1 = (True, w2) \<and>
     net_new L w2 = (st, w3) \<and> \<not> fst (spawn_net_task L st w3))"

lemma drive_run: "drive f m = (Ok (fst (f (outside m))), m\<lparr>outside := snd (f (outside m))\<rparr>)"
  by (simp add: drive_def split: prod.splits)

lemma get_radio_run:
  assumes "manager_ok m"
  shows "case get_radio L m of
      (Ok r, m') \<Rightarrow> manager_ok m' \<and> radio m' = r \<and> strongest_bssid m' = strongest_bssid m \<and>
        \<not> (peripheral m' \<and> r = None) \<and> (radio m \<noteq> None \<or> \<not> peripheral m \<longrightarrow> m' = m)
    | (Err e, m') \<Rightarrow> False
    | (Panic, m') \<Rightarrow> radio m = None \<and> peripheral m \<and> net_task_refused L (outside m)"
proof (cases "radio m")
  case (Some cs)
  then show ?thesis using assms(1) by (simp add: get_radio_def combinator_defs)
next
  case None
  show ?thesis
  proof (cases "peripheral m")
    case False
    then show ?thesis using assms(1) None by (simp add: get_radio_def start_radio_def combinator_defs)
  next
    case True
    have res: "resources m" using assms(1) None by (simp add: manager_ok_def)
    have refused: "net_task_refused L w" if "wifi_new L w = (Some c, w1)" "set_config L c default_station w1 = (True, w2)"
      "net_new L w2 = (st, w3)" "\<not> fst (spawn_net_task L st w3)" for w c w1 w2 st w3
      using that unfolding net_task_refused_def by blast
    show ?thesis
      using assms(1) None True res
      by (auto simp: get_radio_def start_radio_def combinator_defs drive_def manager_ok_def
          split: option.splits prod.splits intro: refused)
  qed
qed

lemma get_radio_Ok:
  assumes "manager_ok m" and "get_radio L m = (Ok r, m')"
  shows "manager_ok m'" "radio m' = r" "strongest_bssid m' = strongest_bssid m" "\<not> (peripheral m' \<and> r = None)"
    "radio m \<noteq> None \<or> \<not> peripheral m \<Longrightarrow> m' = m"
  using get_radio_run [OF assms(1), of L] assms(2) by simp_all

section \<open>Scans\<close>

text \<open>What an answer of the radio is turned into: \<open>nets\<close> reported and \<open>known\<close> remembered.\<close>

definition reports_scan :: "access_point list \<Rightarrow> network list \<Rightarrow> (u8 list \<times> u8 list) list \<Rightarrow> bool" where
  "reports_scan aps nets known \<longleftrightarrow> distinct (map nw_ssid nets) \<and> set (map nw_ssid nets) = ap_ssid ` set aps - {[]} \<and>
     map fst known = map nw_ssid nets \<and>
     (\<forall>n \<in> set nets. \<exists>ap. strongest_at aps (nw_ssid n) ap \<and> signal_strength n = ap_strength ap \<and>
        secured n = is_secured (ap_auth ap) \<and> map_of known (nw_ssid n) = Some (ap_bssid ap))"

lemma strongest_of_reports:
  fixes aps :: "access_point list"
  defines "S \<equiv> strongest_of aps []"
  shows "reports_scan aps (map (\<lambda>(ssid, _, st, s). \<lparr>nw_ssid = ssid, signal_strength = st, secured = s\<rparr>) S)
    (map (\<lambda>(ssid, bssid, _). (ssid, bssid)) S)"
proof -
  note spec = strongest_of_spec [of aps, folded S_def]
  let ?nets = "map (\<lambda>(ssid, _, st, s). \<lparr>nw_ssid = ssid, signal_strength = st, secured = s\<rparr>)"
  let ?known = "map (\<lambda>(ssid, bssid, _). (ssid, bssid))"
  have names: "map nw_ssid (?nets T) = map fst T" "map fst (?known T) = map fst T" for T :: "seen list"
    by (induction T) auto
  have lookup: "map_of (?known T) n = map_option fst (map_of T n)" for T :: "seen list" and n
    by (induction T) auto
  have "\<exists>ap. strongest_at aps (nw_ssid n) ap \<and> signal_strength n = ap_strength ap \<and>
       secured n = is_secured (ap_auth ap) \<and> map_of (?known S) (nw_ssid n) = Some (ap_bssid ap)"
    if "n \<in> set (?nets S)" for n
  proof -
    from that obtain ssid b st s where n: "(ssid, b, st, s) \<in> set S" "n = \<lparr>nw_ssid = ssid, signal_strength = st, secured = s\<rparr>"
      by auto
    have "map_of S ssid = Some (b, st, s)" using spec n(1) by (simp add: map_of_eq_Some_iff)
    moreover from this obtain ap where "strongest_at aps ssid ap" "(ssid, b, st, s) = seen_of ap" using spec by blast
    ultimately show ?thesis unfolding lookup using n(2) by (auto simp: seen_of_def intro!: exI [of _ ap])
  qed
  with spec show ?thesis unfolding reports_scan_def names by blast
qed

text \<open>C35: a scan reports what the radio answered.  With an answer, every named network in it is reported exactly
  once, with the signal strength and security of its strongest access point (the first of equals), that access
  point's BSSID is remembered for the next connection, and hidden networks are left out, also when nothing else
  is there; without a radio or when the driver's scan fails the list is empty and what was remembered stays.
  A scan hangs only in the driver's scan, and panics only when a first start finds the network task's pool exhausted.\<close>

theorem scan_reports_strongest:
  assumes "manager_ok m"
  shows "case scan L m of
      (Ok nets, m') \<Rightarrow> (case radio m' of
          None \<Rightarrow> nets = [] \<and> strongest_bssid m' = strongest_bssid m
        | Some (c, st) \<Rightarrow> (\<exists>m1 found. get_radio L m = (Ok (Some (c, st)), m1) \<and>
            scan_async L c 20 (outside m1) = Some (found, outside m') \<and>
            (case found of
               None \<Rightarrow> nets = [] \<and> strongest_bssid m' = strongest_bssid m
             | Some aps \<Rightarrow> reports_scan aps nets (strongest_bssid m'))))
    | (Err Waits_Forever, m') \<Rightarrow> (\<exists>c st. radio m' = Some (c, st) \<and> scan_async L c 20 (outside m') = None)
    | (Panic, m') \<Rightarrow> radio m = None \<and> peripheral m \<and> net_task_refused L (outside m)"
proof (cases "get_radio L m")
  case (Pair res m1)
  note run = get_radio_run [OF assms, of L, unfolded Pair]
  show ?thesis
  proof (cases res)
    case (Ok r)
    show ?thesis
    proof (cases r)
      case None
      then show ?thesis using run Pair Ok by (simp add: scan_def andthen_def return_def)
    next
      case (Some cs)
      obtain c st where cs: "cs = (c, st)" by (cases cs)
      show ?thesis
        using run Pair Ok Some cs strongest_of_reports
        by (simp add: scan_def andthen_def return_def await_def modify_def Let_def split: option.splits prod.splits)
    qed
  qed (use run Pair in \<open>simp_all add: scan_def andthen_def split: waiting.splits\<close>)
qed

text \<open>A radio in sight of three access points, two of one network, that always succeeds.\<close>

record air =
  associated :: bool
  configured :: station_config
  lease :: bool

definition ref_aps :: "access_point list" where
  "ref_aps = [\<lparr>ap_ssid = [104], ap_bssid = [1], ap_strength = 0xC0, ap_auth = Some Auth_Other\<rparr>,
              \<lparr>ap_ssid = [], ap_bssid = [2], ap_strength = 0xE0, ap_auth = None\<rparr>,
              \<lparr>ap_ssid = [104], ap_bssid = [3], ap_strength = 0xD0, ap_auth = Some Auth_Other\<rparr>]"

definition ref_radio :: "(air, unit, unit) radio_lib" where
  "ref_radio = \<lparr>wifi_new = (\<lambda>w. (Some (), w)), drop_controller = (\<lambda>_ w. w), set_config = (\<lambda>_ c w. (True, w\<lparr>configured := c\<rparr>)),
     net_new = (\<lambda>w. ((), w)), spawn_net_task = (\<lambda>_ w. (True, w)), scan_async = (\<lambda>_ n w. Some (Some (take n ref_aps), w)),
     is_connected = (\<lambda>_ w. associated w), disconnect_async = (\<lambda>_ w. Some (True, w\<lparr>associated := False\<rparr>)),
     connect_async = (\<lambda>_ w. Some (True, w\<lparr>associated := True\<rparr>)), config_v4 = (\<lambda>_ w. if lease w then Some 0xC0A80102 else None),
     is_config_up = (\<lambda>_ w. lease w), wait_config_down = (\<lambda>_ w. Some ((), w\<lparr>lease := False\<rparr>)),
     wait_config_up = (\<lambda>_ w. Some ((), w\<lparr>lease := True\<rparr>))\<rparr>"

definition ref_manager :: "(air, unit, unit) wifi_manager" where
  "ref_manager = wifi_manager_new \<lparr>associated = False, configured = default_station, lease = False\<rparr>"

lemma ref_radio_laws: "manager_ok ref_manager"
  by (simp add: manager_ok_def ref_manager_def wifi_manager_new_def)

lemma ref_scan:
  "fst (scan ref_radio ref_manager) = Ok [\<lparr>nw_ssid = [104], signal_strength = 0xD0, secured = True\<rparr>]"
  by (simp add: scan_def get_radio_def start_radio_def combinator_defs drive_run await_def ref_radio_def ref_manager_def
      wifi_manager_new_def ref_aps_def seen_of_def is_secured_def)

theorem scan_reports_strongest_witness:
  "\<exists>m' c w. scan ref_radio ref_manager = (Ok [\<lparr>nw_ssid = [104], signal_strength = 0xD0, secured = True\<rparr>], m') \<and>
     scan_async ref_radio c 20 w = Some (Some ref_aps, outside m') \<and>
     reports_scan ref_aps [\<lparr>nw_ssid = [104], signal_strength = 0xD0, secured = True\<rparr>] (strongest_bssid m')"
proof -
  obtain m' where run: "scan ref_radio ref_manager = (Ok [\<lparr>nw_ssid = [104], signal_strength = 0xD0, secured = True\<rparr>], m')"
    using ref_scan by (metis prod.collapse)
  have answer: "scan_async ref_radio c 20 w = Some (Some ref_aps, w)" for c w by (simp add: ref_radio_def ref_aps_def)
  from scan_reports_strongest [OF ref_radio_laws, of ref_radio, unfolded run] show ?thesis
    using run by (auto simp: answer split: option.splits)
qed

section \<open>Connections\<close>

text \<open>Waiting for the configuration to come or go ends when it has.\<close>

definition stack_laws :: "('w, 'c, 's) radio_lib \<Rightarrow> bool" where
  "stack_laws L \<longleftrightarrow> (\<forall>st w w'. wait_config_up L st w = Some ((), w') \<longrightarrow> config_v4 L st w' \<noteq> None) \<and>
     (\<forall>st w w'. wait_config_down L st w = Some ((), w') \<longrightarrow> \<not> is_config_up L st w')"

text \<open>The steps of a connection that succeeds, each on the world the one before left.\<close>

definition connection :: "('w, 'c, 's) radio_lib \<Rightarrow> 'c \<Rightarrow> 's \<Rightarrow> station_config \<Rightarrow> 'w \<Rightarrow> 'w \<Rightarrow> bool" where
  "connection L c st cfg w w' \<longleftrightarrow> (\<exists>w1 w2 w3 w4.
     (if is_connected L c w then disconnect_async L c w = Some (True, w1) else w1 = w) \<and>
     (if is_config_up L st w1 then wait_config_down L st w1 = Some ((), w2) else w2 = w1) \<and> \<not> is_config_up L st w2 \<and>
     set_config L c cfg w2 = (True, w3) \<and> connect_async L c w3 = Some (True, w4) \<and> wait_config_up L st w4 = Some ((), w'))"

lemma andthen_gets: "andthen (gets f) k m = k (f m) m"
  by (simp add: andthen_def gets_def)

lemma drive_iff: "drive f m = (Ok a, m') \<longleftrightarrow> (\<exists>w. f (outside m) = (a, w) \<and> m' = m\<lparr>outside := w\<rparr>)"
  by (auto simp: drive_def split: prod.splits)

lemma await_iff: "await f m = (Ok a, m') \<longleftrightarrow> (\<exists>w. f (outside m) = Some (a, w) \<and> m' = m\<lparr>outside := w\<rparr>)"
  by (auto simp: await_def split: option.splits)

text \<open>C34: when \<open>connect\<close> reports success, the manager is online, and it got there by the whole protocol: an
  existing association was torn down, the old lease was gone before the station was reconfigured, the
  configuration carried the given name and password pinned to the BSSID the last scan stored for that
  name (none without a scan), the association succeeded and a new lease came up afterwards.\<close>

theorem connect_brings_online:
  assumes "connect L ssid password m = (Ok True, m')" and "manager_ok m" and "stack_laws L"
  shows "is_online L m' \<and> (\<exists>c st w. radio m' = Some (c, st) \<and>
    connection L c st \<lparr>sc_ssid = ssid, sc_password = password, sc_bssid = map_of (strongest_bssid m) ssid\<rparr> w (outside m'))"
proof -
  obtain r m1 where radio: "get_radio L m = (Ok r, m1)" "radio m1 = r" "strongest_bssid m1 = strongest_bssid m"
    using assms(1) get_radio_Ok [OF assms(2)] by (auto simp: connect_def andthen_def gets_def split: prod.splits res.splits)
  then obtain c st where r: "r = Some (c, st)"
    using assms(1) by (cases r) (auto simp: connect_def andthen_def return_def gets_def)
  let ?cfg = "\<lparr>sc_ssid = ssid, sc_password = password, sc_bssid = map_of (strongest_bssid m) ssid\<rparr>"
  let ?tail = "\<lambda>_. andthen (drive (set_config L c ?cfg)) (\<lambda>configured.
      andthen (if configured then await (connect_async L c) else return False) (\<lambda>connected.
      if \<not> connected then return False else andthen (await (wait_config_up L st)) (\<lambda>_. return True)))"
  have "andthen (if is_connected L c (outside m1) then await (disconnect_async L c) else return True) (\<lambda>released.
      if \<not> released then return False
      else andthen (gets (\<lambda>m. is_config_up L st (outside m))) (\<lambda>up.
        andthen (if up then await (wait_config_down L st) else return ()) ?tail)) m1 = (Ok True, m')"
    using assms(1) by (simp add: connect_def andthen_gets andthen_run_Ok [where m = "get_radio L", OF radio(1)] r radio(3))
  from andthen_Ok_iff [THEN iffD1, OF this] obtain b m2 where
    m2: "(if is_connected L c (outside m1) then await (disconnect_async L c) else return True) m1 = (Ok b, m2)"
    and n2: "(if \<not> b then return False
      else andthen (gets (\<lambda>m. is_config_up L st (outside m))) (\<lambda>up.
        andthen (if up then await (wait_config_down L st) else return ()) ?tail)) m2 = (Ok True, m')" by blast
  have b: b using n2 by (cases b) (simp_all add: return_def)
  have "andthen (if is_config_up L st (outside m2) then await (wait_config_down L st) else return ()) ?tail m2 = (Ok True, m')"
    using n2 b by (simp add: andthen_gets)
  from andthen_Ok_iff [THEN iffD1, OF this] obtain m3 where
    m3: "(if is_config_up L st (outside m2) then await (wait_config_down L st) else return ()) m2 = (Ok (), m3)"
    and "?tail () m3 = (Ok True, m')" by auto
  from andthen_Ok_iff [THEN iffD1, OF this(2)] obtain ok m4 where m4: "drive (set_config L c ?cfg) m3 = (Ok ok, m4)"
    and n4: "andthen (if ok then await (connect_async L c) else return False) (\<lambda>connected.
      if \<not> connected then return False else andthen (await (wait_config_up L st)) (\<lambda>_. return True)) m4 = (Ok True, m')" by blast
  from andthen_Ok_iff [THEN iffD1, OF n4] obtain ok2 m5 where
    m5: "(if ok then await (connect_async L c) else return False) m4 = (Ok ok2, m5)"
    and n5: "(if \<not> ok2 then return False else andthen (await (wait_config_up L st)) (\<lambda>_. return True)) m5 = (Ok True, m')" by blast
  have ok2: ok2 using n5 by (cases ok2) (simp_all add: return_def)
  with m5 have ok: ok by (cases ok) (simp_all add: return_def)
  have m': "await (wait_config_up L st) m5 = (Ok (), m')"
    using n5 ok2 by (auto simp: andthen_Ok_iff return_def)
  note m4 = m4 [unfolded ok [THEN eqTrueI]] and m5 = m5 [unfolded ok [THEN eqTrueI] ok2 [THEN eqTrueI] if_True]
  note m2 = m2 [unfolded b [THEN eqTrueI]]
  have s1: "if is_connected L c (outside m1) then disconnect_async L c (outside m1) = Some (True, outside m2) else outside m2 = outside m1"
    using m2 by (auto simp: await_iff return_def split: if_splits)
  have s2: "if is_config_up L st (outside m2) then wait_config_down L st (outside m2) = Some ((), outside m3) else outside m3 = outside m2"
    using m3 by (auto simp: await_iff return_def split: if_splits)
  have down: "\<not> is_config_up L st (outside m3)"
    using s2 assms(3) unfolding stack_laws_def by (metis (full_types))
  have s3: "set_config L c ?cfg (outside m3) = (True, outside m4)" "connect_async L c (outside m4) = Some (True, outside m5)"
    "wait_config_up L st (outside m5) = Some ((), outside m')"
    using m4 m5 m' by (auto simp: drive_iff await_iff)
  have w: "connection L c st ?cfg (outside m1) (outside m')"
    unfolding connection_def
    by (intro exI [of _ "outside m2"] exI [of _ "outside m3"] exI [of _ "outside m4"] exI [of _ "outside m5"] conjI s1 s2 down s3)
  have "radio m2 = radio m1" using m2 by (auto simp: await_iff return_def split: if_splits)
  moreover have "radio m3 = radio m2" using m3 by (auto simp: await_iff return_def split: if_splits)
  ultimately have "radio m' = Some (c, st)" using m4 m5 m' radio(2) r by (auto simp: drive_iff await_iff)
  moreover have "config_v4 L st (outside m') \<noteq> None" using m' assms(3) by (auto simp: await_iff stack_laws_def)
  ultimately show ?thesis using w by (auto simp: is_online_def ip_stack_def)
qed

theorem connect_brings_online_witness:
  "\<exists>m'. connect ref_radio [104] [112] ref_manager = (Ok True, m') \<and> is_online ref_radio m'"
proof -
  have "fst (connect ref_radio [104] [112] ref_manager) = Ok True"
    by (simp add: connect_def get_radio_def start_radio_def combinator_defs drive_run await_def ref_radio_def ref_manager_def
        wifi_manager_new_def)
  then obtain m' where run: "connect ref_radio [104] [112] ref_manager = (Ok True, m')" by (metis prod.collapse)
  have "stack_laws ref_radio" by (simp add: stack_laws_def ref_radio_def)
  with connect_brings_online [OF run ref_radio_laws] run show ?thesis by blast
qed

section \<open>Connecting comes to an end\<close>

text \<open>A driver that grants the requests it answers.\<close>

definition obliging :: "('w, 'c, 's) radio_lib \<Rightarrow> bool" where
  "obliging L \<longleftrightarrow> (\<forall>c w a w'. disconnect_async L c w = Some (a, w') \<longrightarrow> a) \<and> (\<forall>c cfg w. fst (set_config L c cfg w)) \<and>
     (\<forall>c w a w'. connect_async L c w = Some (a, w') \<longrightarrow> a)"

text \<open>The four awaits of \<open>connect\<close>, and that one of them, reached in world \<open>w\<close>, never completes there.\<close>

definition stuck_connecting :: "('w, 'c, 's) radio_lib \<Rightarrow> 'c \<Rightarrow> 's \<Rightarrow> 'w \<Rightarrow> bool" where
  "stuck_connecting L c st w \<longleftrightarrow>
     is_connected L c w \<and> disconnect_async L c w = None \<or> is_config_up L st w \<and> wait_config_down L st w = None \<or>
     connect_async L c w = None \<or> wait_config_up L st w = None"

definition up_with :: "'c \<Rightarrow> 's \<Rightarrow> ('w, 'c, 's) wifi_manager \<Rightarrow> bool" where
  "up_with c st m \<longleftrightarrow> manager_ok m \<and> radio m = Some (c, st)"

lemma triple_drive:
  "(\<And>w. good \<Longrightarrow> fst (f w)) \<Longrightarrow> triple (up_with c st) (drive f) (\<lambda>a m. (good \<longrightarrow> a) \<and> up_with c st m) E"
  by (auto simp: triple_def drive_run up_with_def manager_ok_def)

lemma triple_await:
  "(\<And>w a w'. f w = Some (a, w') \<Longrightarrow> Q a) \<Longrightarrow> (\<And>w. P w \<Longrightarrow> f w = None \<Longrightarrow> stuck w) \<Longrightarrow>
   triple (\<lambda>m. P (outside m) \<and> up_with c st m) (await f) (\<lambda>a m. Q a \<and> up_with c st m) (\<lambda>_ m. up_with c st m \<and> stuck (outside m))"
  by (rule tripleI) (auto simp: await_def up_with_def manager_ok_def split: option.splits)

text \<open>The part after the radio is up, in the order of the code.\<close>

lemma triple_connected:
  assumes nice: "good \<Longrightarrow> obliging L"
  shows "triple (up_with c st)
    (andthen (gets (\<lambda>m. is_connected L c (outside m))) (\<lambda>associated.
     andthen (if associated then await (disconnect_async L c) else return True) (\<lambda>released.
     if \<not> released then return False
     else
       andthen (gets (\<lambda>m. is_config_up L st (outside m))) (\<lambda>up.
       andthen (if up then await (wait_config_down L st) else return ()) (\<lambda>_.
       andthen (drive (set_config L c cfg)) (\<lambda>configured.
       andthen (if configured then await (connect_async L c) else return False) (\<lambda>connected.
       if \<not> connected then return False
       else andthen (await (wait_config_up L st)) (\<lambda>_. return True))))))))
    (\<lambda>ok m. (good \<longrightarrow> ok) \<and> up_with c st m) (\<lambda>_ m. up_with c st m \<and> stuck_connecting L c st (outside m))"
proof -
  let ?I = "up_with c st" and ?Q = "\<lambda>ok m. (good \<longrightarrow> ok) \<and> up_with c st m"
  let ?E = "\<lambda>(_ :: waiting) m. up_with c st m \<and> stuck_connecting L c st (outside m)"
  have granted: "good \<Longrightarrow> disconnect_async L c w = Some (a, w') \<Longrightarrow> a" "good \<Longrightarrow> connect_async L c w = Some (a, w') \<Longrightarrow> a" for w a w'
    using nice unfolding obliging_def by blast+
  have waits1: "triple (\<lambda>m. is_connected L c (outside m) \<and> ?I m) (await (disconnect_async L c)) ?Q ?E"
    by (rule triple_await) (use granted(1) in blast, simp add: stuck_connecting_def)
  have waits2: "triple (\<lambda>m. is_config_up L st (outside m) \<and> ?I m) (await (wait_config_down L st)) (\<lambda>_ m. True \<and> ?I m) ?E"
    by (rule triple_await) (simp_all add: stuck_connecting_def)
  have waits3: "triple (\<lambda>m. True \<and> ?I m) (await (connect_async L c)) ?Q ?E"
    by (rule triple_await) (use granted(2) in blast, simp add: stuck_connecting_def)
  have waits4: "triple (\<lambda>m. True \<and> ?I m) (await (wait_config_up L st)) (\<lambda>_ m. True \<and> ?I m) ?E"
    by (rule triple_await) (simp_all add: stuck_connecting_def)
  have released: "triple (\<lambda>m. (b \<longrightarrow> is_connected L c (outside m)) \<and> ?I m)
      (if b then await (disconnect_async L c) else return True) ?Q ?E" for b
    using waits1 by (cases b) (auto intro!: triple_return)
  have down: "triple (\<lambda>m. (b \<longrightarrow> is_config_up L st (outside m)) \<and> ?I m)
      (if b then await (wait_config_down L st) else return ()) (\<lambda>_. ?I) ?E" for b
    using waits2 by (cases b) (auto intro!: triple_return)
  have configured: "triple ?I (drive (set_config L c cfg)) ?Q ?E" using nice by (intro triple_drive) (simp add: obliging_def)
  have joined: "triple ?I (if b then await (connect_async L c) else return False) ?Q ?E" if "good \<longrightarrow> b" for b
    using waits3 that by (cases b) (auto intro!: triple_return)
  have up: "triple ?I (await (wait_config_up L st)) (\<lambda>_. ?I) ?E" using waits4 by simp
  have read: "triple ?I (gets f) (\<lambda>b m. (b \<longrightarrow> f m) \<and> ?I m) ?E" for f by (rule triple_gets) simp
  show ?thesis
    apply (rule triple_andthen [OF read], rule triple_andthen [OF released], rule triple_pure, rule triple_if, rule triple_return, simp)
    apply (rule triple_andthen [OF read], rule triple_andthen [OF down], rule triple_andthen [OF configured], rule triple_pure)
    apply (rule triple_andthen [OF joined], assumption, rule triple_pure, rule triple_if, rule triple_return, simp)
    apply (rule triple_andthen [OF up], rule triple_return, simp)
    done
qed

lemma outcome_mono:
  assumes "case x of (Ok a, s) \<Rightarrow> P a s | (Err e, s) \<Rightarrow> Q e s | (Panic, s) \<Rightarrow> R s"
    and "\<And>a s. P a s \<Longrightarrow> P' a s" and "\<And>e s. Q e s \<Longrightarrow> Q' e s" and "\<And>s. R s \<Longrightarrow> R' s"
  shows "case x of (Ok a, s) \<Rightarrow> P' a s | (Err e, s) \<Rightarrow> Q' e s | (Panic, s) \<Rightarrow> R' s"
  using assms by (auto split: prod.splits res.splits)

text \<open>C37: \<open>connect\<close> comes back unless one of the four things it waits for never happens: it hangs only inside a
  disconnection, an association or one of the two waits for the stack's configuration that does not complete in
  the world it then waits in, and otherwise returns a boolean, whichever driver calls fail, leaving the manager
  well formed.  It panics only when a first start of the radio finds the pool of the network task exhausted, as
  a later call never does.  With the radio up and a driver that grants every request, the answer is that the
  station is connected.\<close>

theorem connect_returns:
  assumes "manager_ok m"
  shows "case connect L ssid password m of
      (Ok ok, m') \<Rightarrow> manager_ok m' \<and> (radio m \<noteq> None \<and> obliging L \<longrightarrow> ok)
    | (Err Waits_Forever, m') \<Rightarrow> manager_ok m' \<and> (\<exists>c st. radio m' = Some (c, st) \<and> stuck_connecting L c st (outside m'))
    | (Panic, m') \<Rightarrow> radio m = None \<and> peripheral m \<and> net_task_refused L (outside m)"
proof (cases "get_radio L m")
  case (Pair res m1)
  note run = get_radio_run [OF assms, of L, unfolded Pair]
  show ?thesis
  proof (cases res)
    case (Ok r)
    show ?thesis
    proof (cases r)
      case None
      then show ?thesis using run Ok
        by (simp add: connect_def andthen_gets andthen_run_Ok [where m = "get_radio L", OF Pair [unfolded Ok None]]) (auto simp: return_def)
    next
      case (Some cs)
      obtain c st where cs: "cs = (c, st)" by (cases cs)
      have "up_with c st m1" using run Ok Some cs by (simp add: up_with_def)
      note body = tripleD [OF triple_connected [where good = "radio m \<noteq> None \<and> obliging L" and L = L
          and cfg = "\<lparr>sc_ssid = ssid, sc_password = password, sc_bssid = map_of (strongest_bssid m) ssid\<rparr>"] this]
      show ?thesis
        unfolding connect_def andthen_gets andthen_run_Ok [where m = "get_radio L", OF Pair [unfolded Ok]] Some cs option.case prod.case
        by (rule outcome_mono [OF body [unfolded andthen_gets]]) (auto simp: up_with_def split: waiting.splits)
    qed
  qed (use run Pair in \<open>simp_all add: connect_def andthen_gets, simp_all add: andthen_def\<close>)
qed

text \<open>A world in which the association never completes: the call hangs there, and nowhere else.\<close>

theorem connect_returns_witness:
  "(\<exists>m'. connect (ref_radio\<lparr>connect_async := \<lambda>_ _. None\<rparr>) [104] [112] ref_manager = (Err Waits_Forever, m') \<and>
      stuck_connecting (ref_radio\<lparr>connect_async := \<lambda>_ _. None\<rparr>) () () (outside m')) \<and>
   (\<exists>m'. connect ref_radio [104] [112] ref_manager = (Ok True, m') \<and> manager_ok m')"
proof -
  note eval = connect_def get_radio_def start_radio_def combinator_defs drive_run await_def ref_radio_def ref_manager_def
    wifi_manager_new_def
  have "fst (connect (ref_radio\<lparr>connect_async := \<lambda>_ _. None\<rparr>) [104] [112] ref_manager) = Err Waits_Forever" by (simp add: eval)
  then obtain m1 where m1: "connect (ref_radio\<lparr>connect_async := \<lambda>_ _. None\<rparr>) [104] [112] ref_manager = (Err Waits_Forever, m1)"
    by (metis prod.collapse)
  have "fst (connect ref_radio [104] [112] ref_manager) = Ok True" by (simp add: eval)
  then obtain m2 where m2: "connect ref_radio [104] [112] ref_manager = (Ok True, m2)" by (metis prod.collapse)
  from connect_returns [OF ref_radio_laws, of "ref_radio\<lparr>connect_async := \<lambda>_ _. None\<rparr>" "[104]" "[112]", unfolded m1]
    connect_returns [OF ref_radio_laws, of ref_radio "[104]" "[112]", unfolded m2] m1 m2
  show ?thesis by auto
qed

section \<open>Runs of the manager\<close>

datatype wifi_call = Scan | Connect "u8 list" "u8 list"

text \<open>A call and its observable answer: the number of networks, or whether the station is connected.\<close>

inductive wifi_step :: "('w, 'c, 's) radio_lib \<Rightarrow> ('w, 'c, 's) wifi_manager \<Rightarrow> wifi_call \<Rightarrow> bool \<Rightarrow> ('w, 'c, 's) wifi_manager \<Rightarrow> bool"
  for L :: "('w, 'c, 's) radio_lib"
where
  scanned: "scan L m = (Ok nets, m') \<Longrightarrow> wifi_step L m Scan (nets \<noteq> []) m'"
| connected: "connect L ssid password m = (Ok ok, m') \<Longrightarrow> wifi_step L m (Connect ssid password) ok m'"

inductive wifi_run :: "('w, 'c, 's) radio_lib \<Rightarrow> ('w, 'c, 's) wifi_manager \<Rightarrow> bool list \<Rightarrow> ('w, 'c, 's) wifi_manager \<Rightarrow> bool"
  for L :: "('w, 'c, 's) radio_lib"
where
  idle: "wifi_run L m [] m"
| more: "wifi_step L m c answer m' \<Longrightarrow> wifi_run L m' answers m'' \<Longrightarrow> wifi_run L m (answer # answers) m''"

inductive_simps wifi_run_simps: "wifi_run L m [] m'" "wifi_run L m (answer # answers) m'"

text \<open>What neither operation changes once the peripheral is gone.\<close>

lemma keeps_radio [keep]:
  "keeps radio (drive f)" "keeps radio (await g)"
  "keeps (\<lambda>m. (peripheral m, resources m)) (drive f)" "keeps (\<lambda>m. (peripheral m, resources m)) (await g)"
  by (auto simp: keeps_def drive_def await_def split: prod.splits option.splits)

lemma keeps_if [keep]: "keeps f x \<Longrightarrow> keeps f y \<Longrightarrow> keeps f (if b then x else y)"
  by simp

lemma get_radio_gone:
  assumes "manager_ok m" and "\<not> peripheral m"
  shows "get_radio L m = (Ok (radio m), m)"
  using assms by (cases "radio m") (simp_all add: get_radio_def start_radio_def combinator_defs)

lemma step_keeps_radio:
  fixes L :: "('w, 'c, 's) radio_lib"
  assumes "wifi_step L m c answer m'" and "manager_ok m" and "\<not> peripheral m"
  shows "radio m' = radio m \<and> manager_ok m' \<and> \<not> peripheral m' \<and> (radio m = None \<longrightarrow> m' = m \<and> \<not> answer)"
  using assms(1)
proof cases
  case (scanned nets)
  have eq: "scan L m = (case radio m of None \<Rightarrow> return [] | Some (controller, stack) \<Rightarrow>
         andthen (await (scan_async L controller 20)) (\<lambda>found. case found of None \<Rightarrow> return []
         | Some access_points \<Rightarrow> let strongest = strongest_of access_points [] in
             andthen (modify (\<lambda>m. m\<lparr>strongest_bssid := map (\<lambda>(ssid, bssid, _). (ssid, bssid)) strongest\<rparr>)) (\<lambda>_.
             return (map (\<lambda>(ssid, _, st, s). \<lparr>nw_ssid = ssid, signal_strength = st, secured = s\<rparr>) strongest)))) m"
    by (simp add: scan_def andthen_run_Ok [where m = "get_radio L", OF get_radio_gone [OF assms(2,3)]])
  show ?thesis
    using scanned assms(2,3) unfolding eq
    by (auto simp: andthen_def return_def await_def modify_def Let_def manager_ok_def split: option.splits prod.splits res.splits)
next
  case (connected ssid password)
  show ?thesis
  proof (cases "radio m")
    case None
    then have "connect L ssid password m = (Ok False, m)"
      by (simp add: connect_def andthen_gets andthen_run_Ok [where m = "get_radio L", OF get_radio_gone [OF assms(2,3)]] return_def)
    then show ?thesis using connected None assms(2,3) by simp
  next
    case (Some cs)
    obtain c st where cs: "cs = (c, st)" by (cases cs)
    let ?rest = "\<lambda>bssid. andthen (gets (\<lambda>m. is_connected L c (outside m))) (\<lambda>associated.
         andthen (if associated then await (disconnect_async L c) else return True) (\<lambda>released.
         if \<not> released then return False
         else
           andthen (gets (\<lambda>m. is_config_up L st (outside m))) (\<lambda>up.
           andthen (if up then await (wait_config_down L st) else return ()) (\<lambda>_.
           andthen (drive (set_config L c \<lparr>sc_ssid = ssid, sc_password = password, sc_bssid = bssid\<rparr>)) (\<lambda>configured.
           andthen (if configured then await (connect_async L c) else return False) (\<lambda>connected.
           if \<not> connected then return False
           else andthen (await (wait_config_up L st)) (\<lambda>_. return True)))))))"
    define body :: "('w, 'c, 's, bool) wifi" where "body = ?rest (map_of (strongest_bssid m) ssid)"
    have "connect L ssid password m = body m"
      using Some cs by (simp add: body_def connect_def andthen_gets andthen_run_Ok [where m = "get_radio L", OF get_radio_gone [OF assms(2,3)]])
    then have run: "body m = (Ok answer, m')" using connected(2) by simp
    have "keeps radio body" unfolding body_def by (intro keep)
    from keepsD [OF this run] have "radio m' = radio m" .
    moreover have "keeps (\<lambda>m. (peripheral m, resources m)) body" unfolding body_def by (intro keep)
    from keepsD [OF this run] have "(peripheral m', resources m') = (peripheral m, resources m)" .
    ultimately have "radio m' = radio m" "(peripheral m', resources m') = (peripheral m, resources m)" by blast+
    then show ?thesis using Some assms(2,3) by (simp add: manager_ok_def)
  qed
qed

text \<open>A call of a fresh manager is a call after the radio was brought up.\<close>

lemma step_after_radio:
  fixes L :: "('w, 'c, 's) radio_lib" and m :: "('w, 'c, 's) wifi_manager"
  assumes step: "wifi_step L m c answer m'" and ok: "manager_ok m"
  shows "\<exists>m1. manager_ok m1 \<and> \<not> peripheral m1 \<and> wifi_step L m1 c answer m'"
proof -
  obtain res m1 where eq: "get_radio L m = (res, m1)" by (cases "get_radio L m")
  have "\<exists>r. res = Ok r"
  proof (cases res)
    case (Err e)
    with get_radio_run [OF ok, of L] eq show ?thesis by simp
  next
    case Panic
    with step eq show ?thesis
      by (elim wifi_step.cases; simp add: scan_def connect_def andthen_gets, simp add: andthen_def)
  qed simp
  then obtain r where run: "get_radio L m = (Ok r, m1)" using eq by blast
  note m1 = run get_radio_Ok [OF ok run]
  have gone: "\<not> peripheral m1" using m1(2,3,5) by (auto simp: manager_ok_def)
  note again = get_radio_gone [OF m1(2) gone, of L, unfolded m1(3)]
  have "scan L m = scan L m1"
    by (simp add: scan_def andthen_run_Ok [where m = "get_radio L", OF m1(1)] andthen_run_Ok [where m = "get_radio L", OF again])
  moreover have "connect L ssid password m = connect L ssid password m1" for ssid password
    unfolding connect_def andthen_gets m1(4)
      andthen_run_Ok [where m = "get_radio L", OF m1(1)] andthen_run_Ok [where m = "get_radio L", OF again] by (rule refl)
  ultimately have "wifi_step L m1 c answer m'"
    using step by (auto elim!: wifi_step.cases intro: wifi_step.intros)
  with m1(2) gone show ?thesis by blast
qed

text \<open>C36: the radio is started at most once.  After the first scan or connection attempt of a manager its
  controller and stack never change again, whatever is called; and if that first attempt to start the radio
  failed, every later scan is empty, every later connection is refused, and none of them touches the
  radio or the manager any more.\<close>

theorem radio_starts_once:
  assumes "wifi_step L m c answer m1" and "wifi_run L m1 answers m2" and "manager_ok m"
  shows "radio m2 = radio m1 \<and> manager_ok m2 \<and> (radio m1 = None \<longrightarrow> m2 = m1 \<and> True \<notin> set answers)"
proof -
  obtain m0 where m0: "manager_ok m0" "\<not> peripheral m0" "wifi_step L m0 c answer m1"
    using step_after_radio [OF assms(1,3)] by blast
  from step_keeps_radio [OF m0(3,1,2)] have "manager_ok m1" "\<not> peripheral m1" by blast+
  with assms(2) show ?thesis
  proof induction
    case (more m c answer m' answers m'')
    from step_keeps_radio [OF more.hyps(1) more.prems] more.IH show ?case by auto
  qed simp
qed

theorem radio_starts_once_witness:
  "\<exists>m1 m2. wifi_step ref_radio ref_manager Scan True m1 \<and> wifi_run ref_radio m1 [True] m2 \<and> radio m2 = radio m1"
proof -
  let ?net = "[\<lparr>nw_ssid = [104], signal_strength = 0xD0, secured = True\<rparr>]"
  obtain m1 where scan: "scan ref_radio ref_manager = (Ok ?net, m1)" using ref_scan by (metis prod.collapse)
  from wifi_step.scanned [OF scan] have one: "wifi_step ref_radio ref_manager Scan True m1" by simp
  have "\<exists>m2. scan ref_radio m1 = (Ok ?net, m2)"
    using scan by (auto simp: scan_def get_radio_def start_radio_def combinator_defs drive_run await_def ref_radio_def ref_manager_def
        wifi_manager_new_def ref_aps_def seen_of_def is_secured_def)
  then obtain m2 where again: "scan ref_radio m1 = (Ok ?net, m2)" by blast
  from wifi_step.scanned [OF again] have two: "wifi_run ref_radio m1 [True] m2" by (auto simp: wifi_run_simps)
  with radio_starts_once [OF one two ref_radio_laws] one show ?thesis by blast
qed

end
