(* ===== verification/Watchdog.thy ===== *)
theory Watchdog
  imports Prelude
begin

text \<open>
  \<open>hardware/watchdog/src/lib.rs\<close>: the boot-window watchdog.  The driver of the timer group is the parameter
  \<open>wdt_lib\<close>, acting on the chip \<open>'w\<close>; each call makes a fresh driver value, which holds no state of its own.
\<close>

section \<open>The driver and the three operations\<close>

datatype mwdt_stage = Stage0 | Other_Stage nat

record ('w, 'd) wdt_lib =
  from_millis :: "u64 \<Rightarrow> 'd"
  wdt_set_timeout :: "mwdt_stage \<Rightarrow> 'd \<Rightarrow> 'w \<Rightarrow> 'w"
  wdt_enable :: "'w \<Rightarrow> 'w"
  wdt_feed :: "'w \<Rightarrow> 'w"
  wdt_disable :: "'w \<Rightarrow> 'w"

definition arm_ms :: "('w, 'd) wdt_lib \<Rightarrow> u64 \<Rightarrow> 'w \<Rightarrow> 'w" where
  "arm_ms L timeout_ms w = wdt_enable L (wdt_set_timeout L Stage0 (from_millis L timeout_ms) w)"

definition watchdog_feed :: "('w, 'd) wdt_lib \<Rightarrow> 'w \<Rightarrow> 'w" where
  "watchdog_feed L w = wdt_feed L w"

definition watchdog_disable :: "('w, 'd) wdt_lib \<Rightarrow> 'w \<Rightarrow> 'w" where
  "watchdog_disable L w = wdt_disable L w"

section \<open>The boot window\<close>

text \<open>What the driver's documentation says of the first stage: its limit and whether it runs.\<close>

definition wdt_laws :: "('w, 'd) wdt_lib \<Rightarrow> ('w \<Rightarrow> bool) \<Rightarrow> ('w \<Rightarrow> 'd) \<Rightarrow> bool" where
  "wdt_laws L running limit \<longleftrightarrow>
     (\<forall>d w. limit (wdt_set_timeout L Stage0 d w) = d) \<and>
     (\<forall>w. running (wdt_enable L w) \<and> limit (wdt_enable L w) = limit w) \<and>
     (\<forall>w. running (wdt_feed L w) = running w \<and> limit (wdt_feed L w) = limit w) \<and>
     (\<forall>w. \<not> running (wdt_disable L w))"

text \<open>From arming to disabling the watchdog runs with the caller's limit, however often it is fed.\<close>

lemma armed_until_disabled:
  assumes "wdt_laws L running limit"
  shows "running ((watchdog_feed L ^^ n) (arm_ms L t w)) \<and> limit ((watchdog_feed L ^^ n) (arm_ms L t w)) = from_millis L t"
    and "\<not> running (watchdog_disable L w)"
proof -
  show "running ((watchdog_feed L ^^ n) (arm_ms L t w)) \<and> limit ((watchdog_feed L ^^ n) (arm_ms L t w)) = from_millis L t"
    using assms by (induction n) (simp_all add: wdt_laws_def arm_ms_def watchdog_feed_def)
  show "\<not> running (watchdog_disable L w)" using assms by (simp add: wdt_laws_def watchdog_disable_def)
qed

end
