(* ===== verification/Spec2Isabelle.thy ===== *)
theory Spec2Isabelle
  imports Update_Boot Entry_Atomic Build_Script While_Loops Ota_Counters Config_Theorems Tls_Theorems Tls_Halves
    Wifi_Theorems Watchdog
begin

text \<open>
  A verification of espbewi, the ESP32-C3 and ESP32-S3 platform layer for FiBeWI applications: a
  second-stage bootloader and the flash, partition, over-the-air update, configuration, TLS, Wi-Fi and
  watchdog crates an application is built from.

  \<^bold>\<open>The program and its model.\<close>  The ROM starts the bootloader (\<open>bootloader/esp/src/main.rs\<close>), which reads the
  partition table and the two \<open>otadata\<close> entries, lets the \<open>fibewi\<close> library choose a slot and the entry
  writes to make first, performs those writes, loads the image's RAM segments, maps its flash segments and
  jumps.  The application receives images through \<open>adapters/ota\<close>, which writes a slot and later commits,
  confirms or rejects it by replacing one \<open>otadata\<close> entry; it stores its settings through
  \<open>adapters/config-space\<close> in the NVS partition; and it talks to the world through \<open>services/wifi\<close> and
  \<open>services/tls\<close>.  All of the application's flash traffic goes through the one owner in \<open>hardware/flash\<close>.

  \<^item> Prelude: Rust integers at their widths, results with panics as a third outcome, state-and-result
    computations (\<open>andthen\<close> is the \<open>?\<close> operator), a total-correctness triple with one rule per combinator
    (collection \<open>wp\<close>), what a computation leaves alone (\<open>keep\<close>), little-endian codecs, aligned addresses.
  \<^item> Platform: \<open>hardware/platform/src/lib.rs\<close>, the memory maps.  Build_Script: \<open>bootloader/esp/build.rs\<close> and
    the \<open>MEMORY\<close> regions of the two linker scripts, as physical memory, and that a boot spares them.
  \<^item> Rom_Boot, Flash_View: \<open>hardware/boot/src/lib.rs\<close> over the parameter \<open>rom\<close>, and flash as a function from
    offsets to bytes with the laws of NOR flash (\<open>rom_flash_laws\<close>: programming clears bits, erasing sets a
    sector).  The \<open>esp32c3\<close> and \<open>esp32s3\<close> modules are one text up to two register offsets: the chip is an
    argument.
  \<^item> Bootloader, Boot_Table, Boot_Load, Boot_Commit, Boot_Safety, Boot_Console: \<open>main.rs\<close> (\<open>read_layout\<close>, \<open>execute\<close>,
    \<open>load\<close>, \<open>boot\<close>, \<open>report\<close>, \<open>main\<close>) and the lemmas on each; Ref_Device is a small board for the witnesses;
    Boot_Theorems holds the bootloader's properties.
  \<^item> Entry_Commit: the erase, body, read-back, marker protocol that the bootloader and the OTA adapter share,
    specified over an abstract entry device; both programs, translated on their own, are proved to be that protocol.
    Entry_Atomic: what an interrupted write leaves for the next boot.
  \<^item> Nor_Flash, Partitions: \<open>hardware/flash\<close>, \<open>hardware/nvs\<close> and \<open>hardware/partitions\<close>.
  \<^item> Ota_Storage, Otadata, Shared_Flash: \<open>adapters/ota/src/lib.rs\<close>, \<open>otadata.rs\<close> and \<open>shared_flash.rs\<close>;
    Ota_Writer and Ota_Upload prove the invariant of an upload (what is erased, flushed, buffered), and
    Ota_Theorems holds the properties; Ota_Counters: what the writer reports after any use of it.
  \<^item> Update_Boot: the two programs on one flash: what an upload and an activation leave is what the
    bootloader reads after the reset.
  \<^item> While_Loops: the five \<open>while\<close> loops of the bootloader and the OTA adapter read literally, as loops that
    might not end, and proved to return what the recursive functions of the other theories compute.
  \<^item> Config_Space: \<open>adapters/config-space/src/lib.rs\<close>; Config_Contract states the record codec and the versioned
    store as locales, interpreted on the model's own functions; Config_Theorems holds the properties.
  \<^item> Tls_Time, Tls_Identity, Tls_Session, Tls_Theorems: \<open>services/tls/src/lib.rs\<close>.  Tls_Halves: the two halves
    of its picoserve socket, interleaved poll by poll over the mutex they share.
  \<^item> Wifi, Wifi_Theorems: \<open>services/wifi/src/lib.rs\<close>.  Watchdog: \<open>hardware/watchdog/src/lib.rs\<close>.

  \<^bold>\<open>What the lemmas show.\<close>  A boot that jumps does so to the entry point of an image validated in a slot of
  the table, with every RAM segment copied exactly, every flash segment mapped page for page, no byte of the bootloader's own
  memory overwritten, and flash changed at most inside the sectors of the \<open>otadata\<close> entries; the code never checks that
  this partition is 4 KiB aligned, so the properties that need it say so; an interrupted or failed entry write never yields a valid
  entry with other content, because the marker is written last and only over a body that was read back.
  An upload leaves exactly the received bytes in the chosen slot, and the slot is never that of the newest confirmed or pending entry;
  every transition replaces one entry and spares the other; after the reset the bootloader finds that entry
  and reads exactly the uploaded bytes.  A configuration that was committed is the one
  loaded next, torn or foreign records are rejected, generations tell records apart, and the reservation
  covers two versions of every record.  Conversions of time agree with the Gregorian calendar for all
  64-bit inputs.  Certificate checks and identity generation release every context and PSA key on every
  path; a client connection verifies its server and leaks no socket; TLS is initialized once.  However the two
  halves of a TLS socket are interleaved, polled and dropped, the session sees whole calls one after the
  other, and a waiting half gets the session as soon as the other's call is over.  A Wi-Fi scan reports
  each name once with its strongest access point; a connection reported as made is online by a lease that
  is newer than the request; the radio starts at most once; a connection attempt ends unless one of its
  four awaits never completes, and panics only where the executor refuses to spawn the network task.

  \<^bold>\<open>Parameters and their laws.\<close>  Code outside the repository is an argument: the ROM (\<open>rom\<close>), \<open>fibewi\<close>'s
  boot policy and image validation (\<open>policy_laws\<close>), its entry codec (\<open>marker_law\<close>), the flash driver (the NOR laws), the partition table
  parser of \<open>esp-bootloader-esp-idf\<close>, the upload session and SHA-256, the NVS library (its map-like laws), MbedTLS and
  PSA (\<open>parse_laws\<close>, \<open>key_laws\<close>, \<open>sparing_laws\<close>, \<open>buffer_laws\<close>), \<open>embassy-net\<close>, \<open>mbedtls-rs\<close> (\<open>client_laws\<close>,
  \<open>write_law\<close>), the mutex of \<open>embassy-sync\<close> (\<open>mutex_laws\<close>) and \<open>esp-radio\<close> (\<open>stack_laws\<close>).  Each law is a documented behaviour;
  each is satisfied by a concrete instance, on which the witnesses evaluate the properties.

  \<^bold>\<open>Bounds.\<close>  \<open>usize\<close> is 32 bits and checked wherever the code checks it.  There is no fuel: every loop of the
  program is bounded by the data it walks, and is a total function with a measure or a structural
  recursion; While_Loops relates these to the loops as written.  An \<open>await\<close> that never completes is an outcome
  of its own.

  \<^bold>\<open>Not modelled.\<close>  Log output of the application crates (the bootloader's console is modelled); the
  interleaving of tasks on the shared flash, whose mutex is taken at the start of each operation and released
  after a body without further suspension points (the TLS halves, which suspend under their mutex, are
  interleaved); the embassy network task, which only runs the external stack; the linker scripts beyond their
  memory regions; and cargo features other than the chip's.
\<close>

end
